(* ===== verification/Tftp_Prelude.thy ===== *)
theory Tftp_Prelude
  imports Main "HOL-Library.Word" "HOL-Library.Code_Target_Nat"
begin

text \<open>
  Shared vocabulary of the development.

  A byte is a \<open>char\<close> (exactly 256 values), so a datagram, a C string and a memory object are all
  byte lists and string literals of the source can be written as they are.  Machine integers are
  words of their C width.  The C library functions that the code calls on strings
  (\<open>strnlen\<close>, \<open>strlen\<close>, \<open>strcasecmp\<close>, \<open>isspace\<close>, \<open>strtoul\<close>, the decimal conversions of
  \<open>sprintf\<close>) are defined here; reading a string that has no terminating zero inside its memory
  object is \<open>None\<close>, so that every read out of bounds of the source shows up as a value.

  A C function that returns \<open>bool\<close> and mutates a structure is an \<open>op\<close>: it maps the state to a
  return value and the new state.  The third return value \<open>Fault\<close> stands for undefined behaviour
  (a null or out of bounds access, a loop that does not end).  \<open>chain\<close> is the idiom
  \<open>if (!f(s)) return false; if (!g(s)) return false; return true;\<close> of the source.
\<close>

unbundle bit_operations_syntax

section \<open>Types and theorem collections\<close>

type_synonym byte = char
type_synonym u8 = "8 word"
type_synonym u16 = "16 word"
type_synonym u64 = "64 word"

abbreviation NUL :: byte where
  "NUL \<equiv> CHR 0x00"

named_theorems cstr_simps \<open>reading and comparing C strings\<close>
named_theorems wire_simps \<open>encoding and decoding packet fields\<close>
named_theorems op_simps \<open>running chained operations\<close>

section \<open>Operations that may fail\<close>

datatype ret = Ret_True | Ret_False | Fault

type_synonym 's op = "'s \<Rightarrow> ret \<times> 's"

fun chain :: "'s op list \<Rightarrow> 's op" where
  "chain [] s = (Ret_True, s)"
| "chain (f # fs) s =
     (case f s of
        (Ret_True, s') \<Rightarrow> chain fs s'
      | (Ret_False, s') \<Rightarrow> (Ret_False, s')
      | (Fault, s') \<Rightarrow> (Fault, s'))"

definition assign :: "('s \<Rightarrow> 's) \<Rightarrow> 's op" where
  "assign u s = (Ret_True, u s)"

definition return_false :: "'s op" where
  "return_false s = (Ret_False, s)"

definition fault :: "'s op" where
  "fault s = (Fault, s)"

definition keeps :: "('s \<Rightarrow> bool) \<Rightarrow> 's op \<Rightarrow> bool" where
  "keeps P f \<longleftrightarrow> (\<forall>s. P s \<longrightarrow> P (snd (f s)))"

lemmas op_defs = assign_def return_false_def fault_def

declare assign_def [op_simps] return_false_def [op_simps] fault_def [op_simps]

lemma keepsI [intro]: "(\<And>s. P s \<Longrightarrow> P (snd (f s))) \<Longrightarrow> keeps P f"
  by (simp add: keeps_def)

lemma keepsD: "keeps P f \<Longrightarrow> P s \<Longrightarrow> P (snd (f s))"
  by (simp add: keeps_def)

lemma keeps_chain: "(\<And>f. f \<in> set fs \<Longrightarrow> keeps P f) \<Longrightarrow> keeps P (chain fs)"
proof (induction fs)
  case Nil
  then show ?case by (simp add: keeps_def)
next
  case (Cons f fs)
  have hd: "keeps P f" and tl: "keeps P (chain fs)"
    using Cons by auto
  show ?case
  proof
    fix s assume "P s"
    with hd have "P (snd (f s))" by (rule keepsD)
    with tl show "P (snd (chain (f # fs) s))"
      by (cases "f s") (auto simp: keeps_def split: ret.splits)
  qed
qed

lemma chain_append:
  "chain (fs @ gs) s =
     (case chain fs s of (Ret_True, s') \<Rightarrow> chain gs s' | r \<Rightarrow> r)"
  by (induction fs arbitrary: s) (auto split: prod.splits ret.splits)

lemma chain_TrueE:
  assumes "chain (f # fs) s = (Ret_True, t)"
  obtains u where "f s = (Ret_True, u)" and "chain fs u = (Ret_True, t)"
  using assms by (auto split: prod.splits ret.splits)

lemma chain2_TrueE:
  assumes "chain [f, g] s = (Ret_True, t)"
  obtains u where "f s = (Ret_True, u)" and "g u = (Ret_True, t)"
  using assms by (auto split: prod.splits ret.splits)

lemma chain_Nil_True: "chain [] s = (Ret_True, t) \<longleftrightarrow> t = s"
  by auto

section \<open>C strings inside a memory object\<close>

definition strnlen_c :: "nat \<Rightarrow> byte list \<Rightarrow> nat" where
  "strnlen_c n s = length (takeWhile (\<lambda>c. c \<noteq> NUL) (take n s))"

definition cstr_at :: "byte list \<Rightarrow> nat \<Rightarrow> string option" where
  "cstr_at mem i =
     (let rest = drop i mem
      in if NUL \<in> set rest then Some (takeWhile (\<lambda>c. c \<noteq> NUL) rest) else None)"

lemma takeWhile_until_NUL [cstr_simps]:
  "NUL \<notin> set s \<Longrightarrow> takeWhile (\<lambda>c. c \<noteq> NUL) (s @ NUL # t) = s"
  by (induction s) auto

lemma cstr_at_append:
  "NUL \<notin> set s \<Longrightarrow> i = length pre \<Longrightarrow> cstr_at (pre @ s @ NUL # rest) i = Some s"
  by (simp add: cstr_at_def takeWhile_until_NUL)

lemma cstr_at_Some_no_NUL: "cstr_at mem i = Some s \<Longrightarrow> NUL \<notin> set s"
  by (auto simp: cstr_at_def Let_def split: if_splits dest: set_takeWhileD)

lemma length_takeWhile_less_mem:
  "x \<in> set xs \<Longrightarrow> length (takeWhile (\<lambda>c. c \<noteq> x) xs) < length xs"
  by (induction xs) auto

lemma cstr_at_Some_length:
  assumes "cstr_at mem i = Some s"
  shows "i + length s < length mem"
proof -
  have z: "NUL \<in> set (drop i mem)" and s: "s = takeWhile (\<lambda>c. c \<noteq> NUL) (drop i mem)"
    using assms by (auto simp: cstr_at_def Let_def split: if_splits)
  have "length s < length (drop i mem)"
    unfolding s using z by (rule length_takeWhile_less_mem)
  then show ?thesis by simp
qed

lemma cstr_at_terminated: "i < length mem \<Longrightarrow> last mem = NUL \<Longrightarrow> \<exists>s. cstr_at mem i = Some s"
  using last_in_set [of "drop i mem"] by (auto simp: cstr_at_def Let_def last_drop)

section \<open>Case folding, white space, decimal numbers\<close>

definition tolower_c :: "byte \<Rightarrow> byte" where
  "tolower_c c =
     (if 65 \<le> (of_char c :: nat) \<and> (of_char c :: nat) \<le> 90
      then char_of ((of_char c :: nat) + 32) else c)"

definition strcaseeq :: "string \<Rightarrow> string \<Rightarrow> bool" where
  "strcaseeq a b \<longleftrightarrow> map tolower_c a = map tolower_c b"

definition isspace_c :: "byte \<Rightarrow> bool" where
  "isspace_c c \<longleftrightarrow> (of_char c :: nat) \<in> {9, 10, 11, 12, 13, 32}"

definition isdigit_c :: "byte \<Rightarrow> bool" where
  "isdigit_c c \<longleftrightarrow> 48 \<le> (of_char c :: nat) \<and> (of_char c :: nat) \<le> 57"

definition digit_val :: "byte \<Rightarrow> nat" where
  "digit_val c = of_char c - 48"

fun dec_value :: "nat \<Rightarrow> string \<Rightarrow> nat" where
  "dec_value acc [] = acc"
| "dec_value acc (c # cs) = dec_value (10 * acc + digit_val c) cs"

definition ULONG_MAX :: nat where
  "ULONG_MAX = 2 ^ 64 - 1"

text \<open>
  \<open>strtoul(v, &end, 10)\<close> on a 64-bit \<open>unsigned long\<close>: the value, the string \<open>end\<close> points to, and
  whether \<open>errno\<close> was set to \<open>ERANGE\<close>.  A minus sign negates the value modulo \<open>2^64\<close>; without a
  digit nothing is converted and \<open>end\<close> is \<open>v\<close> itself.
\<close>

definition strtoul_c :: "string \<Rightarrow> nat \<times> string \<times> bool" where
  "strtoul_c v =
     (let s = dropWhile isspace_c v;
          neg = (s \<noteq> [] \<and> hd s = CHR ''-'');
          t = (if s \<noteq> [] \<and> (hd s = CHR ''-'' \<or> hd s = CHR ''+'') then tl s else s);
          ds = takeWhile isdigit_c t;
          m = dec_value 0 ds
      in if ds = [] then (0, v, False)
         else if ULONG_MAX < m then (ULONG_MAX, dropWhile isdigit_c t, True)
         else (if neg then (2 ^ 64 - m) mod 2 ^ 64 else m, dropWhile isdigit_c t, False))"

fun show_dec :: "nat \<Rightarrow> string" where
  "show_dec n =
     (if n < 10 then [char_of (48 + n)] else show_dec (n div 10) @ [char_of (48 + n mod 10)])"

declare show_dec.simps [simp del]

lemma dec_value_append: "dec_value acc (xs @ [c]) = 10 * dec_value acc xs + digit_val c"
  by (induction xs arbitrary: acc) auto

lemma of_char_digit: "d < 10 \<Longrightarrow> (of_char (char_of (48 + d)) :: nat) = 48 + d"
  by (simp add: of_char_of)

lemma show_dec_nonempty: "show_dec n \<noteq> []"
  by (subst show_dec.simps) simp

lemma show_dec_digits: "\<forall>c \<in> set (show_dec n). isdigit_c c"
proof (induction n rule: show_dec.induct)
  case (1 n)
  have d: "isdigit_c (char_of (48 + d))" if "d < 10" for d :: nat
    unfolding isdigit_c_def of_char_digit [OF that] using that by simp
  have "isdigit_c (char_of (48 + n mod 10))" by (rule d) simp
  moreover have "isdigit_c (char_of (48 + n))" if "n < 10" using that by (rule d)
  ultimately show ?case
    using 1 by (subst show_dec.simps) auto
qed

lemma dec_value_show_dec: "dec_value 0 (show_dec n) = n"
proof (induction n rule: show_dec.induct)
  case (1 n)
  have d: "digit_val (char_of (48 + k)) = k" if "k < 10" for k :: nat
    unfolding digit_val_def by (simp only: of_char_digit [OF that])
  show ?case
  proof (cases "n < 10")
    case True
    then show ?thesis by (subst show_dec.simps) (simp add: d)
  next
    case False
    with 1 show ?thesis
      by (subst show_dec.simps) (simp add: dec_value_append d)
  qed
qed

lemma isdigit_not_space: "isdigit_c c \<Longrightarrow> \<not> isspace_c c"
  by (auto simp: isdigit_c_def isspace_c_def)

lemma isdigit_not_sign: "isdigit_c c \<Longrightarrow> c \<noteq> CHR ''-'' \<and> c \<noteq> CHR ''+''"
  by (auto simp: isdigit_c_def)

lemma isdigit_not_NUL: "isdigit_c c \<Longrightarrow> c \<noteq> NUL"
  by (auto simp: isdigit_c_def)

lemma show_dec_no_NUL: "NUL \<notin> set (show_dec n)"
  using show_dec_digits isdigit_not_NUL by blast

text \<open>Reading back a printed number gives the number: \<open>strtoul\<close> undoes \<open>sprintf("%zu")\<close>.\<close>

lemma strtoul_show_dec: "n \<le> ULONG_MAX \<Longrightarrow> strtoul_c (show_dec n) = (n, [], False)"
proof -
  assume n: "n \<le> ULONG_MAX"
  obtain c cs where cc: "show_dec n = c # cs"
    using show_dec_nonempty by (metis list.exhaust)
  have dig: "isdigit_c c" and all: "\<forall>x \<in> set (show_dec n). isdigit_c x"
    using show_dec_digits [of n] cc by auto
  have sp: "dropWhile isspace_c (show_dec n) = show_dec n"
    using cc isdigit_not_space [OF dig] by simp
  have tk: "takeWhile isdigit_c (show_dec n) = show_dec n"
    and dw: "dropWhile isdigit_c (show_dec n) = []"
    using all by simp_all
  have "hd (show_dec n) \<noteq> CHR ''-''" and "hd (show_dec n) \<noteq> CHR ''+''"
    using cc isdigit_not_sign [OF dig] by auto
  with n show ?thesis
    by (simp add: strtoul_c_def Let_def sp tk dw dec_value_show_dec show_dec_nonempty not_less)
qed

lemma strtoul_bound: "fst (strtoul_c v) \<le> ULONG_MAX"
  by (auto simp: strtoul_c_def Let_def ULONG_MAX_def)

text \<open>Subtraction on \<open>size_t\<close> (64 bits) wraps around.\<close>

definition size_sub :: "nat \<Rightarrow> nat \<Rightarrow> nat" where
  "size_sub a b = (a + 2 ^ 64 - b) mod 2 ^ 64"

lemma size_sub_le: "b \<le> a \<Longrightarrow> a < 2 ^ 64 \<Longrightarrow> size_sub a b = a - b"
proof -
  assume "b \<le> a" and "a < 2 ^ 64"
  then have "a + 2 ^ 64 - b = (a - b) + 2 ^ 64" and "a - b < 2 ^ 64" by simp_all
  then show ?thesis unfolding size_sub_def by (simp only: mod_add_self2 mod_less)
qed

section \<open>Splicing bytes into a buffer\<close>

text \<open>\<open>splice i bs mem\<close> is \<open>memcpy(mem + i, bs, length bs)\<close> inside one object.\<close>

definition splice :: "nat \<Rightarrow> byte list \<Rightarrow> byte list \<Rightarrow> byte list" where
  "splice i bs mem = take i mem @ bs @ drop (i + length bs) mem"

lemma length_splice [simp]: "i + length bs \<le> length mem \<Longrightarrow> length (splice i bs mem) = length mem"
  by (simp add: splice_def)

lemma take_splice: "i + length bs \<le> length mem \<Longrightarrow> take i (splice i bs mem) = take i mem"
  by (simp add: splice_def)

lemma take_drop_splice:
  "i + length bs \<le> length mem \<Longrightarrow> take (length bs) (drop i (splice i bs mem)) = bs"
  by (simp add: splice_def)

lemma drop_splice_ge:
  "i + length bs \<le> length mem \<Longrightarrow> i + length bs \<le> j \<Longrightarrow> drop j (splice i bs mem) = drop j mem"
  by (simp add: splice_def)

section \<open>Interface: what an operation may change\<close>

text \<open>
  The contract of an operation that may fail half way: whatever it returns, the state afterwards is
  related to the state before.  The laws are those of a preorder; then the chained operations of
  the source have the effect if their parts have it.  Components interpret it on the relation they
  are interested in.
\<close>

locale op_effect =
  fixes rel :: "'s \<Rightarrow> 's \<Rightarrow> bool"
  assumes rel_refl: "rel s s"
    and rel_trans: "rel s t \<Longrightarrow> rel t u \<Longrightarrow> rel s u"
begin

definition does :: "'s op \<Rightarrow> bool" where
  "does f \<longleftrightarrow> (\<forall>s. rel s (snd (f s)))"

lemma doesI: "(\<And>s. rel s (snd (f s))) \<Longrightarrow> does f"
  by (simp add: does_def)

lemma doesD: "does f \<Longrightarrow> f s = (r, t) \<Longrightarrow> rel s t"
  by (metis does_def snd_conv)

lemma does_after: "does f \<Longrightarrow> rel s t \<Longrightarrow> rel s (snd (f t))"
  by (metis does_def rel_trans)

lemma does_chain: "(\<And>f. f \<in> set fs \<Longrightarrow> does f) \<Longrightarrow> does (chain fs)"
proof (induction fs)
  case Nil
  then show ?case by (simp add: does_def rel_refl)
next
  case (Cons f fs)
  then have f: "does f" and fs: "does (chain fs)" by simp_all
  show ?case
  proof (rule doesI)
    fix s
    obtain r t where r: "f s = (r, t)" by fastforce
    have st: "rel s t" by (rule doesD [OF f r])
    show "rel s (snd (chain (f # fs) s))"
      using st does_after [OF fs st] by (cases r) (simp_all add: r)
  qed
qed

lemma does_append: "does (chain fs) \<Longrightarrow> does (chain gs) \<Longrightarrow> does (chain (fs @ gs))"
proof (rule doesI)
  fix s
  assume f: "does (chain fs)" and g: "does (chain gs)"
  obtain r t where r: "chain fs s = (r, t)" by fastforce
  have "rel s t" by (rule doesD [OF f r])
  then show "rel s (snd (chain (fs @ gs) s))"
    using does_after [OF g] by (cases r) (simp_all add: chain_append r)
qed

lemma does_assign: "(\<And>s. rel s (u s)) \<Longrightarrow> does (assign u)"
  by (simp add: does_def assign_def)

lemma does_return: "does (\<lambda>s. (r, s))"
  by (simp add: does_def rel_refl)

lemma does_if: "does f \<Longrightarrow> does g \<Longrightarrow> does (\<lambda>s. if b s then f s else g s)"
  by (simp add: does_def)

lemma does_state: "(\<And>a. does (f a)) \<Longrightarrow> does (\<lambda>s. f (a s) s)"
  by (simp add: does_def)

end

section \<open>Interface: a step relation with an invariant\<close>

text \<open>
  The contract between an operation's model and the safety theorems about whole runs: an
  invariant that holds initially and that every step keeps.  What is proved here once is that it
  holds in every reachable state and along every trace.  Components interpret it on their own
  step relation.
\<close>

inductive reachable_from :: "('s \<Rightarrow> bool) \<Rightarrow> ('s \<Rightarrow> 's \<Rightarrow> bool) \<Rightarrow> 's \<Rightarrow> bool"
  for init :: "'s \<Rightarrow> bool" and step :: "'s \<Rightarrow> 's \<Rightarrow> bool" where
  reach_init: "init s \<Longrightarrow> reachable_from init step s"
| reach_step: "reachable_from init step s \<Longrightarrow> step s t \<Longrightarrow> reachable_from init step t"

locale invariant_machine =
  fixes init :: "'s \<Rightarrow> bool"
    and step :: "'s \<Rightarrow> 's \<Rightarrow> bool"
    and inv :: "'s \<Rightarrow> bool"
  assumes inv_init: "init s \<Longrightarrow> inv s"
    and inv_step: "inv s \<Longrightarrow> step s t \<Longrightarrow> inv t"
begin

lemma reachable_inv: "reachable_from init step s \<Longrightarrow> inv s"
  by (induction rule: reachable_from.induct) (auto intro: inv_init inv_step)

lemma steps_inv: "inv s \<Longrightarrow> step\<^sup>*\<^sup>* s t \<Longrightarrow> inv t"
  by (rotate_tac, induction rule: rtranclp_induct) (auto intro: inv_step)

end

end
