(* ===== verification/Tftp_Packet.thy ===== *)
theory Tftp_Packet
  imports Tftp_Prelude
begin

text \<open>
  The wire format: \<open>tftp/include/tftp.h\<close> and the packet half of \<open>tftp/src/tftp.c\<close>.

  Enumerations keep the constructors of the header; \<open>opcode_value\<close> and \<open>error_code_value\<close> give
  their numbers, and \<open>opcode_of\<close> reads a 16-bit number back (an unknown number is \<open>None\<close>, the
  \<open>default\<close> of the source's switches).  Packets are byte lists.  A function that fills a packet in
  place returns the bytes it has written; one that may read or write outside its buffer returns a
  value that says so.
\<close>

section \<open>Constants of the protocol\<close>

definition tftp_request_packet_max_size :: nat where
  "tftp_request_packet_max_size = 512"

definition tftp_default_blksize :: u16 where
  "tftp_default_blksize = 512"

definition tftp_default_window_size :: u16 where
  "tftp_default_window_size = 1"

datatype tftp_mode = TFTP_MODE_OCTET | TFTP_MODE_NETASCII | TFTP_MODE_INVALID

fun tftp_mode_to_string :: "tftp_mode \<Rightarrow> string" where
  "tftp_mode_to_string TFTP_MODE_OCTET = ''octet''"
| "tftp_mode_to_string TFTP_MODE_NETASCII = ''netascii''"
| "tftp_mode_to_string TFTP_MODE_INVALID = ''invalid''"

datatype tftp_opcode =
    TFTP_OPCODE_RRQ | TFTP_OPCODE_WRQ | TFTP_OPCODE_DATA
  | TFTP_OPCODE_ACK | TFTP_OPCODE_ERROR | TFTP_OPCODE_OACK

fun opcode_value :: "tftp_opcode \<Rightarrow> u16" where
  "opcode_value TFTP_OPCODE_RRQ = 1"
| "opcode_value TFTP_OPCODE_WRQ = 2"
| "opcode_value TFTP_OPCODE_DATA = 3"
| "opcode_value TFTP_OPCODE_ACK = 4"
| "opcode_value TFTP_OPCODE_ERROR = 5"
| "opcode_value TFTP_OPCODE_OACK = 6"

definition opcode_of :: "u16 \<Rightarrow> tftp_opcode option" where
  "opcode_of w =
     (if w = 1 then Some TFTP_OPCODE_RRQ else if w = 2 then Some TFTP_OPCODE_WRQ
      else if w = 3 then Some TFTP_OPCODE_DATA else if w = 4 then Some TFTP_OPCODE_ACK
      else if w = 5 then Some TFTP_OPCODE_ERROR else if w = 6 then Some TFTP_OPCODE_OACK
      else None)"

datatype tftp_error_code =
    TFTP_ERROR_NOT_DEFINED | TFTP_ERROR_FILE_NOT_FOUND | TFTP_ERROR_ACCESS_VIOLATION
  | TFTP_ERROR_DISK_FULL | TFTP_ERROR_ILLEGAL_OPERATION | TFTP_ERROR_UNKNOWN_TRANSFER_ID
  | TFTP_ERROR_FILE_ALREADY_EXISTS | TFTP_ERROR_NO_SUCH_USER | TFTP_ERROR_INVALID_OPTIONS

fun error_code_value :: "tftp_error_code \<Rightarrow> u16" where
  "error_code_value TFTP_ERROR_NOT_DEFINED = 0"
| "error_code_value TFTP_ERROR_FILE_NOT_FOUND = 1"
| "error_code_value TFTP_ERROR_ACCESS_VIOLATION = 2"
| "error_code_value TFTP_ERROR_DISK_FULL = 3"
| "error_code_value TFTP_ERROR_ILLEGAL_OPERATION = 4"
| "error_code_value TFTP_ERROR_UNKNOWN_TRANSFER_ID = 5"
| "error_code_value TFTP_ERROR_FILE_ALREADY_EXISTS = 6"
| "error_code_value TFTP_ERROR_NO_SUCH_USER = 7"
| "error_code_value TFTP_ERROR_INVALID_OPTIONS = 8"

fun error_code_message :: "tftp_error_code \<Rightarrow> string" where
  "error_code_message TFTP_ERROR_NOT_DEFINED = ''Not defined, see error message (if any).''"
| "error_code_message TFTP_ERROR_FILE_NOT_FOUND = ''File not found.''"
| "error_code_message TFTP_ERROR_ACCESS_VIOLATION = ''Access violation.''"
| "error_code_message TFTP_ERROR_DISK_FULL = ''Disk full or allocation exceeded.''"
| "error_code_message TFTP_ERROR_ILLEGAL_OPERATION = ''Illegal TFTP operation.''"
| "error_code_message TFTP_ERROR_UNKNOWN_TRANSFER_ID = ''Unknown transfer ID.''"
| "error_code_message TFTP_ERROR_FILE_ALREADY_EXISTS = ''File already exists.''"
| "error_code_message TFTP_ERROR_NO_SUCH_USER = ''No such user.''"
| "error_code_message TFTP_ERROR_INVALID_OPTIONS = ''Invalid options.''"

datatype tftp_request_type = TFTP_REQUEST_READ | TFTP_REQUEST_WRITE | TFT_REQUEST_INVALID

datatype tftp_create_rqp_error =
    TFTP_CREATE_RQP_SUCCESS | TFTP_CREATE_RQP_INVALID_MODE | TFTP_CREATE_RQP_TRUNCATED_FILENAME

datatype tftp_request_error =
    TFTP_REQUEST_ERROR_MAX_SIZE_EXCEEDED | TFTP_REQUEST_ERROR_NOT_A_REQUEST
  | TFTP_REQUEST_ERROR_INVALID_FILENAME | TFTP_REQUEST_ERROR_INVALID_MODE

text \<open>
  The tagged union \<open>struct tftp_request\<close>; \<open>Request_Fault\<close> is a decoder run that reads outside the
  memory object it was given.
\<close>

datatype tftp_request =
    Request tftp_request_type string tftp_mode
  | Request_Invalid tftp_request_error
  | Request_Fault

section \<open>Recognised options\<close>

datatype tftp_option_recognized =
    TFTP_OPTION_BLKSIZE | TFTP_OPTION_TIMEOUT | TFTP_OPTION_TSIZE
  | TFTP_OPTION_WINDOWSIZE | TFTP_OPTION_READ_TYPE

fun option_index :: "tftp_option_recognized \<Rightarrow> nat" where
  "option_index TFTP_OPTION_BLKSIZE = 0"
| "option_index TFTP_OPTION_TIMEOUT = 1"
| "option_index TFTP_OPTION_TSIZE = 2"
| "option_index TFTP_OPTION_WINDOWSIZE = 3"
| "option_index TFTP_OPTION_READ_TYPE = 4"

lemma option_index_inject [simp]: "option_index a = option_index b \<longleftrightarrow> a = b"
  by (cases a; cases b) simp_all

text \<open>The enumeration is ordered by its numbers, the order in which the source loops over it.\<close>

instantiation tftp_option_recognized :: linorder
begin

definition less_eq_tftp_option_recognized ::
    "tftp_option_recognized \<Rightarrow> tftp_option_recognized \<Rightarrow> bool" where
  "less_eq_tftp_option_recognized a b \<longleftrightarrow> option_index a \<le> option_index b"

definition less_tftp_option_recognized ::
    "tftp_option_recognized \<Rightarrow> tftp_option_recognized \<Rightarrow> bool" where
  "less_tftp_option_recognized a b \<longleftrightarrow> option_index a < option_index b"

instance
  by standard
    (auto simp: less_eq_tftp_option_recognized_def less_tftp_option_recognized_def)

end

definition all_options :: "tftp_option_recognized list" where
  "all_options =
     [TFTP_OPTION_BLKSIZE, TFTP_OPTION_TIMEOUT, TFTP_OPTION_TSIZE,
      TFTP_OPTION_WINDOWSIZE, TFTP_OPTION_READ_TYPE]"

lemma all_options_order: "sorted all_options \<and> distinct all_options \<and> set all_options = UNIV"
proof -
  have "o' \<in> set all_options" for o'
    by (cases o') (simp_all add: all_options_def)
  then show ?thesis
    by (auto simp: all_options_def less_eq_tftp_option_recognized_def)
qed

fun tftp_option_recognized_string :: "tftp_option_recognized \<Rightarrow> string" where
  "tftp_option_recognized_string TFTP_OPTION_BLKSIZE = ''blksize''"
| "tftp_option_recognized_string TFTP_OPTION_TIMEOUT = ''timeout''"
| "tftp_option_recognized_string TFTP_OPTION_TSIZE = ''tsize''"
| "tftp_option_recognized_string TFTP_OPTION_WINDOWSIZE = ''windowsize''"
| "tftp_option_recognized_string TFTP_OPTION_READ_TYPE = ''type''"

text \<open>
  A \<open>const char *\<close> of the option code: null, a position inside the buffer being parsed, or a
  string object of its own (a literal, an array of the caller, the block \<open>calloc\<close> returns).
\<close>

datatype strptr = Null | At nat | Cstr string

fun deref :: "byte list \<Rightarrow> strptr \<Rightarrow> string option" where
  "deref mem Null = None"
| "deref mem (At i) = cstr_at mem i"
| "deref mem (Cstr s) = Some s"

record tftp_option =
  is_active :: bool
  val :: strptr

type_synonym tftp_options = "tftp_option_recognized \<Rightarrow> tftp_option"

definition no_options :: tftp_options where
  "no_options = (\<lambda>_. \<lparr>is_active = False, val = Null\<rparr>)"

section \<open>Sixteen-bit fields in network byte order\<close>

definition tftp_htobe16 :: "u16 \<Rightarrow> u16" where
  "tftp_htobe16 n = (drop_bit 8 n AND 0x00FF) OR (push_bit 8 n AND 0xFF00)"

text \<open>A 16-bit object of a little-endian machine: low byte first.\<close>

definition mem16 :: "u16 \<Rightarrow> byte list" where
  "mem16 w = [char_of (unat (take_bit 8 w)), char_of (unat (drop_bit 8 w))]"

definition load16 :: "byte \<Rightarrow> byte \<Rightarrow> u16" where
  "load16 lo hi = word_of_nat (of_char lo) OR push_bit 8 (word_of_nat (of_char hi))"

text \<open>What is stored in a packet for \<open>htons(w)\<close>, and what \<open>ntohs\<close> reads from two of its bytes.\<close>

definition be16 :: "u16 \<Rightarrow> byte list" where
  "be16 w = mem16 (tftp_htobe16 w)"

definition rd16 :: "byte \<Rightarrow> byte \<Rightarrow> u16" where
  "rd16 b0 b1 = tftp_htobe16 (load16 b0 b1)"

fun dec16 :: "byte list \<Rightarrow> (u16 \<times> byte list) option" where
  "dec16 (b0 # b1 # rest) = Some (rd16 b0 b1, rest)"
| "dec16 _ = None"

definition tftp_get_opcode_unsafe :: "byte list \<Rightarrow> u16 option" where
  "tftp_get_opcode_unsafe packet = map_option fst (dec16 packet)"


lemma mask16_low: "(0x00FF :: u16) = mask 8"
  by (simp add: mask_eq_exp_minus_1)

lemma mask16_high: "(0xFF00 :: u16) = push_bit 8 (mask 8)"
  by (simp add: mask_eq_exp_minus_1)

lemma htobe16_low: "take_bit 8 (tftp_htobe16 n) = drop_bit 8 n"
  unfolding tftp_htobe16_def mask16_low mask16_high
  by (rule bit_word_eqI) (auto simp: bit_simps not_less dest: bit_imp_le_length)

lemma htobe16_high: "drop_bit 8 (tftp_htobe16 n) = take_bit 8 n"
  unfolding tftp_htobe16_def mask16_low mask16_high
  by (rule bit_word_eqI) (auto simp: bit_simps not_less dest: bit_imp_le_length)

lemma htobe16_involution: "tftp_htobe16 (tftp_htobe16 n) = n"
proof (rule bit_word_eqI)
  fix k assume "k < LENGTH(16)"
  then show "bit (tftp_htobe16 (tftp_htobe16 n)) k = bit n k"
    unfolding tftp_htobe16_def mask16_low mask16_high
    by (cases "k < 8") (auto simp: bit_simps not_less dest: bit_imp_le_length)
qed

lemma unat_take_bit8: "unat (take_bit 8 w :: u16) < 256"
  using take_bit_nat_less_exp [of 8 "unat w"] by (simp add: unsigned_take_bit_eq)

lemma unat_drop_bit8: "unat (drop_bit 8 w :: u16) < 256"
proof -
  have "unat (drop_bit 8 w) = unat (take_bit 8 (drop_bit 8 w))"
    by (rule arg_cong [where f = unat], rule bit_word_eqI)
      (auto simp: bit_simps dest: bit_imp_le_length)
  then show ?thesis using unat_take_bit8 [of "drop_bit 8 w"] by simp
qed

lemma load16_mem16: "load16 (char_of (unat (take_bit 8 w))) (char_of (unat (drop_bit 8 w))) = w"
proof -
  have lo: "(of_char (char_of (unat (take_bit 8 w))) :: nat) = unat (take_bit 8 w)"
    using unat_take_bit8 [of w] by (simp add: of_char_of)
  have hi: "(of_char (char_of (unat (drop_bit 8 w))) :: nat) = unat (drop_bit 8 w)"
    using unat_drop_bit8 [of w] by (simp add: of_char_of)
  have "take_bit 8 w OR push_bit 8 (drop_bit 8 w) = w"
  proof (rule bit_word_eqI)
    fix k assume "k < LENGTH(16)"
    then show "bit (take_bit 8 w OR push_bit 8 (drop_bit 8 w)) k = bit w k"
      by (cases "k < 8") (auto simp: bit_simps not_less)
  qed
  then show ?thesis unfolding load16_def lo hi by simp
qed

lemma be16_bytes: "be16 w = [char_of (unat (drop_bit 8 w)), char_of (unat (take_bit 8 w))]"
  by (simp add: be16_def mem16_def htobe16_low htobe16_high)

lemma length_be16 [simp, wire_simps]: "length (be16 w) = 2"
  by (simp add: be16_def mem16_def)

lemma dec16_be16 [simp, wire_simps]: "dec16 (be16 w @ rest) = Some (w, rest)"
  using load16_mem16 [of "tftp_htobe16 w"]
  by (simp add: be16_def mem16_def rd16_def htobe16_involution)

lemma dec16_be16_nil [simp, wire_simps]: "dec16 (be16 w) = Some (w, [])"
  using dec16_be16 [of w "[]"] by simp

lemma be16_inject [simp]: "be16 v = be16 w \<longleftrightarrow> v = w"
  by (metis dec16_be16_nil option.inject prod.inject)

lemma opcode_of_value [simp, wire_simps]: "opcode_of (opcode_value c) = Some c"
  by (cases c) (simp_all add: opcode_of_def)

lemma opcode_of_numeral [simp, wire_simps]:
  "opcode_of 1 = Some TFTP_OPCODE_RRQ" "opcode_of 2 = Some TFTP_OPCODE_WRQ"
  "opcode_of 3 = Some TFTP_OPCODE_DATA" "opcode_of 4 = Some TFTP_OPCODE_ACK"
  "opcode_of 5 = Some TFTP_OPCODE_ERROR" "opcode_of 6 = Some TFTP_OPCODE_OACK"
  by (simp_all add: opcode_of_def)

lemma opcode_value_inject [simp]: "opcode_value a = opcode_value b \<longleftrightarrow> a = b"
  by (cases a; cases b) simp_all

lemma opcode_of_Some: "opcode_of w = Some c \<longleftrightarrow> w = opcode_value c"
  by (cases c) (auto simp: opcode_of_def split: if_splits)

lemma get_opcode_be16 [simp, wire_simps]: "tftp_get_opcode_unsafe (be16 w @ rest) = Some w"
  by (simp add: tftp_get_opcode_unsafe_def)

section \<open>Interface: a codec for a field of a packet\<close>

text \<open>
  A field is written in front of the rest of the packet and read back from there.  The law is all
  that the parsers rely on; the consequences for sequences of fields are proved once.  It is
  interpreted for 16-bit numbers and for zero-terminated strings.
\<close>

locale field_codec =
  fixes enc :: "'a \<Rightarrow> byte list"
    and dec :: "byte list \<Rightarrow> ('a \<times> byte list) option"
    and valid :: "'a \<Rightarrow> bool"
  assumes dec_enc: "valid x \<Longrightarrow> dec (enc x @ rest) = Some (x, rest)"
begin

fun dec_seq :: "nat \<Rightarrow> byte list \<Rightarrow> ('a list \<times> byte list) option" where
  "dec_seq 0 bs = Some ([], bs)"
| "dec_seq (Suc n) bs =
     (case dec bs of None \<Rightarrow> None
      | Some (x, rest) \<Rightarrow> map_option (\<lambda>(xs, r). (x # xs, r)) (dec_seq n rest))"

lemma enc_inject: "valid x \<Longrightarrow> valid y \<Longrightarrow> enc x @ r = enc y @ s \<Longrightarrow> x = y \<and> r = s"
proof -
  assume v: "valid x" "valid y" and eq: "enc x @ r = enc y @ s"
  have "Some (x, r) = dec (enc x @ r)" by (rule dec_enc [OF v(1), symmetric])
  also have "\<dots> = Some (y, s)" unfolding eq by (rule dec_enc [OF v(2)])
  finally show "x = y \<and> r = s" by simp
qed

lemma dec_seq_enc:
  "(\<And>x. x \<in> set xs \<Longrightarrow> valid x) \<Longrightarrow>
   dec_seq (length xs) (concat (map enc xs) @ rest) = Some (xs, rest)"
  by (induction xs) (simp_all add: dec_enc)

end

interpretation be16_codec: field_codec be16 dec16 "\<lambda>_. True"
  by unfold_locales simp

text \<open>Zero-terminated strings, as the request and option parsers walk over them.\<close>

definition zstr :: "string \<Rightarrow> byte list" where
  "zstr s = s @ [NUL]"

definition dec_zstr :: "byte list \<Rightarrow> (string \<times> byte list) option" where
  "dec_zstr bs = map_option (\<lambda>s. (s, drop (length s + 1) bs)) (cstr_at bs 0)"

lemma dec_zstr_append: "NUL \<notin> set s \<Longrightarrow> dec_zstr (zstr s @ rest) = Some (s, rest)"
  using cstr_at_append [of s 0 "[]" rest] by (simp add: dec_zstr_def zstr_def)

lemma length_zstr [simp]: "length (zstr s) = length s + 1"
  by (simp add: zstr_def)

interpretation zstr_codec: field_codec zstr dec_zstr "\<lambda>s. NUL \<notin> set s"
  by unfold_locales (rule dec_zstr_append)

end
