(* ===== verification/Tftp_Packet_Ops.thy ===== *)
theory Tftp_Packet_Ops
  imports Tftp_Packet
begin

text \<open>
  Building and taking apart packets: the functions of \<open>tftp/src/tftp.c\<close> up to
  \<open>tftp_decode_request\<close>.

  \<open>tftp_rrq_packet_init\<close> and \<open>tftp_wrq_packet_init\<close> return \<open>-1\<close> as \<open>Ret_False\<close> and the size as the
  length of the bytes they have written; \<open>Fault\<close> is a null or unterminated option value.
  The decoders take the memory object \<open>mem\<close> that holds the datagram and its size \<open>n\<close>, because they
  read relative to the first and are told the second.
\<close>

section \<open>Headers\<close>

definition tftp_data_packet_init :: "u16 \<Rightarrow> byte list" where
  "tftp_data_packet_init block_number =
     be16 (opcode_value TFTP_OPCODE_DATA) @ be16 block_number"

definition tftp_ack_packet_init :: "u16 \<Rightarrow> byte list" where
  "tftp_ack_packet_init block_number =
     be16 (opcode_value TFTP_OPCODE_ACK) @ be16 block_number"

definition error_packet :: "u16 \<Rightarrow> string \<Rightarrow> byte list" where
  "error_packet code message =
     be16 (opcode_value TFTP_OPCODE_ERROR) @ be16 code @ zstr message"

text \<open>The table of prepared error packets; there is none for \<open>TFTP_ERROR_NOT_DEFINED\<close>.\<close>

definition tftp_error_packet_info :: "tftp_error_code \<Rightarrow> byte list option" where
  "tftp_error_packet_info c =
     (if c = TFTP_ERROR_NOT_DEFINED then None
      else Some (error_packet (error_code_value c) (error_code_message c)))"

section \<open>Requests\<close>

definition request_padding_size :: nat where
  "request_padding_size = 510"

fun append_options ::
    "byte list \<Rightarrow> tftp_options \<Rightarrow> tftp_option_recognized list \<Rightarrow> byte list \<Rightarrow> ret \<times> byte list" where
  "append_options mem options [] p = (Ret_True, p)"
| "append_options mem options (o' # os) p =
     (if is_active (options o') then
        (case deref mem (val (options o')) of
           None \<Rightarrow> (Fault, p)
         | Some v \<Rightarrow>
             (if length (tftp_option_recognized_string o') + 1 + length v + 1
                   > request_padding_size - length p
              then (Ret_False, p)
              else append_options mem options os
                     (p @ zstr (tftp_option_recognized_string o') @ zstr v)))
      else append_options mem options os p)"

text \<open>
  \<open>filename\<close> is the array of \<open>n\<close> bytes the caller passes (its size includes the terminating zero).
\<close>

definition request_padding ::
    "byte list \<Rightarrow> nat \<Rightarrow> byte list \<Rightarrow> tftp_mode \<Rightarrow> tftp_options \<Rightarrow> ret \<times> byte list" where
  "request_padding mem n filename mode options =
     (let filename_len = strnlen_c n filename;
          mode_len = length (tftp_mode_to_string mode)
      in if filename_len = n \<or> filename_len + 1 + mode_len + 1 > request_padding_size
         then (Ret_False, [])
         else append_options mem options all_options
                (zstr (take filename_len filename) @ zstr (tftp_mode_to_string mode)))"

definition tftp_rrq_packet_init ::
    "byte list \<Rightarrow> nat \<Rightarrow> byte list \<Rightarrow> tftp_mode \<Rightarrow> tftp_options \<Rightarrow> ret \<times> byte list" where
  "tftp_rrq_packet_init mem n filename mode options =
     (case request_padding mem n filename mode options of
        (r, p) \<Rightarrow> (r, be16 (opcode_value TFTP_OPCODE_RRQ) @ p))"

definition tftp_wrq_packet_init ::
    "byte list \<Rightarrow> nat \<Rightarrow> byte list \<Rightarrow> tftp_mode \<Rightarrow> tftp_options \<Rightarrow> ret \<times> byte list" where
  "tftp_wrq_packet_init mem n filename mode options =
     (case request_padding mem n filename mode options of
        (r, p) \<Rightarrow> (r, be16 (opcode_value TFTP_OPCODE_WRQ) @ p))"

definition tftp_encode_request ::
    "tftp_request_type \<Rightarrow> nat \<Rightarrow> byte list \<Rightarrow> tftp_mode \<Rightarrow> tftp_create_rqp_error \<times> byte list" where
  "tftp_encode_request type n filename mode =
     (if mode \<noteq> TFTP_MODE_OCTET \<and> mode \<noteq> TFTP_MODE_NETASCII
      then (TFTP_CREATE_RQP_INVALID_MODE, [])
      else
        let filename_len = strnlen_c n filename;
            mode_len = length (tftp_mode_to_string mode)
        in if filename_len = n \<or> filename_len + 1 + mode_len + 1 > 510
           then (TFTP_CREATE_RQP_TRUNCATED_FILENAME, [])
           else (TFTP_CREATE_RQP_SUCCESS,
                 be16 (opcode_value (if type = TFTP_REQUEST_READ then TFTP_OPCODE_RRQ
                                     else TFTP_OPCODE_WRQ))
                 @ zstr (take filename_len filename) @ zstr (tftp_mode_to_string mode)))"

section \<open>The other encoders\<close>

text \<open>\<open>snprintf\<close> into the 512 zeroed bytes of the message field keeps at most 511 characters.\<close>

definition tftp_encode_error :: "tftp_error_code \<Rightarrow> string \<Rightarrow> byte list" where
  "tftp_encode_error error_code error_message =
     be16 (opcode_value TFTP_OPCODE_ERROR) @ be16 (error_code_value error_code)
     @ take 511 error_message @ replicate (512 - length (take 511 error_message)) NUL"

text \<open>More than 512 bytes of data overflow the packet: \<open>None\<close>.\<close>

definition tftp_encode_data :: "u16 \<Rightarrow> byte list \<Rightarrow> (byte list \<times> nat) option" where
  "tftp_encode_data block_number data =
     (if length data > 512 then None
      else Some (be16 (opcode_value TFTP_OPCODE_DATA) @ be16 block_number
                 @ data @ replicate (512 - length data) NUL,
                 2 + 2 + length data))"

definition tftp_encode_ack :: "u16 \<Rightarrow> byte list" where
  "tftp_encode_ack block_number =
     be16 (opcode_value TFTP_OPCODE_ACK) @ be16 block_number"

section \<open>Parsing\<close>

datatype tftp_packet =
    Packet_RRQ "byte list"
  | Packet_WRQ "byte list"
  | Packet_DATA u16 "byte list"
  | Packet_ACK u16
  | Packet_ERROR u16 "byte list"

text \<open>
  The outcomes of \<open>tftp_parse_packet\<close>: it returns false, it fills the packet, it returns true and
  leaves the packet as it was, or it copies more than the field holds.
\<close>

datatype parse_result = Parse_Rejected | Parsed tftp_packet | Parse_Unchanged | Parse_Overflow

definition tftp_parse_packet :: "byte list \<Rightarrow> parse_result" where
  "tftp_parse_packet data =
     (let n = length data in
      if n < 4 then Parse_Rejected
      else case dec16 data of
          None \<Rightarrow> Parse_Rejected
        | Some (opcode, data_to_parse) \<Rightarrow>
            (case opcode_of opcode of
               Some TFTP_OPCODE_RRQ \<Rightarrow>
                 (if length data_to_parse > 510 then Parse_Overflow
                  else Parsed (Packet_RRQ data_to_parse))
             | Some TFTP_OPCODE_WRQ \<Rightarrow>
                 (if length data_to_parse > 510 then Parse_Overflow
                  else Parsed (Packet_WRQ data_to_parse))
             | Some TFTP_OPCODE_DATA \<Rightarrow>
                 (case dec16 data_to_parse of
                    None \<Rightarrow> Parse_Rejected
                  | Some (block_number, payload) \<Rightarrow>
                      if length payload > 512 then Parse_Overflow
                      else Parsed (Packet_DATA block_number payload))
             | Some TFTP_OPCODE_ACK \<Rightarrow>
                 (case dec16 data_to_parse of
                    None \<Rightarrow> Parse_Rejected
                  | Some (block_number, _) \<Rightarrow> Parsed (Packet_ACK block_number))
             | Some TFTP_OPCODE_ERROR \<Rightarrow>
                 (if n < 5 then Parse_Rejected
                  else case dec16 data_to_parse of
                      None \<Rightarrow> Parse_Rejected
                    | Some (error_code, message) \<Rightarrow>
                        if length message > 512 then Parse_Overflow
                        else Parsed (Packet_ERROR error_code message))
             | _ \<Rightarrow> Parse_Unchanged))"

definition tftp_get_mode :: "string \<Rightarrow> tftp_mode" where
  "tftp_get_mode mode =
     (if strcaseeq mode (tftp_mode_to_string TFTP_MODE_OCTET) then TFTP_MODE_OCTET
      else if strcaseeq mode (tftp_mode_to_string TFTP_MODE_NETASCII) then TFTP_MODE_NETASCII
      else TFTP_MODE_INVALID)"

text \<open>
  \<open>strnlen(mem + off, n)\<close>: \<open>None\<close> when neither a zero byte nor the limit is met inside the object.
\<close>

definition strnlen_at :: "byte list \<Rightarrow> nat \<Rightarrow> nat \<Rightarrow> nat option" where
  "strnlen_at mem off n =
     (if off + n \<le> length mem \<or> NUL \<in> set (drop off mem)
      then Some (strnlen_c n (drop off mem)) else None)"

definition tftp_decode_request :: "byte list \<Rightarrow> nat \<Rightarrow> tftp_request" where
  "tftp_decode_request mem n =
     (if n > tftp_request_packet_max_size
      then Request_Invalid TFTP_REQUEST_ERROR_MAX_SIZE_EXCEEDED
      else case tftp_get_opcode_unsafe mem of None \<Rightarrow> Request_Fault | Some opcode \<Rightarrow>
        if opcode_of opcode \<noteq> Some TFTP_OPCODE_RRQ \<and> opcode_of opcode \<noteq> Some TFTP_OPCODE_WRQ
        then Request_Invalid TFTP_REQUEST_ERROR_NOT_A_REQUEST
        else
          let size = size_sub n 2 in
          case strnlen_at mem 2 size of None \<Rightarrow> Request_Fault | Some filename_len \<Rightarrow>
            if filename_len = 0 \<or> filename_len > size_sub size 3
            then Request_Invalid TFTP_REQUEST_ERROR_INVALID_FILENAME
            else
              let filename = take filename_len (drop 2 mem);
                  off = 2 + filename_len + 1;
                  size' = size_sub size (filename_len + 1)
              in case strnlen_at mem off size' of None \<Rightarrow> Request_Fault | Some mode_len \<Rightarrow>
                if off + mode_len \<ge> length mem then Request_Fault
                else if mem ! (off + mode_len) \<noteq> NUL
                then Request_Invalid TFTP_REQUEST_ERROR_INVALID_MODE
                else
                  let mode = tftp_get_mode (take mode_len (drop off mem))
                  in if mode = TFTP_MODE_INVALID
                     then Request_Invalid TFTP_REQUEST_ERROR_INVALID_MODE
                     else Request (if opcode_of opcode = Some TFTP_OPCODE_RRQ
                                   then TFTP_REQUEST_READ else TFTP_REQUEST_WRITE)
                            filename mode)"

section \<open>Round trips\<close>

lemma dec16_be16_Cons [simp, wire_simps]:
  "dec16 (be16 w @ x # xs) = Some (w, x # xs)"
  by (rule dec16_be16)

lemma strnlen_c_zstr: "NUL \<notin> set s \<Longrightarrow> length s \<le> n \<Longrightarrow> strnlen_c n (s @ NUL # rest) = length s"
proof -
  assume s: "NUL \<notin> set s" and n: "length s \<le> n"
  have "take n (s @ NUL # rest) = s @ take (n - length s) (NUL # rest)" using n by simp
  moreover have "takeWhile (\<lambda>c. c \<noteq> NUL) (s @ take k (NUL # rest)) = s" for k
    using s by (cases k; subst takeWhile_append2) auto
  ultimately show ?thesis by (simp add: strnlen_c_def)
qed

lemma strnlen_at_zstr:
  "NUL \<notin> set s \<Longrightarrow> length s \<le> n \<Longrightarrow> off = length pre \<Longrightarrow>
   strnlen_at (pre @ s @ NUL # rest) off n = Some (length s)"
  by (simp add: strnlen_at_def strnlen_c_zstr)

lemma take_strnlen_no_NUL: "NUL \<notin> set (take (strnlen_c n s) s)"
proof -
  have "take (strnlen_c n s) s = takeWhile (\<lambda>c. c \<noteq> NUL) (take n s)"
    unfolding strnlen_c_def
    by (metis length_takeWhile_le min.absorb1 take_take takeWhile_eq_take length_take min.bounded_iff)
  then show ?thesis using set_takeWhileD by (metis (mono_tags, lifting))
qed

lemma strnlen_c_le: "strnlen_c n s \<le> length s" "strnlen_c n s \<le> n"
  using length_takeWhile_le [of "\<lambda>c. c \<noteq> NUL" "take n s"] by (simp_all add: strnlen_c_def)

lemma append_options_extends:
  "append_options mem options os p = (r, q) \<Longrightarrow> length p \<le> request_padding_size \<Longrightarrow>
   (\<exists>t. q = p @ t) \<and> length q \<le> request_padding_size"
proof (induction os arbitrary: p)
  case Nil
  then show ?case by simp
next
  case (Cons o' os)
  show ?case
  proof (cases "is_active (options o')")
    case False
    with Cons show ?thesis by simp
  next
    case True
    show ?thesis
    proof (cases "deref mem (val (options o'))")
      case None
      with True Cons.prems show ?thesis by simp
    next
      case (Some v)
      let ?p = "p @ zstr (tftp_option_recognized_string o') @ zstr v"
      show ?thesis
      proof (cases "length (tftp_option_recognized_string o') + 1 + length v + 1
                      > request_padding_size - length p")
        case True
        with Some \<open>is_active _\<close> Cons.prems show ?thesis by simp
      next
        case False
        then have "append_options mem options os ?p = (r, q)" and "length ?p \<le> request_padding_size"
          using Some \<open>is_active _\<close> Cons.prems by auto
        from Cons.IH [OF this] show ?thesis by auto
      qed
    qed
  qed
qed

lemma request_padding_success:
  assumes "request_padding mem n filename mode options = (Ret_True, p)"
  obtains t where "p = zstr (take (strnlen_c n filename) filename) @ zstr (tftp_mode_to_string mode) @ t"
    and "length p \<le> request_padding_size"
proof -
  let ?fn = "take (strnlen_c n filename) filename"
  from assms have fits: "length ?fn + 1 + length (tftp_mode_to_string mode) + 1 \<le> request_padding_size"
    and run: "append_options mem options all_options (zstr ?fn @ zstr (tftp_mode_to_string mode))
                = (Ret_True, p)"
    by (auto simp: request_padding_def Let_def strnlen_c_le min_absorb2 split: if_splits)
  have "length (zstr ?fn @ zstr (tftp_mode_to_string mode)) \<le> request_padding_size"
    using fits by simp
  from append_options_extends [OF run this] show thesis
    using that by auto
qed

lemma mode_string_no_NUL [simp]: "NUL \<notin> set (tftp_mode_to_string m)"
  by (cases m) simp_all

lemma mode_string_length: "5 \<le> length (tftp_mode_to_string m)" "length (tftp_mode_to_string m) \<le> 8"
  by (cases m; simp)+

lemma get_mode_of_string: "m \<noteq> TFTP_MODE_INVALID \<Longrightarrow> tftp_get_mode (tftp_mode_to_string m) = m"
  by (cases m) (simp_all add: tftp_get_mode_def strcaseeq_def tolower_c_def)

lemma decode_request_bytes:
  assumes "opc = TFTP_OPCODE_RRQ \<or> opc = TFTP_OPCODE_WRQ"
    and fn: "NUL \<notin> set fn" "fn \<noteq> []" and m: "NUL \<notin> set m"
    and p: "p = be16 (opcode_value opc) @ zstr fn @ zstr m @ t"
    and len: "length p \<le> 512" and ms: "1 \<le> length m"
  shows "tftp_decode_request p (length p) =
    (if tftp_get_mode m = TFTP_MODE_INVALID then Request_Invalid TFTP_REQUEST_ERROR_INVALID_MODE
     else Request (if opc = TFTP_OPCODE_RRQ then TFTP_REQUEST_READ else TFTP_REQUEST_WRITE)
            fn (tftp_get_mode m))"
proof -
  let ?op = "be16 (opcode_value opc)"
  let ?size = "length fn + 1 + length m + 1 + length t"
  let ?off = "2 + length fn + 1"
  have len_p: "length p = 2 + ?size" by (simp add: p)
  have bound: "?size < 2 ^ 64" using len len_p by simp
  have s1: "size_sub (length p) 2 = ?size"
    using bound len_p len by (simp add: size_sub_le)
  have s2: "size_sub ?size 3 = ?size - 3"
    using bound ms fn(2) by (intro size_sub_le) (cases fn; simp)+
  have s3: "size_sub ?size (length fn + 1) = length m + 1 + length t"
    using bound size_sub_le [of "length fn + 1" ?size] by simp
  have p1: "p = ?op @ fn @ NUL # (m @ NUL # t)"
    and p2: "p = (?op @ fn @ [NUL]) @ m @ NUL # t"
    by (simp_all add: p zstr_def)
  have n1: "strnlen_at p 2 ?size = Some (length fn)"
    unfolding p1 by (rule strnlen_at_zstr) (use fn in simp_all)
  have n2: "strnlen_at p ?off (length m + 1 + length t) = Some (length m)"
    unfolding p2 by (rule strnlen_at_zstr) (use m in simp_all)
  have d1: "take (length fn) (drop 2 p) = fn" by (simp add: p1)
  have d2: "drop ?off p = m @ NUL # t" unfolding p2 by simp
  have "drop (?off + length m) p = NUL # t"
    using d2 by (metis append_eq_conv_conj drop_drop add.commute)
  then have z: "p ! (?off + length m) = NUL" and zl: "?off + length m < length p"
    by (metis nth_via_drop, simp add: len_p)
  have op: "tftp_get_opcode_unsafe p = Some (opcode_value opc)" by (simp add: p)
  have flen: "\<not> (length fn = 0 \<or> length fn > ?size - 3)" using fn(2) ms by auto
  have d3: "take (length m) (drop ?off p) = m" unfolding d2 by simp
  have nf: "\<not> length p > 512" and nz: "\<not> ?off + length m \<ge> length p" using len zl by simp_all
  have c: "\<not> (opcode_of (opcode_value opc) \<noteq> Some TFTP_OPCODE_RRQ \<and>
      opcode_of (opcode_value opc) \<noteq> Some TFTP_OPCODE_WRQ)"
    using assms(1) by auto
  show ?thesis
    unfolding tftp_decode_request_def Let_def tftp_request_packet_max_size_def
      if_not_P [OF nf] op option.case if_not_P [OF c] s1 n1 s2 if_not_P [OF flen] s3 n2
      if_not_P [OF nz] z d1 d3
    using assms(1) by auto
qed

text \<open>
  C16: Request round trip.  If \<open>tftp_rrq_packet_init\<close> and \<open>tftp_wrq_packet_init\<close> succeed on a file name,
  a mode and options, the packets have at most 512 bytes and \<open>tftp_decode_request\<close> gives back a read
  (respectively write) request with that file name and that mode, whatever options follow.
\<close>

theorem request_roundtrip:
  assumes rrq: "tftp_rrq_packet_init mem n filename mode options = (Ret_True, p)"
    and wrq: "tftp_wrq_packet_init mem n filename mode options = (Ret_True, q)"
    and name: "strnlen_c n filename \<noteq> 0" and mode: "mode \<noteq> TFTP_MODE_INVALID"
  shows "length p \<le> 512 \<and> length q \<le> 512
    \<and> tftp_decode_request p (length p)
        = Request TFTP_REQUEST_READ (take (strnlen_c n filename) filename) mode
    \<and> tftp_decode_request q (length q)
        = Request TFTP_REQUEST_WRITE (take (strnlen_c n filename) filename) mode"
proof -
  obtain pad where pad: "request_padding mem n filename mode options = (Ret_True, pad)"
    and p: "p = be16 (opcode_value TFTP_OPCODE_RRQ) @ pad"
    and q: "q = be16 (opcode_value TFTP_OPCODE_WRQ) @ pad"
    using rrq wrq by (auto simp: tftp_rrq_packet_init_def tftp_wrq_packet_init_def split: prod.splits)
  from pad obtain t where
    t: "pad = zstr (take (strnlen_c n filename) filename) @ zstr (tftp_mode_to_string mode) @ t"
    and len: "length pad \<le> request_padding_size"
    by (rule request_padding_success)
  let ?fn = "take (strnlen_c n filename) filename"
  have fn: "NUL \<notin> set ?fn" "?fn \<noteq> []"
    using name strnlen_c_le(1) [of n filename] by (auto simp: take_strnlen_no_NUL)
  have sizes: "length p \<le> 512" "length q \<le> 512"
    using len by (simp_all add: p q request_padding_size_def)
  have m: "1 \<le> length (tftp_mode_to_string mode)" using mode_string_length [of mode] by simp
  note decode = decode_request_bytes [OF _ fn mode_string_no_NUL _ _ m, where t = t]
  show ?thesis
    using sizes decode [of TFTP_OPCODE_RRQ p] decode [of TFTP_OPCODE_WRQ q] mode
    by (simp add: p q t get_mode_of_string)
qed


theorem request_roundtrip_witness:
  "tftp_decode_request
     (be16 1 @ zstr ''ab'' @ zstr ''octet'' @ zstr ''blksize'' @ zstr ''1024'') 24
   = Request TFTP_REQUEST_READ ''ab'' TFTP_MODE_OCTET"
proof -
  let ?o = "no_options(TFTP_OPTION_BLKSIZE := \<lparr>is_active = True, val = Cstr ''1024''\<rparr>)"
  let ?pad = "zstr ''ab'' @ zstr ''octet'' @ zstr ''blksize'' @ zstr ''1024''"
  have r: "tftp_rrq_packet_init [] 3 (zstr ''ab'') TFTP_MODE_OCTET ?o = (Ret_True, be16 1 @ ?pad)"
    and w: "tftp_wrq_packet_init [] 3 (zstr ''ab'') TFTP_MODE_OCTET ?o = (Ret_True, be16 2 @ ?pad)"
    by code_simp+
  have n: "strnlen_c 3 (zstr ''ab'') \<noteq> 0" and t: "take (strnlen_c 3 (zstr ''ab'')) (zstr ''ab'') = ''ab''"
    by code_simp+
  have l: "length (be16 1 @ ?pad) = 24" by simp
  show ?thesis
    using request_roundtrip [OF r w n, unfolded l t] by simp
qed

text \<open>
  C21: DATA and ACK round trip.  For a payload of at most 512 bytes \<open>tftp_encode_data\<close> succeeds and
  \<open>tftp_parse_packet\<close> gives back block number and payload; the same holds for ACK packets and for the
  headers the sessions write in front of their payload.
\<close>

theorem parse_packet_roundtrip:
  "length data \<le> 512 \<Longrightarrow>
   (\<exists>packet size. tftp_encode_data b data = Some (packet, size)
      \<and> tftp_parse_packet (take size packet) = Parsed (Packet_DATA b data))
   \<and> tftp_parse_packet (tftp_encode_ack b) = Parsed (Packet_ACK b)
   \<and> tftp_parse_packet (tftp_data_packet_init b @ data) = Parsed (Packet_DATA b data)
   \<and> tftp_parse_packet (tftp_ack_packet_init b) = Parsed (Packet_ACK b)"
  by (simp add: tftp_encode_data_def tftp_encode_ack_def tftp_data_packet_init_def
      tftp_ack_packet_init_def tftp_parse_packet_def Let_def)

theorem parse_packet_roundtrip_witness:
  "tftp_parse_packet (tftp_data_packet_init 258 @ ''xyz'') = Parsed (Packet_DATA 258 ''xyz'')"
  using parse_packet_roundtrip [of "''xyz''" 258] by simp

lemma parse_error_packet:
  "length m \<le> 511 \<Longrightarrow>
   tftp_parse_packet (error_packet code m) = Parsed (Packet_ERROR code (zstr m))"
  by (simp add: error_packet_def tftp_parse_packet_def Let_def)

lemma cstr_at_error_packet: "NUL \<notin> set m \<Longrightarrow> cstr_at (error_packet code m) 4 = Some m"
  using cstr_at_append [of m 4 "be16 (opcode_value TFTP_OPCODE_ERROR) @ be16 code" "[]"]
  by (simp add: error_packet_def zstr_def)

lemma error_code_message_simps:
  "NUL \<notin> set (error_code_message c)" "length (error_code_message c) \<le> 511"
  by (cases c; simp)+

text \<open>
  C31: Every entry of the table of prepared error packets, except the empty one for
  \<open>TFTP_ERROR_NOT_DEFINED\<close>, has the size of its bytes, parses as an ERROR packet with its own code, and
  carries its message as a terminated string.
\<close>

theorem error_packet_info_wellformed:
  "case tftp_error_packet_info c of
     None \<Rightarrow> c = TFTP_ERROR_NOT_DEFINED
   | Some p \<Rightarrow> c \<noteq> TFTP_ERROR_NOT_DEFINED
       \<and> length p = 4 + length (error_code_message c) + 1
       \<and> tftp_parse_packet p = Parsed (Packet_ERROR (error_code_value c) (zstr (error_code_message c)))
       \<and> cstr_at p 4 = Some (error_code_message c)"
  using error_code_message_simps [of c]
  by (simp add: tftp_error_packet_info_def parse_error_packet cstr_at_error_packet)
     (simp add: error_packet_def)

text \<open>
  C22: \<open>tftp_decode_request\<close> does not read outside the object that holds the datagram if the datagram has
  at least five bytes and is shorter than the object, whatever the bytes are.
\<close>

theorem decode_request_in_bounds:
  assumes "5 \<le> n" and "n < length mem"
  shows "tftp_decode_request mem n \<noteq> Request_Fault"
proof (cases "n > 512")
  case True
  then show ?thesis by (simp add: tftp_decode_request_def tftp_request_packet_max_size_def)
next
  case False
  have s1: "size_sub n 2 = n - 2" using assms False by (intro size_sub_le) simp_all
  have s2: "size_sub (n - 2) 3 = n - 5" using assms False size_sub_le [of 3 "n - 2"] by simp
  let ?k = "strnlen_c (n - 2) (drop 2 mem)"
  have "2 + (n - 2) \<le> length mem" using assms by simp
  then have n1: "strnlen_at mem 2 (n - 2) = Some ?k" by (simp only: strnlen_at_def) simp
  let ?off = "2 + ?k + 1" and ?size = "size_sub (n - 2) (?k + 1)"
  let ?m = "strnlen_c ?size (drop ?off mem)"
  have s3: "?size = n - 2 - (?k + 1)" and n2: "strnlen_at mem ?off ?size = Some ?m"
    and z: "?off + ?m < length mem" if k: "?k \<le> n - 5"
  proof -
    show s3: "?size = n - 2 - (?k + 1)" 
      by (rule size_sub_le) (use k assms False in linarith, use False in simp)
    then show "strnlen_at mem ?off ?size = Some ?m"
      using k assms unfolding strnlen_at_def by (subst if_P) auto
    have "?m \<le> ?size" by (rule strnlen_c_le)
    then show "?off + ?m < length mem" using k assms s3 by linarith
  qed
  obtain b0 b1 r where "mem = b0 # b1 # r"
    using assms by (cases mem rule: dec16.cases) auto
  then have op: "\<exists>w. tftp_get_opcode_unsafe mem = Some w" by (simp add: tftp_get_opcode_unsafe_def)
  show ?thesis
    using op False n2 z
    unfolding tftp_decode_request_def Let_def tftp_request_packet_max_size_def s1 n1 s2
    by (cases "?k \<le> n - 5") (auto simp: not_le split: if_splits)
qed

theorem decode_request_in_bounds_witness:
  "tftp_decode_request (be16 1 @ zstr ''ab'' @ ''oct'' @ [NUL]) 8 \<noteq> Request_Fault"
  by (rule decode_request_in_bounds) simp_all

text \<open>
  Without those conditions it does: a datagram of three bytes makes the remaining size wrap around,
  and a mode that is not terminated is tested one byte behind the datagram.
\<close>

theorem decode_request_overread:
  "tftp_decode_request [NUL, CHR 0x01, CHR ''a''] 3 = Request_Fault
   \<and> tftp_decode_request (be16 1 @ zstr ''ab'' @ ''octet'') 10 = Request_Fault"
  by (rule conjI; code_simp)
end
