(* ===== verification/Tftp_Window.thy ===== *)
theory Tftp_Window
  imports Tftp_Packet
begin

text \<open>
  Arithmetic of the sliding window, shared by \<open>tftp/src/server/session.c\<close> and
  \<open>tftp/src/client/client.c\<close>: membership in a range of 16-bit block numbers that may wrap around,
  the place of a block in the buffer of unacknowledged packets, and the payload a cumulative
  acknowledgement covers.  The second half is the contract of that buffer as a locale: what a
  sender may rely on when it retransmits a window.
\<close>

section \<open>Ranges of block numbers\<close>

definition is_in_range :: "u16 \<Rightarrow> u16 \<Rightarrow> u16 \<Rightarrow> bool" where
  "is_in_range n lo hi =
     (if lo \<le> hi then lo \<le> n \<and> n \<le> hi else lo \<le> n \<or> n \<le> hi)"

lemma unat_u16_less: "unat (w :: u16) < 65536"
  using unsigned_less [of w, where 'a = nat] by simp

lemma unat_diff16: "unat (a - b :: u16) = (if b \<le> a then unat a - unat b else unat a + 65536 - unat b)"
  using unat_u16_less [of a] unat_u16_less [of b]
  by (simp add: unat_sub_if_size word_size word_le_nat_alt)

lemma unat_add16: "unat (a + b :: u16) = (unat a + unat b) mod 65536"
  by (simp add: unat_word_ariths)

lemma is_in_range_distance: "is_in_range n b e \<longleftrightarrow> unat (n - b) \<le> unat (e - b)"
  using unat_u16_less [of n] unat_u16_less [of b] unat_u16_less [of e]
  by (auto simp: is_in_range_def unat_diff16 word_le_nat_alt)

text \<open>
  C28: The range test is a distance test: block \<open>n\<close> is in the range from \<open>lo\<close> to \<open>end\<close>, which may
  wrap around past 65535, exactly when it is no further from \<open>lo\<close> than \<open>end\<close> is, counting forward
  modulo \<open>2^16\<close>.
\<close>

theorem is_in_range_iff_distance:
  "is_in_range n lo hi \<longleftrightarrow> unat (n - lo) \<le> unat (hi - lo)"
  by (rule is_in_range_distance)

lemma unat_minus_one16: "(w :: u16) \<noteq> 0 \<Longrightarrow> unat (w - 1) = unat w - 1"
  by (simp add: unat_diff16 word_le_nat_alt unat_gt_0 Suc_le_eq)

lemma pred_distance: "next' \<noteq> b \<Longrightarrow> unat (next' - 1 - b :: u16) = unat (next' - b) - 1"
  using unat_minus_one16 [of "next' - b"] by (simp add: algebra_simps)

lemma unat_minus_1_16 [simp]: "unat (- 1 :: u16) = 65535"
  by (simp add: unsigned_minus_1_eq_mask mask_eq_exp_minus_1)

text \<open>
  C26: What the acknowledgement test accepts.  With packets outstanding (\<open>next\<close> is not \<open>lo\<close>) an ACK
  is accepted exactly when its block is one of the outstanding ones; with no packet outstanding the
  range from \<open>lo\<close> to \<open>lo - 1\<close> is all of the block numbers, and every ACK is accepted.
\<close>

theorem ack_window_test:
  "is_in_range block lo (next' - 1)
    = (if next' = lo then True else unat (block - lo) < unat (next' - lo))"
proof -
  have "0 < unat (next' - lo)" if "next' \<noteq> lo"
    using that by (simp add: unat_gt_0)
  then show ?thesis
    using unat_u16_less [of "block - lo"]
    by (cases "next' = lo") (auto simp: is_in_range_distance pred_distance)
qed

lemma in_outstanding: "next' \<noteq> b \<Longrightarrow>
  is_in_range i b (next' - 1) \<longleftrightarrow> unat (i - b) < unat (next' - b :: u16)"
proof -
  assume "next' \<noteq> b"
  moreover from this have "0 < unat (next' - b)" by (simp add: unat_gt_0)
  ultimately show ?thesis by (auto simp: is_in_range_distance pred_distance)
qed

lemma in_window: "ws \<noteq> 0 \<Longrightarrow> is_in_range i b (b + ws - 1) \<longleftrightarrow> unat (i - b) < unat (ws :: u16)"
proof -
  assume "ws \<noteq> 0"
  moreover from this have "0 < unat ws" by (simp add: unat_gt_0)
  moreover have "b + ws - 1 - b = ws - 1" by (simp add: algebra_simps)
  ultimately show ?thesis by (auto simp: is_in_range_distance unat_minus_one16)
qed

section \<open>The place of a block in the packet buffer\<close>

definition packet_slot :: "u16 \<Rightarrow> u16 \<Rightarrow> nat" where
  "packet_slot window_size i = unat (i - 1) mod unat window_size"

lemma packet_slot_less: "ws \<noteq> 0 \<Longrightarrow> packet_slot ws i < unat ws"
  by (simp add: packet_slot_def unat_gt_0)

text \<open>
  The blocks of one window land in different slots unless the window crosses the wrap from 65535
  to 0 with a window size that does not divide 65536.
\<close>

definition wrap_free :: "u16 \<Rightarrow> u16 \<Rightarrow> bool" where
  "wrap_free ws b \<longleftrightarrow> unat (b - 1) + unat ws \<le> 65536 \<or> unat ws dvd 65536"

lemma packet_slot_offset:
  assumes "wrap_free ws b" and "unat (i - b) < unat ws"
  shows "packet_slot ws i = (unat (b - 1) + unat (i - b)) mod unat ws"
proof -
  have "i - 1 = (b - 1) + (i - b)" by simp
  then have e: "unat (i - 1) = (unat (b - 1) + unat (i - b)) mod 65536"
    by (metis unat_add16)
  show ?thesis
  proof (cases "unat (b - 1) + unat ws \<le> 65536")
    case True
    with assms(2) have "unat (b - 1) + unat (i - b) < 65536" by linarith
    with e show ?thesis by (simp add: packet_slot_def)
  next
    case False
    with assms(1) have "unat ws dvd 65536" by (simp add: wrap_free_def)
    with e show ?thesis by (simp add: packet_slot_def mod_mod_cancel)
  qed
qed

lemma mod_offset_inject:
  assumes "(c + x) mod n = (c + y) mod (n :: nat)" and "x < n" and "y < n"
  shows "x = y"
proof -
  have "(int c + int x) mod int n = (int c + int y) mod int n"
    using assms(1) by (metis of_nat_add zmod_int)
  then have "int x mod int n = int y mod int n"
    by (metis add.commute mod_add_cong add_diff_cancel_left' mod_diff_left_eq)
  with assms(2,3) show ?thesis by simp
qed

lemma packet_slot_inject:
  "wrap_free ws b \<Longrightarrow> unat (i - b) < unat ws \<Longrightarrow> unat (j - b) < unat ws \<Longrightarrow>
   packet_slot ws i = packet_slot ws j \<Longrightarrow> i = j"
proof -
  assume w: "wrap_free ws b" and i: "unat (i - b) < unat ws" and j: "unat (j - b) < unat ws"
    and eq: "packet_slot ws i = packet_slot ws j"
  have "unat (i - b) = unat (j - b)"
    using mod_offset_inject eq i j
    unfolding packet_slot_offset [OF w i] packet_slot_offset [OF w j] by blast
  then have "i - b = j - b" by (simp only: word_unat_eq_iff)
  then show "i = j" by simp
qed

text \<open>
  C25: Two different blocks of one window never share a slot of the packet buffer, provided the window
  does not cross the wrap from 65535 to 0 or the window size divides 65536.
\<close>

theorem window_slots_distinct:
  assumes "unat (lo - 1) + unat ws \<le> 65536 \<or> unat ws dvd 65536"
    and "is_in_range i lo (lo + ws - 1)" and "is_in_range j lo (lo + ws - 1)"
    and "ws \<noteq> 0" and "i \<noteq> j"
  shows "packet_slot ws i \<noteq> packet_slot ws j"
  using packet_slot_inject [of ws lo i j] assms by (auto simp: wrap_free_def in_window)

theorem window_slots_distinct_witness:
  "packet_slot 8 65535 \<noteq> packet_slot 8 (2 :: u16)"
  by (rule window_slots_distinct [of 65533]) (simp_all add: is_in_range_def)

theorem window_slots_collide:
  "is_in_range 0 65535 (65535 + 3 - 1) \<and> is_in_range 1 65535 (65535 + 3 - 1)
   \<and> packet_slot 3 0 = packet_slot 3 1"
  by (simp add: is_in_range_def packet_slot_def)

section \<open>Payload covered by a cumulative acknowledgement\<close>

text \<open>
  The product is computed in \<open>int\<close>: \<open>None\<close> where it overflows (undefined behaviour).
\<close>

definition get_cumulative_ackd_payload_size ::
    "u16 \<Rightarrow> u16 \<Rightarrow> int \<Rightarrow> u16 \<Rightarrow> u16 \<Rightarrow> nat option" where
  "get_cumulative_ackd_payload_size block_size window_begin last_packet last_block_size block_number =
     (let size = unat block_size * unat (block_number - window_begin)
                 + (if uint block_number = last_packet then unat last_block_size else unat block_size)
      in if size < 2 ^ 31 then Some size else None)"

lemma cumulative_size_defined:
  assumes "unat block_size * (unat (block_number - window_begin) + 1) < 2 ^ 31"
    and "last_block_size \<le> block_size"
  shows "get_cumulative_ackd_payload_size block_size window_begin lp last_block_size block_number
    = Some (unat block_size * unat (block_number - window_begin)
            + (if uint block_number = lp then unat last_block_size else unat block_size))"
  using assms
  by (auto simp: get_cumulative_ackd_payload_size_def Let_def word_le_nat_alt algebra_simps)

section \<open>Interface: the buffer of unacknowledged packets\<close>

text \<open>
  A sender keeps the packets of its window in a buffer and finds the one for a block again through
  the slot of the block.  The laws a buffer has to satisfy are that slots exist, that a stored
  packet is read back and that storing in one slot does not touch another, and that the blocks of
  one window have different slots.  What a sender gets from them: if the buffer holds the right
  packet for every outstanding block, it still does after the next packet is stored and after an
  acknowledgement has moved the window forward.
\<close>

locale packet_ring =
  fixes ring_ok :: "'r \<Rightarrow> bool"
    and ring_size :: "'r \<Rightarrow> nat"
    and slot :: "'r \<Rightarrow> u16 \<Rightarrow> nat"
    and lookup :: "'r \<Rightarrow> nat \<Rightarrow> 'p"
    and store :: "'r \<Rightarrow> nat \<Rightarrow> 'p \<Rightarrow> 'r"
    and safe :: "'r \<Rightarrow> u16 \<Rightarrow> bool"
  assumes slot_less: "ring_ok r \<Longrightarrow> slot r i < ring_size r"
    and lookup_same: "ring_ok r \<Longrightarrow> k < ring_size r \<Longrightarrow> lookup (store r k p) k = p"
    and lookup_other: "ring_ok r \<Longrightarrow> k < ring_size r \<Longrightarrow> m \<noteq> k \<Longrightarrow> lookup (store r k p) m = lookup r m"
    and store_frame: "ring_size (store r k p) = ring_size r" "slot (store r k p) = slot r"
    and slot_inject: "ring_ok r \<Longrightarrow> safe r b \<Longrightarrow> unat (i - b) < ring_size r \<Longrightarrow> unat (j - b) < ring_size r
      \<Longrightarrow> slot r i = slot r j \<Longrightarrow> i = j"
begin

definition holds_window :: "'r \<Rightarrow> u16 \<Rightarrow> nat \<Rightarrow> (u16 \<Rightarrow> 'p) \<Rightarrow> bool" where
  "holds_window r b n packet_of \<longleftrightarrow>
     (\<forall>i. unat (i - b) < n \<longrightarrow> lookup r (slot r i) = packet_of i)"

lemma holds_empty: "holds_window r b 0 f"
  by (simp add: holds_window_def)

lemma holds_lookup: "holds_window r b n f \<Longrightarrow> unat (i - b) < n \<Longrightarrow> lookup r (slot r i) = f i"
  by (simp add: holds_window_def)

lemma holds_store:
  assumes r: "ring_ok r" and s: "safe r b" and h: "holds_window r b n f"
    and n: "n < ring_size r" and j: "unat (j - b) = n" and p: "p = f j"
  shows "holds_window (store r (slot r j) p) b (Suc n) f"
  unfolding holds_window_def store_frame
proof (intro allI impI)
  fix i assume i: "unat (i - b) < Suc n"
  show "lookup (store r (slot r j) p) (slot r i) = f i"
  proof (cases "i = j")
    case True
    then show ?thesis using lookup_same [OF r slot_less [OF r]] p by simp
  next
    case False
    then have "unat (i - b) \<noteq> n" using j by (metis diff_add_cancel word_unat_eq_iff)
    with i have lt: "unat (i - b) < n" by simp
    have "slot r i \<noteq> slot r j"
      using slot_inject [OF r s, of i j] False lt n j by auto
    then have "lookup (store r (slot r j) p) (slot r i) = lookup r (slot r i)"
      by (rule lookup_other [OF r slot_less [OF r]])
    with h lt show ?thesis by (simp add: holds_lookup)
  qed
qed

lemma holds_weaken: "holds_window r b n f \<Longrightarrow> m \<le> n \<Longrightarrow> holds_window r b m f"
  by (simp add: holds_window_def)

lemma holds_put:
  assumes "ring_ok r" and "safe r b" and "holds_window r b n f" and "n < ring_size r"
    and j: "unat (j - b) = n"
  shows "holds_window (store r (slot r j) p) b (Suc n) (f(j := p))"
proof (rule holds_store [OF assms(1,2) _ assms(4) j])
  show "holds_window r b n (f(j := p))"
    using assms(3) j by (auto simp: holds_window_def)
  show "p = (f(j := p)) j" by simp
qed

lemma holds_advance:
  assumes h: "holds_window r b n f" and m: "unat (b' - b) = m" "m \<le> n" and n: "n \<le> 65536"
  shows "holds_window r b' (n - m) f"
  unfolding holds_window_def
proof (intro allI impI)
  fix i assume i: "unat (i - b') < n - m"
  have "i - b = (i - b') + (b' - b)" by simp
  then have "unat (i - b) = (unat (i - b') + m) mod 65536"
    using m unat_add16 by metis
  also have "\<dots> = unat (i - b') + m" using i n by simp
  finally have "unat (i - b) < n" using i by simp
  with h show "lookup r (slot r i) = f i" by (rule holds_lookup)
qed

end

end
