(* ===== verification/Tftp_Options.thy ===== *)
theory Tftp_Options
  imports Tftp_Packet_Ops
begin

text \<open>
  Option negotiation at the level of strings: \<open>tftp_format_option_strings\<close>,
  \<open>tftp_format_options\<close> and \<open>tftp_parse_options\<close> of \<open>tftp/src/tftp.c\<close>.

  The functions walk over zero-terminated strings inside a memory object \<open>mem\<close>; positions in it are
  numbers, and the pointers the parser leaves in the option table are \<open>At i\<close> (into the object) or
  \<open>Cstr s\<close> (the block \<open>calloc\<close> returns for \<open>tsize\<close>, assumed to succeed).  A walk that runs off the
  object is \<open>None\<close>.
\<close>

section \<open>Formatting for the log\<close>

text \<open>
  \<open>option\<close> is the cursor of the source's loop and \<open>stop\<close> is \<open>options + n\<close>.  The second cursor
  \<open>value = option + strlen(option) + 1\<close> is computed before the loop test, so \<open>strlen\<close> runs on the
  position after the last pair as well.
\<close>

function format_option_strings_loop ::
    "byte list \<Rightarrow> nat \<Rightarrow> nat \<Rightarrow> string \<Rightarrow> string option" where
  "format_option_strings_loop mem option stop out =
     (case cstr_at mem option of
        None \<Rightarrow> None
      | Some name \<Rightarrow>
          if option < stop then
            (let i = option + length name + 1 in
             case cstr_at mem i of
               None \<Rightarrow> None
             | Some v \<Rightarrow>
                 (let option' = i + length v + 1 in
                  format_option_strings_loop mem option' stop
                    (out @ name @ '':'' @ v @ (if option' < stop then '', '' else ''''))))
          else Some out)"
  by pat_completeness auto
termination
  by (relation "measure (\<lambda>(mem, option, stop, out). stop - option)") auto

declare format_option_strings_loop.simps [simp del]

definition tftp_format_option_strings :: "byte list \<Rightarrow> nat \<Rightarrow> nat \<Rightarrow> string option" where
  "tftp_format_option_strings mem options n =
     format_option_strings_loop mem options (options + n) []"

fun format_options_loop ::
    "byte list \<Rightarrow> tftp_options \<Rightarrow> tftp_option_recognized list \<Rightarrow> string option" where
  "format_options_loop mem options [] = Some []"
| "format_options_loop mem options (o' # os) =
     (if is_active (options o') then
        (case (deref mem (val (options o')), format_options_loop mem options os) of
           (Some v, Some rest) \<Rightarrow>
             Some (tftp_option_recognized_string o' @ '':'' @ v
                   @ (if \<exists>o'' \<in> set os. is_active (options o'') then '', '' else '''') @ rest)
         | _ \<Rightarrow> None)
      else format_options_loop mem options os)"

definition tftp_format_options :: "byte list \<Rightarrow> tftp_options \<Rightarrow> string option" where
  "tftp_format_options mem options =
     map_option (\<lambda>s. ''['' @ s @ '']'') (format_options_loop mem options all_options)"

section \<open>Parsing\<close>

text \<open>The loop over the recognised names stops at the first one that matches, ignoring case.\<close>

definition option_named :: "string \<Rightarrow> tftp_option_recognized option" where
  "option_named name = find (\<lambda>o'. strcaseeq name (tftp_option_recognized_string o')) all_options"

definition skip_prefix :: "string \<Rightarrow> nat" where
  "skip_prefix v = length (takeWhile (\<lambda>c. isspace_c c \<or> c = CHR ''+'') v)"

text \<open>
  The check of one value: \<open>None\<close> if it is not valid, otherwise the pointer to store.  \<open>i\<close> is the
  position of the value \<open>v\<close> in the object.
\<close>

fun parse_option_value :: "tftp_option_recognized \<Rightarrow> nat \<Rightarrow> string \<Rightarrow> strptr option" where
  "parse_option_value TFTP_OPTION_BLKSIZE i v =
     (case strtoul_c v of (blksize, not_parsed, _) \<Rightarrow>
        if v = [] \<or> not_parsed \<noteq> [] \<or> blksize < 8 \<or> blksize > 65464 then None
        else Some (At (i + skip_prefix v)))"
| "parse_option_value TFTP_OPTION_TIMEOUT i v =
     (case strtoul_c v of (timeout, not_parsed, _) \<Rightarrow>
        if v = [] \<or> not_parsed \<noteq> [] \<or> timeout < 1 \<or> timeout > 255 then None
        else Some (At (i + skip_prefix v)))"
| "parse_option_value TFTP_OPTION_TSIZE i v =
     (if v = ''0'' then Some (Cstr '''')
      else case strtoul_c v of (sz, not_parsed, erange) \<Rightarrow>
        if v = [] \<or> not_parsed \<noteq> [] \<or> (sz = ULONG_MAX \<and> erange) then None
        else Some (At (i + skip_prefix v)))"
| "parse_option_value TFTP_OPTION_WINDOWSIZE i v =
     (case strtoul_c v of (window_size, not_parsed, _) \<Rightarrow>
        if v = [] \<or> not_parsed \<noteq> [] \<or> window_size < 1 \<or> window_size > 65535 then None
        else Some (At (i + skip_prefix v)))"
| "parse_option_value TFTP_OPTION_READ_TYPE i v =
     (if strcaseeq v ''directory'' then Some (At i) else None)"

definition parse_one_option :: "tftp_options \<Rightarrow> string \<Rightarrow> nat \<Rightarrow> string \<Rightarrow> tftp_options" where
  "parse_one_option options name i v =
     (case option_named name of
        None \<Rightarrow> options
      | Some o' \<Rightarrow>
          (case parse_option_value o' i v of
             None \<Rightarrow> options
           | Some p \<Rightarrow> options(o' := \<lparr>is_active = True, val = p\<rparr>)))"

text \<open>\<open>option < end_ptr\<close> with \<open>end_ptr = &str[n - 1]\<close> is \<open>option + 1 < str + n\<close>.\<close>

function parse_options_loop :: "tftp_options \<Rightarrow> byte list \<Rightarrow> nat \<Rightarrow> nat \<Rightarrow> tftp_options option" where
  "parse_options_loop options mem option stop =
     (if option + 1 < stop then
        (case cstr_at mem option of
           None \<Rightarrow> None
         | Some name \<Rightarrow>
             (let i = option + length name + 1 in
              case cstr_at mem i of
                None \<Rightarrow> None
              | Some v \<Rightarrow>
                  parse_options_loop (parse_one_option options name i v) mem
                    (i + length v + 1) stop))
      else Some options)"
  by pat_completeness auto
termination
  by (relation "measure (\<lambda>(options, mem, option, stop). stop - option)") auto

declare parse_options_loop.simps [simp del]

definition tftp_parse_options ::
    "tftp_options \<Rightarrow> byte list \<Rightarrow> nat \<Rightarrow> nat \<Rightarrow> tftp_options option" where
  "tftp_parse_options options mem str n = parse_options_loop options mem str (str + n)"

section \<open>What an accepted value is\<close>

fun acceptable :: "tftp_option_recognized \<Rightarrow> string \<Rightarrow> bool" where
  "acceptable TFTP_OPTION_BLKSIZE s \<longleftrightarrow>
     fst (snd (strtoul_c s)) = [] \<and> 8 \<le> fst (strtoul_c s) \<and> fst (strtoul_c s) \<le> 65464"
| "acceptable TFTP_OPTION_TIMEOUT s \<longleftrightarrow>
     fst (snd (strtoul_c s)) = [] \<and> 1 \<le> fst (strtoul_c s) \<and> fst (strtoul_c s) \<le> 255"
| "acceptable TFTP_OPTION_TSIZE s \<longleftrightarrow> s = [] \<or> fst (snd (strtoul_c s)) = []"
| "acceptable TFTP_OPTION_WINDOWSIZE s \<longleftrightarrow>
     fst (snd (strtoul_c s)) = [] \<and> 1 \<le> fst (strtoul_c s) \<and> fst (strtoul_c s) \<le> 65535"
| "acceptable TFTP_OPTION_READ_TYPE s \<longleftrightarrow> strcaseeq s ''directory''"

definition options_ok :: "byte list \<Rightarrow> tftp_options \<Rightarrow> bool" where
  "options_ok mem options \<longleftrightarrow>
     (\<forall>o'. is_active (options o') \<longrightarrow>
        (\<exists>s. deref mem (val (options o')) = Some s \<and> acceptable o' s))"

lemma options_ok_none: "options_ok mem no_options"
  by (simp add: options_ok_def no_options_def)

lemma dropWhile_until: "x \<in> set xs \<Longrightarrow> \<exists>r. dropWhile (\<lambda>c. c \<noteq> x) xs = x # r"
  by (induction xs) auto

lemma cstr_at_shift:
  "cstr_at mem i = Some s \<Longrightarrow> k \<le> length s \<Longrightarrow> cstr_at mem (i + k) = Some (drop k s)"
proof -
  assume s: "cstr_at mem i = Some s" and k: "k \<le> length s"
  from s have z: "NUL \<in> set (drop i mem)" and tw: "s = takeWhile (\<lambda>c. c \<noteq> NUL) (drop i mem)"
    by (auto simp: cstr_at_def Let_def split: if_splits)
  have split: "drop i mem = s @ dropWhile (\<lambda>c. c \<noteq> NUL) (drop i mem)"
    unfolding tw by (rule takeWhile_dropWhile_id [symmetric])
  have nz: "NUL \<notin> set s" by (rule cstr_at_Some_no_NUL [OF s])
  obtain r where t: "dropWhile (\<lambda>c. c \<noteq> NUL) (drop i mem) = NUL # r"
    using dropWhile_until [OF z] by blast
  have mem: "drop i mem = s @ NUL # r" using split unfolding t .
  have "drop (i + k) mem = drop k (drop i mem)" by (simp add: add.commute)
  also have "\<dots> = drop k s @ NUL # r" unfolding mem using k by simp
  finally have "drop (i + k) mem = drop k s @ NUL # r" .
  moreover have "NUL \<notin> set (drop k s)" using nz by (meson in_set_dropD)
  ultimately show ?thesis by (simp add: cstr_at_def takeWhile_until_NUL)
qed

lemma skip_prefix_le: "skip_prefix v \<le> length v"
  by (simp add: skip_prefix_def length_takeWhile_le)

lemma drop_skip_prefix: "drop (skip_prefix v) v = dropWhile (\<lambda>c. isspace_c c \<or> c = CHR ''+'') v"
  by (simp add: skip_prefix_def dropWhile_eq_drop)

lemma dropWhile_or: "dropWhile (\<lambda>c. P c \<or> Q c) v = dropWhile (\<lambda>c. P c \<or> Q c) (dropWhile P v)"
  by (induction v) auto

text \<open>Skipping white space and a plus sign does not change what \<open>strtoul\<close> reads.\<close>

lemma strtoul_skip_prefix:
  assumes "v \<noteq> []" and "fst (snd (strtoul_c v)) = []"
  shows "strtoul_c (drop (skip_prefix v) v) = strtoul_c v"
proof -
  let ?Q = "\<lambda>c. isspace_c c \<or> c = CHR ''+''"
  define s where "s = dropWhile isspace_c v"
  define t where "t = (if s \<noteq> [] \<and> (hd s = CHR ''-'' \<or> hd s = CHR ''+'') then tl s else s)"
  have v: "strtoul_c v =
     (let ds = takeWhile isdigit_c t; m = dec_value 0 ds
      in if ds = [] then (0, v, False)
         else if ULONG_MAX < m then (ULONG_MAX, dropWhile isdigit_c t, True)
         else (if s \<noteq> [] \<and> hd s = CHR ''-'' then (2 ^ 64 - m) mod 2 ^ 64 else m,
               dropWhile isdigit_c t, False))"
    by (simp only: strtoul_c_def Let_def s_def t_def)
  have "takeWhile isdigit_c t \<noteq> []"
    using assms by (auto simp: v)
  then obtain c t' where ct: "t = c # t'" and c: "isdigit_c c"
    by (cases t) (auto split: if_splits)
  have w: "drop (skip_prefix v) v = dropWhile ?Q s"
    unfolding drop_skip_prefix s_def by (rule dropWhile_or)
  have s_cons: "s \<noteq> []" using ct by (auto simp: t_def)
  then have sp: "\<not> isspace_c (hd s)" unfolding s_def by (rule hd_dropWhile)
  then have ss: "dropWhile isspace_c s = s" using s_cons by (cases s) auto
  have st: "strtoul_c s = strtoul_c v"
    unfolding v using ct c by (auto simp: strtoul_c_def ss t_def Let_def split: if_splits)
  show ?thesis
  proof (cases "hd s = CHR ''+''")
    case True
    then have s_eq: "s = CHR ''+'' # c # t'" using ct s_cons unfolding t_def by (metis list.collapse)
    have "dropWhile ?Q s = c # t'"
      unfolding s_eq using c isdigit_not_space isdigit_not_sign by simp
    moreover have "strtoul_c (c # t') = strtoul_c (CHR ''+'' # c # t')"
      using c isdigit_not_space [OF c] isdigit_not_sign [OF c]
      by (simp add: strtoul_c_def Let_def isspace_c_def)
    ultimately show ?thesis unfolding w using st s_eq by simp
  next
    case False
    then have "dropWhile ?Q s = s" using sp s_cons by (cases s) auto
    with st show ?thesis unfolding w by simp
  qed
qed


lemma acceptable_parsed:
  assumes v: "cstr_at mem i = Some v" and p: "parse_option_value o' i v = Some p"
  shows "\<exists>s. deref mem p = Some s \<and> acceptable o' s"
proof (cases "o' = TFTP_OPTION_READ_TYPE \<or> (o' = TFTP_OPTION_TSIZE \<and> v = ''0'')")
  case True
  then show ?thesis using assms by (auto split: if_splits)
next
  case False
  have at: "p = At (i + skip_prefix v)" and nv: "v \<noteq> []" and rest: "fst (snd (strtoul_c v)) = []"
    using p False by (cases o'; auto split: if_splits prod.splits)+
  have "deref mem p = Some (drop (skip_prefix v) v)"
    unfolding at by (simp add: cstr_at_shift [OF v skip_prefix_le])
  moreover have "acceptable o' (drop (skip_prefix v) v)"
    using p False strtoul_skip_prefix [OF nv rest]
    by (cases o') (auto split: if_splits prod.splits)
  ultimately show ?thesis by blast
qed

lemma parse_one_option_ok:
  "options_ok mem options \<Longrightarrow> cstr_at mem i = Some v \<Longrightarrow>
   options_ok mem (parse_one_option options name i v)"
  by (auto simp: parse_one_option_def options_ok_def dest: acceptable_parsed split: option.splits)

lemma parse_options_loop_ok:
  "parse_options_loop options mem i stop = Some options' \<Longrightarrow> options_ok mem options \<Longrightarrow>
   options_ok mem options'"
proof (induction options mem i stop rule: parse_options_loop.induct)
  case (1 options mem i stop)
  show ?case
  proof (cases "i + 1 < stop")
    case False
    with "1.prems" show ?thesis by (simp add: parse_options_loop.simps [of options])
  next
    case True
    with "1.prems" obtain name v where n: "cstr_at mem i = Some name"
      and v: "cstr_at mem (i + length name + 1) = Some v"
      and rec: "parse_options_loop (parse_one_option options name (i + length name + 1) v) mem
                  (i + length name + 1 + length v + 1) stop = Some options'"
      by (auto simp: parse_options_loop.simps [of options] Let_def split: option.splits)
    show ?thesis
      by (rule "1.IH" [OF True n refl v rec parse_one_option_ok [OF "1.prems"(2) v]])
  qed
qed

text \<open>
  C24: Every option the parser activates carries a value inside its range: a block size from 8 to
  65464, a timeout from 1 to 255, a window size from 1 to 65535, a number or the empty string for the
  transfer size, and \<open>directory\<close> for the read type.
\<close>

theorem parse_options_in_range:
  assumes "tftp_parse_options no_options mem str n = Some options" and "is_active (options o')"
  shows "\<exists>s. deref mem (val (options o')) = Some s \<and>
    (case o' of
       TFTP_OPTION_BLKSIZE \<Rightarrow> 8 \<le> fst (strtoul_c s) \<and> fst (strtoul_c s) \<le> 65464
     | TFTP_OPTION_TIMEOUT \<Rightarrow> 1 \<le> fst (strtoul_c s) \<and> fst (strtoul_c s) \<le> 255
     | TFTP_OPTION_TSIZE \<Rightarrow> s = [] \<or> fst (snd (strtoul_c s)) = []
     | TFTP_OPTION_WINDOWSIZE \<Rightarrow> 1 \<le> fst (strtoul_c s) \<and> fst (strtoul_c s) \<le> 65535
     | TFTP_OPTION_READ_TYPE \<Rightarrow> strcaseeq s ''directory'')"
proof -
  have "options_ok mem options"
    using assms(1) options_ok_none unfolding tftp_parse_options_def by (rule parse_options_loop_ok)
  then obtain s where s: "deref mem (val (options o')) = Some s" "acceptable o' s"
    using assms(2) by (auto simp: options_ok_def)
  then show ?thesis by (intro exI [of _ s]) (cases o'; simp)
qed

theorem parse_options_in_range_witness:
  "\<exists>options s. tftp_parse_options no_options (zstr ''blksize'' @ zstr '' +1428'') 0 15 = Some options
     \<and> is_active (options TFTP_OPTION_BLKSIZE)
     \<and> deref (zstr ''blksize'' @ zstr '' +1428'') (val (options TFTP_OPTION_BLKSIZE)) = Some s
     \<and> 8 \<le> fst (strtoul_c s) \<and> fst (strtoul_c s) \<le> 65464"
proof -
  let ?mem = "zstr ''blksize'' @ zstr '' +1428''"
  let ?o = "no_options(TFTP_OPTION_BLKSIZE := \<lparr>is_active = True, val = At 10\<rparr>)"
  have p: "tftp_parse_options no_options ?mem 0 15 = Some ?o"
    unfolding tftp_parse_options_def
    by (simp add: parse_options_loop.simps zstr_def cstr_at_def parse_one_option_def option_named_def
        all_options_def strcaseeq_def tolower_c_def strtoul_c_def isspace_c_def isdigit_c_def
        digit_val_def ULONG_MAX_def skip_prefix_def Let_def)
      (simp add: eval_nat_numeral)
  have a: "is_active (?o TFTP_OPTION_BLKSIZE)" by simp
  show ?thesis using parse_options_in_range [OF p a] p a by auto
qed

section \<open>The parser stays inside its object\<close>

lemma cstr_at_before_NUL:
  assumes "i \<le> k" and "k < length mem" and "mem ! k = NUL"
  shows "\<exists>s. cstr_at mem i = Some s \<and> i + length s \<le> k"
proof -
  have "drop i mem ! (k - i) = NUL" and "k - i < length (drop i mem)" using assms by auto
  then have z: "NUL \<in> set (drop i mem)" by (metis nth_mem)
  have "length (takeWhile (\<lambda>c. c \<noteq> NUL) (drop i mem)) \<le> k - i"
  proof (rule ccontr)
    assume neg: "\<not> ?thesis"
    then have "takeWhile (\<lambda>c. c \<noteq> NUL) (drop i mem) ! (k - i) \<noteq> NUL"
      by (metis (mono_tags, lifting) not_le nth_mem set_takeWhileD)
    moreover have "takeWhile (\<lambda>c. c \<noteq> NUL) (drop i mem) ! (k - i) = drop i mem ! (k - i)"
      using neg by (intro takeWhile_nth) simp
    ultimately show False using \<open>drop i mem ! (k - i) = NUL\<close> by simp
  qed
  with z assms(1) show ?thesis by (simp add: cstr_at_def)
qed

lemma parse_options_loop_total:
  "stop \<le> k + 1 \<Longrightarrow> k + 1 < length mem \<Longrightarrow> mem ! k = NUL \<Longrightarrow> mem ! (k + 1) = NUL \<Longrightarrow>
   \<exists>options'. parse_options_loop options mem i stop = Some options'"
proof (induction options mem i stop rule: parse_options_loop.induct)
  case (1 options mem i stop)
  show ?case
  proof (cases "i + 1 < stop")
    case False
    then show ?thesis by (simp add: parse_options_loop.simps [of options])
  next
    case True
    with "1.prems" have "i \<le> k" by simp
    then obtain name where n: "cstr_at mem i = Some name" and "i + length name \<le> k"
      using cstr_at_before_NUL [of i k mem] "1.prems" by auto
    then obtain v where v: "cstr_at mem (i + length name + 1) = Some v"
      using cstr_at_before_NUL [of "i + length name + 1" "k + 1" mem] "1.prems" by auto
    from "1.IH" [OF True n refl v "1.prems"] show ?thesis
      using True n v by (simp add: parse_options_loop.simps [of options] Let_def)
  qed
qed

text \<open>
  C23: \<open>tftp_parse_options\<close> terminates and does not read outside its object if two adjacent zero bytes
  stand at or behind the last byte of the option string, whatever the bytes in front of them are.
\<close>

theorem parse_options_in_bounds:
  assumes "str + n \<le> k + 1" and "k + 1 < length mem" and "mem ! k = NUL" and "mem ! (k + 1) = NUL"
  shows "\<exists>options'. tftp_parse_options options mem str n = Some options'"
  unfolding tftp_parse_options_def using assms by (rule parse_options_loop_total)

theorem parse_options_in_bounds_witness:
  "\<exists>options'. tftp_parse_options no_options (''tsize'' @ [NUL, CHR ''x'', NUL, NUL]) 0 8 = Some options'"
  by (rule parse_options_in_bounds [where k = 7]) simp_all

theorem parse_options_overread:
  "tftp_parse_options no_options (zstr ''tsize'' @ ''0'' @ replicate 3 (CHR ''1'')) 0 10 = None"
  by (simp add: tftp_parse_options_def parse_options_loop.simps zstr_def cstr_at_def Let_def
      replicate_eq_replicate numeral_3_eq_3)

section \<open>Options written by one side are read by the other\<close>

definition wire_options :: "(tftp_option_recognized \<times> string) list \<Rightarrow> byte list" where
  "wire_options kvs = concat (map (\<lambda>(o', v). zstr (tftp_option_recognized_string o') @ zstr v) kvs)"

definition sendable :: "tftp_option_recognized \<Rightarrow> string \<Rightarrow> bool" where
  "sendable o' v \<longleftrightarrow> NUL \<notin> set v \<and> skip_prefix v = 0 \<and> parse_option_value o' 0 v \<noteq> None"

text \<open>What the other side reads: the value itself, or the empty string for the size query \<open>"0"\<close>.\<close>

definition received_value :: "tftp_option_recognized \<Rightarrow> string \<Rightarrow> string" where
  "received_value o' v = (if o' = TFTP_OPTION_TSIZE \<and> v = ''0'' then [] else v)"

lemma append_options_wire:
  "append_options mem options os p = (Ret_True, q) \<Longrightarrow>
   \<exists>kvs. map fst kvs = filter (\<lambda>o'. is_active (options o')) os
     \<and> (\<forall>(o', v) \<in> set kvs. deref mem (val (options o')) = Some v)
     \<and> q = p @ wire_options kvs"
proof (induction os arbitrary: p)
  case Nil
  then show ?case by (simp add: wire_options_def)
next
  case (Cons o' os)
  show ?case
  proof (cases "is_active (options o')")
    case False
    with Cons show ?thesis by simp
  next
    case True
    with Cons.prems obtain v where v: "deref mem (val (options o')) = Some v"
      and rec: "append_options mem options os
                  (p @ zstr (tftp_option_recognized_string o') @ zstr v) = (Ret_True, q)"
      by (auto split: option.splits if_splits)
    from Cons.IH [OF rec] obtain kvs where
      "map fst kvs = filter (\<lambda>o'. is_active (options o')) os"
      "\<forall>(o', v) \<in> set kvs. deref mem (val (options o')) = Some v"
      "q = (p @ zstr (tftp_option_recognized_string o') @ zstr v) @ wire_options kvs" by blast
    with True v show ?thesis
      by (intro exI [of _ "(o', v) # kvs"]) (simp add: wire_options_def)
  qed
qed

lemma option_named_string: "option_named (tftp_option_recognized_string o') = Some o'"
  by (cases o') (simp_all add: option_named_def all_options_def strcaseeq_def tolower_c_def)

lemma option_string_no_NUL: "NUL \<notin> set (tftp_option_recognized_string o')"
  by (cases o') simp_all

lemma parse_option_value_sendable:
  "sendable o' v \<Longrightarrow> parse_option_value o' i v
     = Some (if o' = TFTP_OPTION_TSIZE \<and> v = ''0'' then Cstr [] else At i)"
  by (cases o') (auto simp: sendable_def split: prod.splits if_splits)

lemma parse_wire_options:
  assumes "mem = pre @ wire_options kvs" and "distinct (map fst kvs)"
    and "\<And>o' v. (o', v) \<in> set kvs \<Longrightarrow> sendable o' v"
  shows "\<exists>r. parse_options_loop options mem (length pre) (length mem) = Some r
    \<and> (\<forall>o' v. (o', v) \<in> set kvs \<longrightarrow> is_active (r o') \<and> deref mem (val (r o')) = Some (received_value o' v))
    \<and> (\<forall>o'. o' \<notin> fst ` set kvs \<longrightarrow> r o' = options o')"
  using assms
proof (induction kvs arbitrary: pre options)
  case Nil
  then show ?case by (simp add: wire_options_def parse_options_loop.simps)
next
  case (Cons kv kvs)
  obtain k v where kv: "kv = (k, v)" by fastforce
  let ?name = "tftp_option_recognized_string k"
  let ?i = "length pre + length ?name + 1"
  let ?pre = "pre @ zstr ?name @ zstr v"
  let ?p = "if k = TFTP_OPTION_TSIZE \<and> v = ''0'' then Cstr [] else At ?i"
  let ?options = "options(k := \<lparr>is_active = True, val = ?p\<rparr>)"
  have send: "sendable k v" and v: "NUL \<notin> set v"
    using Cons.prems(3) [of k v] by (auto simp: kv sendable_def)
  have mem: "mem = ?pre @ wire_options kvs" using Cons.prems(1) by (simp add: kv wire_options_def)
  have n: "cstr_at mem (length pre) = Some ?name"
    unfolding mem zstr_def using cstr_at_append [OF option_string_no_NUL refl] by simp
  have val_at: "cstr_at mem ?i = Some v"
    using cstr_at_append [OF v, of ?i "pre @ zstr ?name" "wire_options kvs"]
    unfolding mem zstr_def by simp
  have one: "parse_one_option options ?name ?i v = ?options"
    by (simp add: parse_one_option_def option_named_string parse_option_value_sendable [OF send])
  have "parse_options_loop options mem (length pre) (length mem)
      = parse_options_loop ?options mem (length ?pre) (length mem)"
    using n val_at one by (simp add: parse_options_loop.simps [of options] mem Let_def add.assoc)
  moreover have dist': "distinct (map fst kvs)" and new_key: "k \<notin> fst ` set kvs"
    using Cons.prems(2) by (simp_all add: kv)
  have send': "\<And>o' v. (o', v) \<in> set kvs \<Longrightarrow> sendable o' v"
    by (rule Cons.prems(3)) simp
  obtain r where r: "parse_options_loop ?options mem (length ?pre) (length mem) = Some r"
    and in_kvs: "\<forall>o' v. (o', v) \<in> set kvs \<longrightarrow>
        is_active (r o') \<and> deref mem (val (r o')) = Some (received_value o' v)"
    and out: "\<forall>o'. o' \<notin> fst ` set kvs \<longrightarrow> r o' = ?options o'"
    using Cons.IH [OF mem dist' send', of ?options] by blast
  have rk: "r k = \<lparr>is_active = True, val = ?p\<rparr>" using out new_key by simp
  have pv: "deref mem ?p = Some (received_value k v)"
    using val_at by (simp add: received_value_def)
  have out': "r o' = options o'" if "o' \<notin> fst ` set (kv # kvs)" for o'
    using out that by (simp add: kv)
  have in': "is_active (r o') \<and> deref mem (val (r o')) = Some (received_value o' v')"
    if "(o', v') \<in> set (kv # kvs)" for o' v'
  proof (cases "(o', v') = (k, v)")
    case True
    then show ?thesis using rk pv by simp
  next
    case False
    then have "(o', v') \<in> set kvs" using that by (auto simp: kv)
    with in_kvs show ?thesis by blast
  qed
  show ?case
    using calculation r in' out' by (intro exI [of _ r]) (metis (no_types, lifting))
qed

text \<open>
  C15: Options round trip.  The options \<open>tftp_rrq_packet_init\<close> appends to a request are exactly the ones
  that \<open>tftp_parse_options\<close> activates when it is run on the bytes behind the mode, each with the value
  that was sent (the size query \<open>"0"\<close> is read as the empty string), if the values sent are valid.
\<close>

theorem options_roundtrip:
  assumes rrq: "tftp_rrq_packet_init mem n filename mode options = (Ret_True, p)"
    and send: "\<And>o' v. is_active (options o') \<Longrightarrow> deref mem (val (options o')) = Some v \<Longrightarrow> sendable o' v"
    and start: "start = 2 + (strnlen_c n filename + 1) + (length (tftp_mode_to_string mode) + 1)"
  shows "\<exists>r. tftp_parse_options no_options p start (length p - start) = Some r
    \<and> (\<forall>o'. is_active (r o') = is_active (options o'))
    \<and> (\<forall>o'. is_active (options o') \<longrightarrow>
          deref p (val (r o')) = map_option (received_value o') (deref mem (val (options o'))))"
proof -
  let ?fn = "take (strnlen_c n filename) filename"
  let ?pad = "zstr ?fn @ zstr (tftp_mode_to_string mode)"
  let ?pre = "be16 (opcode_value TFTP_OPCODE_RRQ) @ ?pad"
  from rrq obtain pad where pad: "append_options mem options all_options ?pad = (Ret_True, pad)"
    and p: "p = be16 (opcode_value TFTP_OPCODE_RRQ) @ pad"
    by (auto simp: tftp_rrq_packet_init_def request_padding_def Let_def split: if_splits prod.splits)
  from append_options_wire [OF pad] obtain kvs where
    keys: "map fst kvs = filter (\<lambda>o'. is_active (options o')) all_options"
    and vals: "\<forall>(o', v) \<in> set kvs. deref mem (val (options o')) = Some v"
    and q: "pad = ?pad @ wire_options kvs" by blast
  have len: "length ?pre = start" using strnlen_c_le(1) [of n filename] by (simp add: start)
  have mem: "p = ?pre @ wire_options kvs" by (simp add: p q)
  have dist: "distinct (map fst kvs)" using all_options_order by (simp add: keys)
  have key_iff: "o' \<in> fst ` set kvs \<longleftrightarrow> is_active (options o')" for o'
    using all_options_order by (metis (mono_tags, lifting) UNIV_I keys list.set_map mem_Collect_eq set_filter)
  have s: "sendable o' v" if "(o', v) \<in> set kvs" for o' v
    using that vals key_iff [of o'] by (force intro: send)
  from parse_wire_options [OF mem dist s, of no_options] obtain r where
    r: "parse_options_loop no_options p start (length p) = Some r"
    and act: "\<And>o' v. (o', v) \<in> set kvs \<Longrightarrow>
        is_active (r o') \<and> deref p (val (r o')) = Some (received_value o' v)"
    and out: "\<And>o'. o' \<notin> fst ` set kvs \<Longrightarrow> r o' = no_options o'"
    unfolding len by blast
  have "start + (length p - start) = length p" using len by (simp add: mem)
  then have "tftp_parse_options no_options p start (length p - start) = Some r"
    using r by (simp add: tftp_parse_options_def)
  moreover have "is_active (r o') = is_active (options o')" for o'
    using act key_iff [of o'] out [of o'] by (cases "o' \<in> fst ` set kvs") (auto simp: no_options_def)
  moreover have "deref p (val (r o')) = map_option (received_value o') (deref mem (val (options o')))"
    if "is_active (options o')" for o'
    using that key_iff [of o'] act vals by fastforce
  ultimately show ?thesis by blast
qed

theorem options_roundtrip_witness:
  "\<exists>r. tftp_parse_options no_options
          (be16 1 @ zstr ''ab'' @ zstr ''octet'' @ zstr ''blksize'' @ zstr ''1024'') 11 13 = Some r
     \<and> deref (be16 1 @ zstr ''ab'' @ zstr ''octet'' @ zstr ''blksize'' @ zstr ''1024'')
          (val (r TFTP_OPTION_BLKSIZE)) = Some ''1024''"
proof -
  let ?o = "no_options(TFTP_OPTION_BLKSIZE := \<lparr>is_active = True, val = Cstr ''1024''\<rparr>)"
  let ?p = "be16 1 @ zstr ''ab'' @ zstr ''octet'' @ zstr ''blksize'' @ zstr ''1024''"
  have rrq: "tftp_rrq_packet_init [] 3 (zstr ''ab'') TFTP_MODE_OCTET ?o = (Ret_True, ?p)"
    by code_simp
  have ok: "sendable TFTP_OPTION_BLKSIZE ''1024''" by code_simp
  have send: "sendable o' v" if "is_active (?o o')" and "deref [] (val (?o o')) = Some v" for o' v
    using that ok by (auto simp: no_options_def split: if_splits)
  have start: "11 = 2 + (strnlen_c 3 (zstr ''ab'') + 1) + (length (tftp_mode_to_string TFTP_MODE_OCTET) + 1)"
    by code_simp
  have len: "length ?p - 11 = 13" by simp
  from options_roundtrip [OF rrq send start, unfolded len] obtain r where
    "tftp_parse_options no_options ?p 11 13 = Some r"
    and "\<forall>o'. is_active (?o o') \<longrightarrow>
          deref ?p (val (r o')) = map_option (received_value o') (deref [] (val (?o o')))"
    by blast
  then show ?thesis
    by (intro exI [of _ r]) (auto simp: received_value_def)
qed

end
