(* ===== verification/Tftp_Adaptive_Timeout.thy ===== *)
theory Tftp_Adaptive_Timeout
  imports Complex_Main Tftp_Prelude
begin

text \<open>
  The retransmission timer: \<open>tftp/src/adaptive_timeout.c\<close>, \<open>tftp/src/adaptive_timeout.h\<close> and the
  conversions of \<open>tftp/src/utils/time.h\<close>.

  A \<open>double\<close> is an exact rational number here: the formulas and the conversions to and from
  seconds and nanoseconds are those of the source, its rounding errors are not modelled.
  \<open>clock_gettime\<close> is an argument, \<open>None\<close> when the call fails.
\<close>

section \<open>Seconds and nanoseconds\<close>

record timespec =
  tv_sec :: int
  tv_nsec :: int

definition timespec_to_double :: "timespec \<Rightarrow> rat" where
  "timespec_to_double t = of_int (tv_sec t) + of_int (tv_nsec t) / 1000000000"

text \<open>
  The two conversions differ in the number of units per second only.  A cast to an integer type
  truncates; after the clamping the value is not negative, so truncation is \<open>floor\<close>.
\<close>

definition clamp_seconds :: "rat \<Rightarrow> rat \<Rightarrow> rat" where
  "clamp_seconds unit d =
     (let max_timeout = 2 ^ 63 - unit;
          d = (if d > max_timeout then max_timeout else d)
      in if d < unit then 0 else d)"

definition carry_units :: "int \<Rightarrow> int \<times> int \<Rightarrow> int \<times> int" where
  "carry_units per_second su =
     (case su of (s, u) \<Rightarrow>
        let (s, u) = (if u \<le> - per_second \<or> u \<ge> per_second
                      then (s + u div per_second, u mod per_second) else (s, u))
        in if u < 0 then (s - 1, per_second + u) else (s, u))"

definition double_to_timespec :: "rat \<Rightarrow> timespec" where
  "double_to_timespec d =
     (let d = clamp_seconds (1 / 1000000000) d;
          (s, n) = carry_units 1000000000
                     (floor d, floor ((d - of_int (floor d)) * 1000000000))
      in \<lparr>tv_sec = s, tv_nsec = n\<rparr>)"

record timeval =
  val_sec :: int
  val_usec :: int

definition double_to_timeval :: "rat \<Rightarrow> timeval" where
  "double_to_timeval d =
     (let d = clamp_seconds (1 / 1000000) d;
          (s, u) = carry_units 1000000
                     (floor d, floor ((d - of_int (floor d)) * 1000000))
      in \<lparr>val_sec = s, val_usec = u\<rparr>)"

section \<open>The estimator\<close>

record adaptive_timeout =
  timer_active :: bool
  rto :: timespec
  starting_block_number :: u16
  is_first_measurement :: bool
  timer :: timespec
  smoothed_rtt :: rat
  rtt_variation :: rat

definition rto_alpha :: rat where "rto_alpha = 1 / 8"
definition rto_beta :: rat where "rto_beta = 1 / 4"
definition rto_k :: rat where "rto_k = 4"
definition rto_granularity :: rat where "rto_granularity = 1 / 100000"

definition zero_timespec :: timespec where
  "zero_timespec = \<lparr>tv_sec = 0, tv_nsec = 0\<rparr>"

definition adaptive_timeout_init :: adaptive_timeout where
  "adaptive_timeout_init =
     \<lparr>timer_active = False, rto = \<lparr>tv_sec = 0, tv_nsec = 3906250\<rparr>, starting_block_number = 0,
      is_first_measurement = True, timer = zero_timespec, smoothed_rtt = 0, rtt_variation = 0\<rparr>"

definition adaptive_timeout_start_timer ::
    "timespec option \<Rightarrow> adaptive_timeout \<Rightarrow> bool \<times> adaptive_timeout" where
  "adaptive_timeout_start_timer now ad =
     (case now of
        None \<Rightarrow> (False, ad\<lparr>timer_active := True\<rparr>)
      | Some t \<Rightarrow> (True, ad\<lparr>timer_active := True, timer := t\<rparr>))"

definition adaptive_timeout_cancel_timer :: "adaptive_timeout \<Rightarrow> adaptive_timeout" where
  "adaptive_timeout_cancel_timer ad = ad\<lparr>timer_active := False\<rparr>"

definition adaptive_timeout_stop_timer ::
    "timespec option \<Rightarrow> adaptive_timeout \<Rightarrow> bool \<times> adaptive_timeout" where
  "adaptive_timeout_stop_timer now ad =
     (case now of
        None \<Rightarrow> (False, ad)
      | Some t \<Rightarrow>
          let r = timespec_to_double t - timespec_to_double (timer ad);
              ad = ad\<lparr>timer_active := False\<rparr>;
              ad = (if is_first_measurement ad
                    then ad\<lparr>is_first_measurement := False, smoothed_rtt := r, rtt_variation := r / 2\<rparr>
                    else ad\<lparr>rtt_variation := (1 - rto_beta) * rtt_variation ad
                                            + rto_beta * \<bar>smoothed_rtt ad - r\<bar>,
                            smoothed_rtt := (1 - rto_alpha) * smoothed_rtt ad + rto_alpha * r\<rparr>);
              new_rto = smoothed_rtt ad + max rto_granularity (rto_k * rtt_variation ad)
          in (True, ad\<lparr>rto := double_to_timespec (min 60 new_rto)\<rparr>))"

definition adaptive_timeout_backoff :: "adaptive_timeout \<Rightarrow> adaptive_timeout" where
  "adaptive_timeout_backoff ad =
     ad\<lparr>rto := double_to_timespec (min 1 (2 * timespec_to_double (rto ad)))\<rparr>"

section \<open>Conversions are exact up to a nanosecond\<close>

definition timespec_normal :: "timespec \<Rightarrow> bool" where
  "timespec_normal t \<longleftrightarrow> 0 \<le> tv_sec t \<and> 0 \<le> tv_nsec t \<and> tv_nsec t < 1000000000"

lemma fraction_units:
  fixes d :: rat
  assumes "0 < per"
  shows "0 \<le> floor ((d - of_int (floor d)) * of_int per)"
    and "floor ((d - of_int (floor d)) * of_int per) < per"
proof -
  have f: "0 \<le> d - of_int (floor d)" "d - of_int (floor d) < 1" by linarith+
  then show "0 \<le> floor ((d - of_int (floor d)) * of_int per)" using assms by simp
  have "(d - of_int (floor d)) * of_int per < 1 * of_int per"
    using f assms by (intro mult_strict_right_mono) simp_all
  then show "floor ((d - of_int (floor d)) * of_int per) < per" by (simp add: floor_less_iff)
qed

lemma carry_units_id: "0 \<le> u \<Longrightarrow> u < per \<Longrightarrow> carry_units per (s, u) = (s, u)"
  by (simp add: carry_units_def)

lemma double_to_timespec_floor:
  "double_to_timespec d =
     (let d = clamp_seconds (1 / 1000000000) d
      in \<lparr>tv_sec = floor d, tv_nsec = floor ((d - of_int (floor d)) * 1000000000)\<rparr>)"
  using fraction_units [of 1000000000 "clamp_seconds (1 / 1000000000) d"]
  by (simp add: double_to_timespec_def Let_def carry_units_id)

lemma clamp_seconds_nonneg: "0 \<le> clamp_seconds (1 / 1000000000) d"
  by (simp add: clamp_seconds_def Let_def)

lemma double_to_timespec_normal: "timespec_normal (double_to_timespec d)"
  using fraction_units [of 1000000000 "clamp_seconds (1 / 1000000000) d"] clamp_seconds_nonneg [of d]
  by (simp add: double_to_timespec_floor Let_def timespec_normal_def)

lemma timespec_error:
  fixes d :: rat
  assumes "0 \<le> d" and "d \<le> 60"
  shows "d - 1 / 1000000000 < timespec_to_double (double_to_timespec d)"
    and "timespec_to_double (double_to_timespec d) \<le> d"
proof -
  let ?c = "clamp_seconds (1 / 1000000000) d"
  let ?n = "floor ((?c - of_int (floor ?c)) * 1000000000)"
  have c: "?c = (if d < 1 / 1000000000 then 0 else d)"
    using assms by (simp add: clamp_seconds_def Let_def)
  have t: "timespec_to_double (double_to_timespec d) = of_int (floor ?c) + of_int ?n / 1000000000"
    by (simp add: double_to_timespec_floor Let_def timespec_to_double_def)
  have n: "of_int ?n \<le> (?c - of_int (floor ?c)) * 1000000000"
    "(?c - of_int (floor ?c)) * 1000000000 < of_int ?n + 1"
    by (rule of_int_floor_le, rule floor_correct [THEN conjunct2, simplified])
  have "?c - 1 / 1000000000 < of_int (floor ?c) + of_int ?n / 1000000000"
    and up: "of_int (floor ?c) + of_int ?n / 1000000000 \<le> ?c"
    using n by (simp_all add: field_simps)
  moreover have "of_int (floor ?c) + of_int ?n / (1000000000 :: rat) = 0" if "d < 1 / 1000000000"
    using that c by simp
  ultimately show "d - 1 / 1000000000 < timespec_to_double (double_to_timespec d)"
    unfolding t using c assms by (cases "d < 1 / 1000000000") auto
  show "timespec_to_double (double_to_timespec d) \<le> d"
    unfolding t using up c assms by (cases "d < 1 / 1000000000") auto
qed

section \<open>Bounds of the retransmission timeout\<close>

definition estimator_ok :: "adaptive_timeout \<Rightarrow> bool" where
  "estimator_ok ad \<longleftrightarrow> 0 \<le> smoothed_rtt ad \<and> 0 \<le> rtt_variation ad"

lemma estimator_ok_init: "estimator_ok adaptive_timeout_init"
  by (simp add: estimator_ok_def adaptive_timeout_init_def)

lemma stop_timer_estimator:
  assumes "estimator_ok ad" and "timespec_to_double (timer ad) \<le> timespec_to_double now"
  shows "estimator_ok (snd (adaptive_timeout_stop_timer (Some now) ad))"
  using assms
  by (auto simp: estimator_ok_def adaptive_timeout_stop_timer_def Let_def rto_alpha_def rto_beta_def)

lemma stop_timer_rto:
  "rto (snd (adaptive_timeout_stop_timer (Some now) ad)) =
     (let ad' = snd (adaptive_timeout_stop_timer (Some now) ad)
      in double_to_timespec (min 60 (smoothed_rtt ad' + max rto_granularity (rto_k * rtt_variation ad'))))"
  by (simp add: adaptive_timeout_stop_timer_def Let_def)

text \<open>
  C29: As long as the clock does not run backwards, every measurement leaves a retransmission timeout
  that is a normal time (nanoseconds between 0 and 999999999), is at most 60 seconds and is more
  than 9.999 microseconds (the 10 microseconds of granularity less the truncation to a nanosecond),
  so the timer is never armed with a zero timeout; and the estimator stays nonnegative, so the same
  holds at the next measurement.
\<close>

theorem adaptive_rto_bounds:
  assumes "estimator_ok ad" and "timespec_to_double (timer ad) \<le> timespec_to_double now"
    and "adaptive_timeout_stop_timer (Some now) ad = (ok, ad')"
  shows "ok \<and> estimator_ok ad' \<and> timespec_normal (rto ad')
    \<and> timespec_to_double (rto ad') \<le> 60
    \<and> rto_granularity - 1 / 1000000000 < timespec_to_double (rto ad')"
proof -
  have e: "estimator_ok ad'" and ok
    using stop_timer_estimator [OF assms(1,2)] assms(3)
    by (simp, simp add: adaptive_timeout_stop_timer_def Let_def)
  let ?r = "min 60 (smoothed_rtt ad' + max rto_granularity (rto_k * rtt_variation ad'))"
  have r: "rto ad' = double_to_timespec ?r"
    using stop_timer_rto [of now ad] assms(3) by (simp add: Let_def)
  have "rto_granularity \<le> ?r" and "?r \<le> 60"
    using e by (auto simp: estimator_ok_def rto_granularity_def min_def max_def)
  moreover from this have "0 \<le> ?r" by (simp add: rto_granularity_def)
  ultimately show ?thesis
    using timespec_error [of ?r] double_to_timespec_normal [of ?r] e \<open>ok\<close>
    unfolding r by linarith
qed

theorem adaptive_rto_bounds_witness:
  "\<exists>ad'. adaptive_timeout_stop_timer (Some \<lparr>tv_sec = 7, tv_nsec = 500000000\<rparr>) adaptive_timeout_init = (True, ad')
     \<and> timespec_normal (rto ad') \<and> timespec_to_double (rto ad') \<le> 60"
proof -
  let ?now = "\<lparr>tv_sec = 7, tv_nsec = 500000000\<rparr>"
  obtain ok ad' where s: "adaptive_timeout_stop_timer (Some ?now) adaptive_timeout_init = (ok, ad')"
    by fastforce
  have "timespec_to_double (timer adaptive_timeout_init) \<le> timespec_to_double ?now"
    by (simp add: adaptive_timeout_init_def zero_timespec_def timespec_to_double_def)
  from adaptive_rto_bounds [OF estimator_ok_init this s] s show ?thesis by (intro exI [of _ "ad'"]) simp
qed

text \<open>
  The exponential backoff doubles a timeout of up to half a second, up to the truncation to a
  nanosecond, and caps it at one second; a timeout that a measurement has set above one second is
  therefore lowered by a backoff, to one second exactly.
\<close>

theorem adaptive_backoff:
  "0 \<le> timespec_to_double (rto ad) \<Longrightarrow>
   timespec_normal (rto (adaptive_timeout_backoff ad))
   \<and> timespec_to_double (rto (adaptive_timeout_backoff ad)) \<le> 1
   \<and> (timespec_to_double (rto ad) \<le> 1 / 2 \<longrightarrow>
        2 * timespec_to_double (rto ad) - 1 / 1000000000 < timespec_to_double (rto (adaptive_timeout_backoff ad))
        \<and> timespec_to_double (rto (adaptive_timeout_backoff ad)) \<le> 2 * timespec_to_double (rto ad))
   \<and> (1 / 2 \<le> timespec_to_double (rto ad) \<longrightarrow>
        rto (adaptive_timeout_backoff ad) = \<lparr>tv_sec = 1, tv_nsec = 0\<rparr>)"
proof -
  assume nn: "0 \<le> timespec_to_double (rto ad)"
  let ?d = "min 1 (2 * timespec_to_double (rto ad))"
  have r: "rto (adaptive_timeout_backoff ad) = double_to_timespec ?d"
    by (simp add: adaptive_timeout_backoff_def)
  have d: "0 \<le> ?d" "?d \<le> 60" "?d \<le> 1" using nn by auto
  note err = timespec_error [OF d(1,2)]
  have half: "?d = 2 * timespec_to_double (rto ad)" if "timespec_to_double (rto ad) \<le> 1 / 2"
    using that by simp
  have one: "double_to_timespec ?d = \<lparr>tv_sec = 1, tv_nsec = 0\<rparr>" if "1 / 2 \<le> timespec_to_double (rto ad)"
  proof -
    have "?d = 1" using that by simp
    then show ?thesis by (simp add: double_to_timespec_floor clamp_seconds_def Let_def)
  qed
  show ?thesis
    unfolding r
  proof (intro conjI impI)
    show "timespec_normal (double_to_timespec ?d)" by (rule double_to_timespec_normal)
    show "timespec_to_double (double_to_timespec ?d) \<le> 1" using err d by linarith
  qed (use err half one in simp_all)
qed

theorem adaptive_backoff_witness:
  "rto (adaptive_timeout_backoff (adaptive_timeout_init\<lparr>rto := \<lparr>tv_sec = 60, tv_nsec = 0\<rparr>\<rparr>))
     = \<lparr>tv_sec = 1, tv_nsec = 0\<rparr>"
  using adaptive_backoff [of "adaptive_timeout_init\<lparr>rto := \<lparr>tv_sec = 60, tv_nsec = 0\<rparr>\<rparr>"]
  by (simp add: timespec_to_double_def)

end
