(* ===== verification/Tftp_Inet.thy ===== *)
theory Tftp_Inet
  imports Tftp_Packet
begin

text \<open>
  Socket addresses: the parts of \<open>tftp/src/utils/inet.c\<close> that the transfer logic depends on.

  A \<open>struct sockaddr_storage\<close> is a \<open>datatype\<close> with a constructor per address family the code
  knows; ports and IPv4 addresses are kept as they are stored (network byte order).  The resolver
  calls \<open>getnameinfo\<close> and \<open>getaddrinfo\<close> are arguments.
\<close>

type_synonym u32 = "32 word"

datatype sockaddr =
    Sockaddr_In (sin_port: u16) (sin_addr: u32)
  | Sockaddr_In6 (sin6_port: u16) (sin6_flowinfo: u32) (sin6_addr: "byte list") (sin6_scope_id: u32)
  | Sockaddr_Other u16

fun sockaddr_equals :: "sockaddr \<Rightarrow> sockaddr \<Rightarrow> bool" where
  "sockaddr_equals (Sockaddr_In p a) (Sockaddr_In q b) \<longleftrightarrow> p = q \<and> a = b"
| "sockaddr_equals (Sockaddr_In6 p _ a s) (Sockaddr_In6 q _ b t) \<longleftrightarrow> p = q \<and> a = b \<and> s = t"
| "sockaddr_equals _ _ \<longleftrightarrow> False"

text \<open>The length a known family stands for, \<open>None\<close> (the \<open>default\<close> branch) otherwise.\<close>

fun set_address_family :: "sockaddr \<Rightarrow> nat option" where
  "set_address_family (Sockaddr_In _ _) = Some 16"
| "set_address_family (Sockaddr_In6 _ _ _ _) = Some 28"
| "set_address_family (Sockaddr_Other _) = None"

text \<open>The port \<open>sockaddr_ntop\<close> stores, in host byte order.\<close>

fun sockaddr_ntop_port :: "sockaddr \<Rightarrow> u16 option" where
  "sockaddr_ntop_port (Sockaddr_In p _) = Some (tftp_htobe16 p)"
| "sockaddr_ntop_port (Sockaddr_In6 p _ _ _) = Some (tftp_htobe16 p)"
| "sockaddr_ntop_port (Sockaddr_Other _) = None"

definition in6_is_addr_unspecified :: "byte list \<Rightarrow> bool" where
  "in6_is_addr_unspecified a \<longleftrightarrow> a = replicate 16 NUL"

definition in6_is_addr_v4mapped :: "byte list \<Rightarrow> bool" where
  "in6_is_addr_v4mapped a \<longleftrightarrow> take 12 a = replicate 10 NUL @ [CHR 0xFF, CHR 0xFF]"

definition load32 :: "byte list \<Rightarrow> u32" where
  "load32 bs = word_of_nat (horner_sum of_char 256 (take 4 bs))"

text \<open>
  \<open>gni\<close> is what \<open>getnameinfo\<close> returns for \<open>src\<close>, \<open>gai\<close> what \<open>getaddrinfo\<close> returns, with the
  address it found; the result is the return value and \<open>*dest\<close>, \<open>None\<close> when it is not written.
\<close>

definition sockaddr_in6_to_in :: "int \<Rightarrow> int \<times> sockaddr \<Rightarrow> sockaddr \<Rightarrow> int \<times> sockaddr option" where
  "sockaddr_in6_to_in gni gai src =
     (if gni \<noteq> 0 then (gni, None)
      else if in6_is_addr_unspecified (sin6_addr src) then (0, Some (Sockaddr_In (sin6_port src) 0))
      else if in6_is_addr_v4mapped (sin6_addr src)
      then (0, Some (Sockaddr_In (sin6_port src) (load32 (drop 12 (sin6_addr src)))))
      else case gai of (r, a) \<Rightarrow> if r \<noteq> 0 then (r, None) else (0, Some a))"

definition sockaddr_in_to_in6 :: "int \<Rightarrow> int \<times> sockaddr \<Rightarrow> sockaddr \<Rightarrow> int \<times> sockaddr option" where
  "sockaddr_in_to_in6 gni gai src =
     (if gni \<noteq> 0 then (gni, None)
      else case gai of (r, a) \<Rightarrow> if r \<noteq> 0 then (r, None) else (0, Some a))"

lemma sockaddr_equals_refl: "set_address_family a \<noteq> None \<Longrightarrow> sockaddr_equals a a"
  by (cases a) simp_all

lemma sockaddr_equals_sym: "sockaddr_equals a b \<Longrightarrow> sockaddr_equals b a"
  by (cases a; cases b) simp_all

lemma sockaddr_equals_trans: "sockaddr_equals a b \<Longrightarrow> sockaddr_equals b c \<Longrightarrow> sockaddr_equals a c"
  by (cases a; cases b; cases c) simp_all

lemma sockaddr_equals_port: "sockaddr_equals a b \<Longrightarrow> sockaddr_ntop_port a = sockaddr_ntop_port b"
  by (cases a; cases b) simp_all

end
