(* ===== verification/Tftp_Server_File.thy ===== *)
theory Tftp_Server_File
  imports Tftp_Packet
begin

text \<open>
  Files of the server: \<open>tftp/src/server/session_file.c\<close> and the size queries of
  \<open>tftp/src/utils/io.c\<close>.

  An open file is its contents, the file offset and its kind.  The operating system is the record
  \<open>os_env\<close>, an argument: what \<open>open\<close> answers for a path (an error number or the file), the entries
  \<open>readdir\<close> lists, whether the other calls succeed (\<open>read\<close> for each state of the file), and the
  descriptor that \<open>open\<close> and \<open>pipe\<close> give to a file.  \<open>open\<close> is retried while it reports \<open>EINTR\<close>, so
  its answer here is the last one.
\<close>

section \<open>Open files\<close>

datatype file_kind = Regular_File | Block_Device | Not_Seekable

record file_object =
  contents :: "byte list"
  file_offset :: nat
  kind :: file_kind

definition seekable :: "file_object \<Rightarrow> bool" where
  "seekable f \<longleftrightarrow> kind f \<noteq> Not_Seekable"

text \<open>What \<open>read\<close> of at most \<open>n\<close> bytes delivers, and the file afterwards.\<close>

definition file_read :: "nat \<Rightarrow> file_object \<Rightarrow> byte list \<times> file_object" where
  "file_read n f =
     (let bs = take n (drop (file_offset f) (contents f))
      in (bs, f\<lparr>file_offset := file_offset f + length bs\<rparr>))"

text \<open>\<open>write\<close> at the file offset.\<close>

definition file_write :: "byte list \<Rightarrow> file_object \<Rightarrow> file_object" where
  "file_write bs f =
     f\<lparr>contents := splice (file_offset f) bs (contents f),
       file_offset := file_offset f + length bs\<rparr>"

record os_env =
  os_open :: "string \<Rightarrow> bool \<Rightarrow> int + file_object"
  os_opendir :: "string \<Rightarrow> string list option"
  os_strerror :: "int \<Rightarrow> string"
  os_malloc_ok :: bool
  os_pipe_ok :: bool
  os_pipe_size_ok :: bool
  os_pipe_write_ok :: bool
  os_stat_ok :: bool
  os_ioctl_ok :: bool
  os_read_ok :: "file_object \<Rightarrow> bool"
  os_lseek_ok :: bool
  os_descriptor :: int

section \<open>Paths\<close>

text \<open>\<open>None\<close>: an empty root makes \<open>root[strlen(root) - 1]\<close> read in front of the string.\<close>

definition get_full_path :: "string \<Rightarrow> string \<Rightarrow> string option" where
  "get_full_path filename root_dir =
     (if root_dir = [] then None
      else Some (root_dir @ (if last root_dir = CHR ''/'' then '''' else ''/'') @ filename))"

section \<open>Opening\<close>

datatype session_file_mode = SESSION_FILE_MODE_READ | SESSION_FILE_MODE_WRITE

datatype tftp_read_type = TFTP_READ_TYPE_FILE | TFTP_READ_TYPE_DIRECTORY | TFTP_READ_TYPE_INVALID

text \<open>
  The descriptor of the source with what \<open>*error\<close> is set to: a file, an error, or undefined
  behaviour.
\<close>

datatype file_result = File_Opened file_object | File_Error u16 string | File_Fault

abbreviation not_defined :: u16 where
  "not_defined \<equiv> error_code_value TFTP_ERROR_NOT_DEFINED"

definition open_directory_as_memfile :: "os_env \<Rightarrow> string \<Rightarrow> string option \<Rightarrow> file_result" where
  "open_directory_as_memfile os filename root_dir =
     (case (case root_dir of None \<Rightarrow> Some filename | Some r \<Rightarrow> get_full_path filename r) of
        None \<Rightarrow> File_Fault
      | Some dir_path \<Rightarrow>
          if root_dir \<noteq> None \<and> \<not> os_malloc_ok os
          then File_Error not_defined ''Could not allocate memory to calculate the directory path.''
          else case os_opendir os dir_path of
              None \<Rightarrow> File_Error (error_code_value TFTP_ERROR_FILE_NOT_FOUND) ''Could not open directory.''
            | Some entries \<Rightarrow>
                if \<not> os_pipe_ok os then File_Error not_defined ''Could not create pipe.''
                else if \<not> os_pipe_size_ok os then File_Error not_defined ''Could not set pipe size.''
                else if entries \<noteq> [] \<and> \<not> os_pipe_write_ok os
                then File_Error not_defined ''Could not write to pipe.''
                else File_Opened \<lparr>contents = concat (map (\<lambda>e. e @ [CHR 0x0A]) entries),
                                  file_offset = 0, kind = Not_Seekable\<rparr>)"

definition session_file_init ::
    "os_env \<Rightarrow> string \<Rightarrow> string option \<Rightarrow> session_file_mode \<Rightarrow> tftp_read_type \<Rightarrow> file_result" where
  "session_file_init os filename root_dir mode read_type =
     (if mode = SESSION_FILE_MODE_READ \<and> read_type = TFTP_READ_TYPE_DIRECTORY
      then open_directory_as_memfile os filename root_dir
      else case (case root_dir of None \<Rightarrow> Some filename | Some r \<Rightarrow> get_full_path filename r) of
          None \<Rightarrow> File_Fault
        | Some path \<Rightarrow>
            if root_dir \<noteq> None \<and> \<not> os_malloc_ok os
            then File_Error not_defined ''Could not allocate memory to calculate the file path.''
            else case os_open os path (mode = SESSION_FILE_MODE_WRITE) of
                Inr f \<Rightarrow> File_Opened f
              | Inl errno \<Rightarrow>
                  if errno = 13
                  then File_Error (error_code_value TFTP_ERROR_ACCESS_VIOLATION) ''Permission denied.''
                  else if errno = 2
                  then File_Error (error_code_value TFTP_ERROR_FILE_NOT_FOUND) ''No such file or directory.''
                  else File_Error not_defined (os_strerror os errno))"

section \<open>Sizes\<close>

definition file_size_octet :: "os_env \<Rightarrow> file_object \<Rightarrow> nat option" where
  "file_size_octet os f =
     (if \<not> os_stat_ok os then None
      else case kind f of
          Block_Device \<Rightarrow> if os_ioctl_ok os then Some (length (contents f)) else None
        | Regular_File \<Rightarrow> Some (length (contents f))
        | Not_Seekable \<Rightarrow> None)"

definition is_eol :: "byte \<Rightarrow> bool" where
  "is_eol c \<longleftrightarrow> c = CHR 0x0A \<or> c = CHR 0x0D"

definition io_buffer_size :: nat where
  "io_buffer_size = 4096"

text \<open>
  The loop of \<open>file_size_netascii\<close>.  \<open>buffer\<close> is the heap block, whose first contents are whatever
  \<open>malloc\<close> returns; the inner loop counts the line ends of the whole block, not of the bytes just
  read.  \<open>None\<close> is a loop that does not end: the file is shorter than its size says.  \<open>Some (None, f)\<close> is
  a \<open>read\<close> that fails.
\<close>

function netascii_size_loop ::
    "os_env \<Rightarrow> byte list \<Rightarrow> file_object \<Rightarrow> nat \<Rightarrow> nat \<Rightarrow> (nat option \<times> file_object) option" where
  "netascii_size_loop os buffer f bytes_to_read netascii_size =
     (if bytes_to_read = 0 then Some (Some netascii_size, f)
      else if \<not> os_read_ok os f then Some (None, f)
      else case file_read io_buffer_size f of (bs, f') \<Rightarrow>
        if bs = [] then None
        else let buffer' = bs @ drop (length bs) buffer
             in netascii_size_loop os buffer' f' (bytes_to_read - length bs)
                  (netascii_size + length bs + length (filter is_eol (take io_buffer_size buffer'))))"
  by pat_completeness auto
termination
  by (relation "measure (\<lambda>(os, buffer, f, n, k). n)") auto

declare netascii_size_loop.simps [simp del]

text \<open>
  \<open>Inl ()\<close> is the diverging loop; \<open>Inr (None, f)\<close> is \<open>false\<close>.  After a failure the file keeps the offset it
  has got to.
\<close>

definition file_size_netascii ::
    "os_env \<Rightarrow> byte list \<Rightarrow> file_object \<Rightarrow> unit + nat option \<times> file_object" where
  "file_size_netascii os heap_block f =
     (case file_size_octet os f of
        None \<Rightarrow> Inr (None, f)
      | Some bytes_to_read \<Rightarrow>
          if \<not> os_malloc_ok os then Inr (None, f)
          else case netascii_size_loop os heap_block f bytes_to_read 0 of
              None \<Rightarrow> Inl ()
            | Some (None, f') \<Rightarrow> Inr (None, f')
            | Some (Some n, f') \<Rightarrow>
                if os_lseek_ok os then Inr (Some n, f'\<lparr>file_offset := 0\<rparr>) else Inr (None, f'))"

section \<open>What they compute\<close>

lemma file_read_length: "length (fst (file_read n f)) = min n (length (contents f) - file_offset f)"
  by (simp add: file_read_def Let_def min.commute)

lemma file_read_frame [simp]:
  "contents (snd (file_read n f)) = contents f" "kind (snd (file_read n f)) = kind f"
  by (simp_all add: file_read_def Let_def)

text \<open>Consecutive reads deliver consecutive pieces of the file.\<close>

lemma file_read_read:
  "file_read n f = (bs, f') \<Longrightarrow> fst (file_read m f') = take m (drop (file_offset f + length bs) (contents f))"
  by (auto simp: file_read_def Let_def)


definition plain_os :: os_env where
  "plain_os = \<lparr>os_open = (\<lambda>p w. Inl 2), os_opendir = (\<lambda>p. None), os_strerror = (\<lambda>e. ''error''),
     os_malloc_ok = True, os_pipe_ok = True, os_pipe_size_ok = True, os_pipe_write_ok = True,
     os_stat_ok = True, os_ioctl_ok = True, os_read_ok = (\<lambda>f. True), os_lseek_ok = True,
     os_descriptor = 3\<rparr>"


definition eol_count :: "byte list \<Rightarrow> nat" where
  "eol_count bs = length (filter is_eol bs)"

lemma eol_count_append [simp]: "eol_count (xs @ ys) = eol_count xs + eol_count ys"
  by (simp add: eol_count_def)

lemma eol_count_split: "eol_count xs = eol_count (take n xs) + eol_count (drop n xs)"
  by (metis append_take_drop_id eol_count_append)

lemma netascii_loop_whole_blocks:
  assumes "bytes = length (contents f) - file_offset f" and "io_buffer_size dvd bytes"
    and "length buffer = io_buffer_size" and "\<forall>f. os_read_ok os f"
  shows "\<exists>f'. netascii_size_loop os buffer f bytes n
     = Some (Some (n + bytes + eol_count (drop (file_offset f) (contents f))), f') \<and> contents f' = contents f \<and> kind f' = kind f"
  using assms
proof (induction os buffer f bytes n rule: netascii_size_loop.induct)
  case (1 os buffer f bytes n)
  show ?case
  proof (cases "bytes = 0")
    case True
    then show ?thesis using "1.prems" by (simp add: netascii_size_loop.simps [of os buffer] eol_count_def)
  next
    case False
    obtain bs f' where r: "file_read io_buffer_size f = (bs, f')" by fastforce
    have ge: "io_buffer_size \<le> bytes" using "1.prems"(2) False by (auto dest: dvd_imp_le)
    have bs: "bs = take io_buffer_size (drop (file_offset f) (contents f))"
      and f': "f' = f\<lparr>file_offset := file_offset f + length bs\<rparr>"
      using r by (auto simp: file_read_def Let_def)
    have len: "length bs = io_buffer_size" using ge "1.prems"(1) by (simp add: bs)
    then have ne: "bs \<noteq> []" by (auto simp: io_buffer_size_def)
    have buf: "bs @ drop (length bs) buffer = bs" using len "1.prems"(3) by simp
    have rest: "bytes - length bs = length (contents f') - file_offset f'"
      using "1.prems"(1) by (simp add: f')
    have dvd: "io_buffer_size dvd bytes - length bs" using "1.prems"(2) ge by (simp add: len)
    have step: "netascii_size_loop os buffer f bytes n
        = netascii_size_loop os bs f' (bytes - length bs) (n + length bs + eol_count bs)"
      using False ne r buf "1.prems"(4)
      by (subst netascii_size_loop.simps) (simp add: Let_def eol_count_def len)
    have "\<exists>f''. netascii_size_loop os bs f' (bytes - length bs) (n + length bs + eol_count bs)
        = Some (Some (n + length bs + eol_count bs + (bytes - length bs)
                + eol_count (drop (file_offset f') (contents f'))), f'')
        \<and> contents f'' = contents f' \<and> kind f'' = kind f'"
      using "1.IH" [OF False _ r [symmetric] ne refl] rest dvd len "1.prems"(4)
      unfolding buf eol_count_def by simp
    moreover have "eol_count (drop (file_offset f) (contents f))
        = eol_count bs + eol_count (drop (file_offset f') (contents f'))"
      using eol_count_split [of "drop (file_offset f) (contents f)" io_buffer_size] len
      by (simp add: bs f' add.commute)
    ultimately show ?thesis
      using ge unfolding step by (auto simp: f' len)
  qed
qed

text \<open>
  \<open>file_size_netascii\<close> announces the right size, one extra byte for each line feed and carriage
  return, for a file of a whole number of 4096-byte blocks.  For a shorter file it also counts the
  line ends among the bytes the heap block happens to hold behind the data.
\<close>

theorem netascii_tsize:
  assumes "os_stat_ok os" and "os_malloc_ok os" and "kind f = Regular_File" and "file_offset f = 0"
    and "length heap_block = 4096" and "\<forall>f. os_read_ok os f" and "os_lseek_ok os"
  shows "(4096 dvd length (contents f) \<longrightarrow>
      (\<exists>f'. file_size_netascii os heap_block f
         = Inr (Some (length (contents f) + eol_count (contents f)), f') \<and> contents f' = contents f))
    \<and> (0 < length (contents f) \<and> length (contents f) \<le> 4096 \<longrightarrow>
      (\<exists>f'. file_size_netascii os heap_block f
         = Inr (Some (length (contents f) + eol_count (contents f)
                      + eol_count (drop (length (contents f)) heap_block)), f')
         \<and> contents f' = contents f))"
proof (intro conjI impI)
  have sz: "file_size_octet os f = Some (length (contents f))"
    using assms by (simp add: file_size_octet_def)
  {
    assume "4096 dvd length (contents f)"
    then show "\<exists>f'. file_size_netascii os heap_block f
         = Inr (Some (length (contents f) + eol_count (contents f)), f') \<and> contents f' = contents f"
      using netascii_loop_whole_blocks [of "length (contents f)" f heap_block os 0] assms sz
      by (auto simp: file_size_netascii_def io_buffer_size_def)
  }
  assume l: "0 < length (contents f) \<and> length (contents f) \<le> 4096"
  have r: "file_read io_buffer_size f = (contents f, f\<lparr>file_offset := length (contents f)\<rparr>)"
    using assms l by (simp add: file_read_def io_buffer_size_def Let_def)
  have "netascii_size_loop os heap_block f (length (contents f)) 0
      = Some (Some (length (contents f) + eol_count (contents f @ drop (length (contents f)) heap_block)),
              f\<lparr>file_offset := length (contents f)\<rparr>)"
    using l assms(5,6) r
    by (simp add: netascii_size_loop.simps Let_def eol_count_def io_buffer_size_def)
  then show "\<exists>f'. file_size_netascii os heap_block f
         = Inr (Some (length (contents f) + eol_count (contents f)
                      + eol_count (drop (length (contents f)) heap_block)), f')
         \<and> contents f' = contents f"
    using assms sz by (simp add: file_size_netascii_def)
qed

theorem netascii_tsize_witness:
  "\<exists>f'. file_size_netascii plain_os (replicate 4096 (CHR 0x0A))
      \<lparr>contents = ''ab'', file_offset = 0, kind = Regular_File\<rparr> = Inr (Some 4096, f')"
proof -
  have "drop 2 (replicate 4096 (CHR 0x0A)) = replicate 4094 (CHR 0x0A)" by simp
  moreover have "eol_count (replicate 4094 (CHR 0x0A)) = 4094"
    by (simp add: eol_count_def is_eol_def filter_replicate)
  moreover have "os_stat_ok plain_os" "os_malloc_ok plain_os" "\<forall>f. os_read_ok plain_os f" "os_lseek_ok plain_os" by (simp_all add: plain_os_def)
  ultimately show ?thesis
    using netascii_tsize [of plain_os "\<lparr>contents = ''ab'', file_offset = 0, kind = Regular_File\<rparr>"
        "replicate 4096 (CHR 0x0A)"]
    by (auto simp: eol_count_def is_eol_def)
qed

end
