(* ===== verification/Tftp_Session_Options.thy ===== *)
theory Tftp_Session_Options
  imports Tftp_Options Tftp_Server_File
begin

text \<open>
  Option negotiation on the server: \<open>tftp/src/server/session_options.c\<close>, with the token count of
  \<open>is_request_valid\<close> (\<open>session.c\<close>).

  The C structure holds pointers to the mode, timeout, block size, window size and adaptive flag of
  the session; these targets are the record \<open>transfer_params\<close>, which the functions return updated.
  \<open>options_storage\<close> is the array of 510 bytes the request is copied to; \<open>options_str\<close>, \<open>mode_str\<close>
  and the values of the recognised options are positions in it.  A read or write outside the array
  is \<open>None\<close>.
\<close>

section \<open>State\<close>

record session_options =
  valid_options_required :: bool
  options_acknowledged :: bool
  recognized_options :: tftp_options
  options_storage :: "byte list"
  options_str :: "nat option"
  options_str_size :: nat
  mode_str :: nat

record transfer_params =
  p_mode :: tftp_mode
  p_timeout :: u8
  p_block_size :: u16
  p_window_size :: u16
  p_adaptive_timeout :: bool

definition options_storage_size :: nat where
  "options_storage_size = 510"

definition zero_storage :: "byte list" where
  "zero_storage = replicate options_storage_size NUL"

text \<open>The same array written out, for evaluation: \<open>510 = 17 * 5 * 3 * 2\<close>.\<close>

lemma zero_storage_code [code]:
  "zero_storage =
     (let a = [NUL, NUL, NUL, NUL, NUL, NUL, NUL, NUL, NUL, NUL, NUL, NUL, NUL, NUL, NUL, NUL, NUL];
          b = a @ a @ a @ a @ a; c = b @ b @ b
      in c @ c)"
proof -
  have a: "[NUL, NUL, NUL, NUL, NUL, NUL, NUL, NUL, NUL, NUL, NUL, NUL, NUL, NUL, NUL, NUL, NUL]
      = replicate 17 NUL" by (simp add: eval_nat_numeral)
  show ?thesis
    unfolding Let_def a zero_storage_def options_storage_size_def by (simp add: replicate_add [symmetric])
qed

definition empty_session_options :: session_options where
  "empty_session_options =
     \<lparr>valid_options_required = False, options_acknowledged = False, recognized_options = no_options,
      options_storage = zero_storage, options_str = None,
      options_str_size = 0, mode_str = 0\<rparr>"

section \<open>The request as a list of strings\<close>

text \<open>
  The loop of \<open>is_request_valid\<close>: \<open>ptr\<close> runs from the first byte after the opcode, \<open>last\<close> is the
  position of the last byte of the datagram.
\<close>

function request_tokens :: "byte list \<Rightarrow> nat \<Rightarrow> nat \<Rightarrow> nat" where
  "request_tokens mem ptr last_pos =
     (if ptr < last_pos then
        (let window = take (last_pos + 1 - ptr) (drop ptr mem)
         in if NUL \<in> set window
            then 1 + request_tokens mem (ptr + length (takeWhile (\<lambda>c. c \<noteq> NUL) window) + 1) last_pos
            else 0)
      else 0)"
  by pat_completeness auto
termination
  by (relation "measure (\<lambda>(mem, ptr, last_pos). last_pos - ptr)") auto

declare request_tokens.simps [simp del]

definition request_tokens_valid :: "byte list \<Rightarrow> nat \<Rightarrow> bool" where
  "request_tokens_valid mem n =
     (let k = request_tokens mem 2 (n - 1) in 2 \<le> k \<and> even k)"

section \<open>Initialisation\<close>

definition parse_mode :: "string \<Rightarrow> bool \<times> tftp_mode" where
  "parse_mode s =
     (if strcaseeq s ''octet'' then (True, TFTP_MODE_OCTET)
      else if strcaseeq s ''netascii'' then (True, TFTP_MODE_NETASCII)
      else (False, TFTP_MODE_INVALID))"

text \<open>
  \<open>options\<close> are the \<open>n\<close> bytes after the opcode.  The result is the return value, the options, the
  mode and the error that is reported.
\<close>

definition session_options_init ::
    "byte list \<Rightarrow> (bool \<times> session_options \<times> tftp_mode \<times> (u16 \<times> string) option) option" where
  "session_options_init options =
     (let n = length options;
          storage = options @ drop n zero_storage
      in if n > options_storage_size then None
         else case cstr_at storage 0 of None \<Rightarrow> None
         | Some path \<Rightarrow>
             let mode_pos = length path + 1
             in case cstr_at storage mode_pos of None \<Rightarrow> None
             | Some mode_string \<Rightarrow>
                 let size' = size_sub n (length path + 1 + length mode_string + 1);
                     so = empty_session_options
                            \<lparr>options_storage := storage, mode_str := mode_pos, options_str_size := size',
                             options_str := if size' = 0 then None else Some (size_sub n size')\<rparr>
                 in case parse_mode mode_string of (ok, m) \<Rightarrow>
                   Some (ok, so, m,
                         if ok then None
                         else Some (error_code_value TFTP_ERROR_ILLEGAL_OPERATION, ''Unknown mode.'')))"

section \<open>Reading the options of a request\<close>

text \<open>
  The second walk over the options, for \<open>timeout=adaptive\<close>; \<open>Some True\<close> when it is found.
\<close>

function find_adaptive :: "byte list \<Rightarrow> nat \<Rightarrow> nat \<Rightarrow> bool option" where
  "find_adaptive mem option stop =
     (if option + 1 < stop then
        (case cstr_at mem option of
           None \<Rightarrow> None
         | Some name \<Rightarrow>
             (let i = option + length name + 1 in
              case cstr_at mem i of
                None \<Rightarrow> None
              | Some v \<Rightarrow>
                  if strcaseeq name (tftp_option_recognized_string TFTP_OPTION_TIMEOUT)
                     \<and> strcaseeq v ''adaptive''
                  then Some True
                  else find_adaptive mem (i + length v + 1) stop))
      else Some False)"
  by pat_completeness auto
termination
  by (relation "measure (\<lambda>(mem, option, stop). stop - option)") auto

declare find_adaptive.simps [simp del]

definition value_of :: "session_options \<Rightarrow> tftp_option_recognized \<Rightarrow> string option" where
  "value_of so o' = deref (options_storage so) (val (recognized_options so o'))"

text \<open>\<open>sprintf((char *) value, "%zu", size)\<close>: in place in the storage, or into the heap block.\<close>

definition sprintf_size :: "session_options \<Rightarrow> nat \<Rightarrow> session_options option" where
  "sprintf_size so sz =
     (case val (recognized_options so TFTP_OPTION_TSIZE) of
        Null \<Rightarrow> None
      | Cstr _ \<Rightarrow>
          Some (so\<lparr>recognized_options := (recognized_options so)
                     (TFTP_OPTION_TSIZE := \<lparr>is_active = True, val = Cstr (show_dec sz)\<rparr>)\<rparr>)
      | At i \<Rightarrow>
          if i + length (zstr (show_dec sz)) > length (options_storage so) then None
          else Some (so\<lparr>options_storage := splice i (zstr (show_dec sz)) (options_storage so)\<rparr>))"

text \<open>
  The body of the loop over the recognised options.  \<open>file_size\<close> stands for the query of the open
  file: \<open>Inl ()\<close> when it does not return, \<open>Inr None\<close> when it fails.
\<close>

fun apply_option ::
    "unit + nat option \<Rightarrow> tftp_option_recognized \<Rightarrow> session_options \<times> transfer_params
     \<Rightarrow> (session_options \<times> transfer_params) option" where
  "apply_option file_size TFTP_OPTION_BLKSIZE (so, p) =
     (case value_of so TFTP_OPTION_BLKSIZE of None \<Rightarrow> None
      | Some v \<Rightarrow> Some (so, p\<lparr>p_block_size := word_of_nat (fst (strtoul_c v))\<rparr>))"
| "apply_option file_size TFTP_OPTION_TIMEOUT (so, p) =
     (case value_of so TFTP_OPTION_TIMEOUT of None \<Rightarrow> None
      | Some v \<Rightarrow>
          if strcaseeq v ''adaptive'' then Some (so, p\<lparr>p_adaptive_timeout := True\<rparr>)
          else Some (so, p\<lparr>p_timeout := word_of_nat (fst (strtoul_c v))\<rparr>))"
| "apply_option file_size TFTP_OPTION_TSIZE (so, p) =
     (case file_size of
        Inl _ \<Rightarrow> None
      | Inr None \<Rightarrow>
          Some (so\<lparr>recognized_options := (recognized_options so)
                     (TFTP_OPTION_TSIZE := (recognized_options so TFTP_OPTION_TSIZE)\<lparr>is_active := False\<rparr>)\<rparr>, p)
      | Inr (Some n) \<Rightarrow> map_option (\<lambda>so'. (so', p)) (sprintf_size so n))"
| "apply_option file_size TFTP_OPTION_WINDOWSIZE (so, p) =
     (case value_of so TFTP_OPTION_WINDOWSIZE of None \<Rightarrow> None
      | Some v \<Rightarrow> Some (so, p\<lparr>p_window_size := word_of_nat (fst (strtoul_c v))\<rparr>))"
| "apply_option file_size TFTP_OPTION_READ_TYPE (so, p) = Some (so, p)"

fun apply_options ::
    "unit + nat option \<Rightarrow> tftp_option_recognized list \<Rightarrow> session_options \<times> transfer_params
     \<Rightarrow> (session_options \<times> transfer_params) option" where
  "apply_options file_size [] sp = Some sp"
| "apply_options file_size (o' # os) sp =
     (if is_active (recognized_options (fst sp) o') then
        (case apply_option file_size o'
                (fst sp\<lparr>valid_options_required := True\<rparr>, snd sp) of
           None \<Rightarrow> None
         | Some sp' \<Rightarrow> apply_options file_size os sp')
      else apply_options file_size os sp)"

definition parse_options ::
    "unit + nat option \<Rightarrow> bool \<Rightarrow> bool \<Rightarrow> session_options \<times> transfer_params
     \<Rightarrow> (session_options \<times> transfer_params) option" where
  "parse_options file_size is_adaptive_timeout_enabled is_list_request_enabled sp =
     (case sp of (so, p) \<Rightarrow>
      case options_str so of None \<Rightarrow> None | Some str \<Rightarrow>
      case tftp_parse_options (recognized_options so) (options_storage so) str (options_str_size so) of
        None \<Rightarrow> None
      | Some r \<Rightarrow>
          let r = (if is_list_request_enabled then r
                   else r(TFTP_OPTION_READ_TYPE := (r TFTP_OPTION_READ_TYPE)\<lparr>is_active := False\<rparr>))
          in case (if is_adaptive_timeout_enabled
                   then find_adaptive (options_storage so) str (str + options_str_size so)
                   else Some False) of
               None \<Rightarrow> None
             | Some adaptive \<Rightarrow>
                 let r = (if adaptive
                          then r(TFTP_OPTION_TIMEOUT := \<lparr>is_active = True, val = Cstr ''adaptive''\<rparr>)
                          else r);
                     p = (if adaptive then p\<lparr>p_adaptive_timeout := True\<rparr> else p)
                 in apply_options file_size all_options (so\<lparr>recognized_options := r\<rparr>, p))"

definition session_options_get_read_type ::
    "session_options \<Rightarrow> (session_options \<times> tftp_read_type) option" where
  "session_options_get_read_type so =
     (case options_str so of None \<Rightarrow> None | Some str \<Rightarrow>
      case tftp_parse_options (recognized_options so) (options_storage so) str (options_str_size so) of
        None \<Rightarrow> None
      | Some r \<Rightarrow>
          let so' = so\<lparr>recognized_options := r\<rparr>
          in if \<not> is_active (r TFTP_OPTION_READ_TYPE) then Some (so', TFTP_READ_TYPE_FILE)
             else case value_of so' TFTP_OPTION_READ_TYPE of
                 None \<Rightarrow> None
               | Some v \<Rightarrow>
                   Some (so', if strcaseeq v ''directory'' then TFTP_READ_TYPE_DIRECTORY
                              else TFTP_READ_TYPE_INVALID))"

section \<open>Building the acknowledgement\<close>

text \<open>The loops of \<open>oack_packet_init\<close>: measure, then copy; here the bytes copied.\<close>

fun oack_values :: "session_options \<Rightarrow> tftp_option_recognized list \<Rightarrow> byte list option" where
  "oack_values so [] = Some []"
| "oack_values so (o' # os) =
     (if is_active (recognized_options so o') then
        (case (value_of so o', oack_values so os) of
           (Some v, Some rest) \<Rightarrow> Some (zstr (tftp_option_recognized_string o') @ zstr v @ rest)
         | _ \<Rightarrow> None)
      else oack_values so os)"

definition oack_packet_bytes :: "session_options \<Rightarrow> byte list option" where
  "oack_packet_bytes so =
     map_option (\<lambda>vs. be16 (opcode_value TFTP_OPCODE_OACK) @ vs) (oack_values so all_options)"

section \<open>Negotiated values\<close>

definition params_ok :: "transfer_params \<Rightarrow> bool" where
  "params_ok p \<longleftrightarrow> 8 \<le> unat (p_block_size p) \<and> unat (p_block_size p) \<le> 65464
     \<and> 1 \<le> unat (p_timeout p) \<and> 1 \<le> unat (p_window_size p)"

lemma unat_word16_of_nat: "n < 65536 \<Longrightarrow> unat (word_of_nat n :: u16) = n"
  by (simp add: unsigned_of_nat take_bit_nat_eq_self_iff)

lemma unat_word8_of_nat: "n < 256 \<Longrightarrow> unat (word_of_nat n :: u8) = n"
  by (simp add: unsigned_of_nat take_bit_nat_eq_self_iff)

text \<open>What the earlier steps of the loop leave alone.\<close>

definition same_options :: "session_options \<Rightarrow> session_options \<Rightarrow> bool" where
  "same_options so so' \<longleftrightarrow> recognized_options so' = recognized_options so
     \<and> options_storage so' = options_storage so"

definition value_ok :: "session_options \<Rightarrow> tftp_option_recognized \<Rightarrow> bool" where
  "value_ok so o' \<longleftrightarrow> (is_active (recognized_options so o') \<longrightarrow>
     (\<exists>v. value_of so o' = Some v
        \<and> (acceptable o' v \<or> o' = TFTP_OPTION_TIMEOUT \<and> strcaseeq v ''adaptive'')))"

lemma value_ok_same: "same_options so so' \<Longrightarrow> value_ok so' o' = value_ok so o'"
  by (simp add: same_options_def value_ok_def value_of_def)

declare apply_options.simps [simp del]

lemma apply_option_params:
  assumes "apply_option fs o' (so, p) = Some (so', p')" and "value_ok so o'"
    and "is_active (recognized_options so o')" and "params_ok p"
  shows "params_ok p'"
  using assms
  by (cases o')
    (auto simp: value_ok_def params_ok_def unat_word16_of_nat unat_word8_of_nat split: if_splits option.splits sum.splits)

lemma apply_option_frame:
  "apply_option fs o' (so, p) = Some (so', p') \<Longrightarrow> o' \<noteq> TFTP_OPTION_TSIZE \<Longrightarrow> so' = so"
  by (cases o') (auto split: option.splits if_splits)

lemma apply_option_tsize:
  assumes "apply_option fs TFTP_OPTION_TSIZE (so, p) = Some (so', p')"
  shows "p' = p"
    and "\<forall>i. val (recognized_options so' TFTP_OPTION_TSIZE) \<noteq> At i \<Longrightarrow>
         options_storage so' = options_storage so
         \<and> (\<forall>o'. o' \<noteq> TFTP_OPTION_TSIZE \<longrightarrow> recognized_options so' o' = recognized_options so o')"
  using assms
  by (auto simp: sprintf_size_def split: option.splits sum.splits strptr.splits if_splits)

lemma apply_options_Cons_cases:
  assumes "apply_options fs (o' # os) (so, p) = Some r"
  obtains (skip) "\<not> is_active (recognized_options so o')" "apply_options fs os (so, p) = Some r"
  | (step) so' p' where "is_active (recognized_options so o')"
      "apply_option fs o' (so\<lparr>valid_options_required := True\<rparr>, p) = Some (so', p')"
      "apply_options fs os (so', p') = Some r"
  using assms by (auto simp: apply_options.simps split: if_splits option.splits)

text \<open>One step for an option other than the size.\<close>

lemma apply_options_step:
  assumes "apply_options fs (o' # os) (so, p) = Some r" and "o' \<noteq> TFTP_OPTION_TSIZE"
    and "value_ok so o'" and "params_ok p"
  obtains so1 p1 where "apply_options fs os (so1, p1) = Some r" "same_options so so1" "params_ok p1"
  using assms(1)
proof (cases rule: apply_options_Cons_cases)
  case skip
  then show thesis using assms(4) that by (simp add: same_options_def)
next
  case (step so' p')
  let ?so = "so\<lparr>valid_options_required := True\<rparr>"
  have so': "so' = ?so" using apply_option_frame [OF step(2) assms(2)] .
  have "value_ok ?so o'" using assms(3) by (simp add: value_ok_def value_of_def)
  then have "params_ok p'"
    using apply_option_params [OF step(2)] step(1) assms(4) by simp
  then show thesis using that step(3) by (simp add: so' same_options_def)
qed

lemma apply_options_params:
  assumes "apply_options fs all_options (so, p) = Some (so', p')"
    and ok: "\<And>o'. value_ok so o'" and "params_ok p"
  shows "8 \<le> unat (p_block_size p') \<and> unat (p_block_size p') \<le> 65464 \<and> 1 \<le> unat (p_timeout p')"
    and "\<forall>i. val (recognized_options so' TFTP_OPTION_TSIZE) \<noteq> At i \<Longrightarrow> params_ok p'"
proof -
  obtain so1 p1 where 1: "apply_options fs [TFTP_OPTION_TIMEOUT, TFTP_OPTION_TSIZE,
        TFTP_OPTION_WINDOWSIZE, TFTP_OPTION_READ_TYPE] (so1, p1) = Some (so', p')"
      "same_options so so1" "params_ok p1"
    by (rule apply_options_step [OF assms(1) [unfolded all_options_def] _ ok assms(3)]) simp_all
  have ok1: "value_ok so1 TFTP_OPTION_TIMEOUT" using ok value_ok_same [OF 1(2)] by simp
  obtain so2 p2 where 2: "apply_options fs [TFTP_OPTION_TSIZE, TFTP_OPTION_WINDOWSIZE,
        TFTP_OPTION_READ_TYPE] (so2, p2) = Some (so', p')"
      "same_options so1 so2" "params_ok p2"
    by (rule apply_options_step [OF 1(1) _ ok1 1(3)]) simp_all
  have same2: "same_options so so2" using 1(2) 2(2) by (simp add: same_options_def)
  obtain so3 where 3: "apply_options fs [TFTP_OPTION_WINDOWSIZE, TFTP_OPTION_READ_TYPE] (so3, p2) = Some (so', p')"
    and frame: "(\<forall>i. val (recognized_options so3 TFTP_OPTION_TSIZE) \<noteq> At i) \<Longrightarrow>
           options_storage so3 = options_storage so
           \<and> (\<forall>o'. o' \<noteq> TFTP_OPTION_TSIZE \<longrightarrow> recognized_options so3 o' = recognized_options so o')"
    using 2(1)
  proof (cases rule: apply_options_Cons_cases)
    case skip
    then show thesis using same2 by (intro that [of so2]) (simp_all add: same_options_def)
  next
    case (step so3 p3)
    show thesis
      using apply_option_tsize [OF step(2)] step(3) same2
      by (intro that [of so3]) (auto simp: same_options_def)
  qed
  have last: "p_block_size p' = p_block_size p2 \<and> p_timeout p' = p_timeout p2
      \<and> recognized_options so' = recognized_options so3"
    using 3 by (auto simp: apply_options.simps split: if_splits option.splits)
  then show "8 \<le> unat (p_block_size p') \<and> unat (p_block_size p') \<le> 65464 \<and> 1 \<le> unat (p_timeout p')"
    using 2(3) by (simp add: params_ok_def)
  assume "\<forall>i. val (recognized_options so' TFTP_OPTION_TSIZE) \<noteq> At i"
  then have "value_ok so3 TFTP_OPTION_WINDOWSIZE"
    using frame last ok [of TFTP_OPTION_WINDOWSIZE] by (simp add: value_ok_def value_of_def)
  from apply_options_step [OF 3 _ this 2(3)] obtain so4 p4
    where "apply_options fs [TFTP_OPTION_READ_TYPE] (so4, p4) = Some (so', p')" "params_ok p4"
    by blast
  then show "params_ok p'" by (auto simp: apply_options.simps split: if_splits)
qed

text \<open>
  C18: Negotiated parameters are in range: whatever options a client sends, the block size the
  session uses afterwards is between 8 and 65464 and the timeout is at least one second, and the
  window size is at least one unless the client sent a nonzero \<open>tsize\<close>.
\<close>

theorem negotiated_params_in_range:
  assumes "parse_options file_size adaptive_enabled list_enabled (so, p) = Some (so', p')"
    and "recognized_options so = no_options" and "params_ok p"
  shows "8 \<le> unat (p_block_size p') \<and> unat (p_block_size p') \<le> 65464 \<and> 1 \<le> unat (p_timeout p')
    \<and> ((\<forall>i. val (recognized_options so' TFTP_OPTION_TSIZE) \<noteq> At i) \<longrightarrow> 1 \<le> unat (p_window_size p'))"
proof -
  obtain str r where str: "options_str so = Some str"
    and r: "tftp_parse_options no_options (options_storage so) str (options_str_size so) = Some r"
    using assms(1,2) by (auto simp: parse_options_def split: option.splits)
  have ok: "options_ok (options_storage so) r"
    using r options_ok_none unfolding tftp_parse_options_def by (rule parse_options_loop_ok)
  let ?r1 = "if list_enabled then r
             else r(TFTP_OPTION_READ_TYPE := (r TFTP_OPTION_READ_TYPE)\<lparr>is_active := False\<rparr>)"
  obtain ad where run: "apply_options file_size all_options
      (so\<lparr>recognized_options := (if ad then ?r1(TFTP_OPTION_TIMEOUT := \<lparr>is_active = True, val = Cstr ''adaptive''\<rparr>) else ?r1)\<rparr>,
       if ad then p\<lparr>p_adaptive_timeout := True\<rparr> else p) = Some (so', p')"
    using assms(1) r str assms(2) by (auto simp: parse_options_def Let_def split: option.splits)
  have vals: "value_ok (so\<lparr>recognized_options := (if ad then ?r1(TFTP_OPTION_TIMEOUT := \<lparr>is_active = True, val = Cstr ''adaptive''\<rparr>) else ?r1)\<rparr>) o'" for o'
    using ok by (auto simp: value_ok_def value_of_def options_ok_def strcaseeq_def)
  have p: "params_ok (if ad then p\<lparr>p_adaptive_timeout := True\<rparr> else p)"
    using assms(3) by (simp add: params_ok_def)
  show ?thesis
    using apply_options_params [OF run vals p] by (auto simp: params_ok_def)
qed

text \<open>Example requests; the storage array is cut to the bytes in use.\<close>

definition example_options :: "byte list \<Rightarrow> session_options" where
  "example_options str =
     empty_session_options\<lparr>options_storage := str, options_str := Some 0, options_str_size := length str\<rparr>"

definition default_params :: transfer_params where
  "default_params = \<lparr>p_mode = TFTP_MODE_OCTET, p_timeout = 2, p_block_size = tftp_default_blksize,
     p_window_size = tftp_default_window_size, p_adaptive_timeout = False\<rparr>"

theorem negotiated_params_in_range_witness:
  "\<exists>so' p'. parse_options (Inr (Some 0)) True True
       (example_options (zstr ''blksize'' @ zstr ''1428'' @ zstr ''windowsize'' @ zstr ''16''), default_params)
     = Some (so', p') \<and> p_block_size p' = 1428 \<and> p_window_size p' = 16
     \<and> 8 \<le> unat (p_block_size p') \<and> 1 \<le> unat (p_timeout p')"
proof -
  let ?so = "example_options (zstr ''blksize'' @ zstr ''1428'' @ zstr ''windowsize'' @ zstr ''16'')"
  have "map_option (\<lambda>(so', p'). p') (parse_options (Inr (Some 0)) True True (?so, default_params))
      = Some (default_params\<lparr>p_block_size := 1428, p_window_size := 16\<rparr>)"
    by code_simp
  then obtain so' where s: "parse_options (Inr (Some 0)) True True (?so, default_params)
      = Some (so', default_params\<lparr>p_block_size := 1428, p_window_size := 16\<rparr>)"
    by auto
  have "recognized_options ?so = no_options"
    by (simp add: example_options_def empty_session_options_def)
  moreover have "params_ok default_params" by code_simp
  ultimately show ?thesis
    using negotiated_params_in_range [OF s] s by auto
qed

text \<open>
  A nonzero \<open>tsize\<close> is answered by printing the file size over the request's own options.  If it
  is the last option of a full request, the digits run past the end of \<open>options_storage\<close> (undefined
  behaviour); if \<open>windowsize=8\<close> follows it and the size has thirteen digits, the terminating zero
  falls on the window size, which is then zero although the client asked for eight.
\<close>

theorem tsize_printed_over_options:
  "(length pre = 502 \<longrightarrow> parse_options (Inr (Some 1000000)) False False
     (empty_session_options\<lparr>options_storage := pre @ zstr ''tsize'' @ zstr ''1'',
        options_str := Some 502, options_str_size := 8\<rparr>, p) = None)
   \<and> map_option (\<lambda>(so', p'). p_window_size p')
       (parse_options (Inr (Some 1000000000000)) False False
          (example_options (zstr ''tsize'' @ zstr ''1'' @ zstr ''windowsize'' @ zstr ''8''), default_params)) = Some 0"
proof (intro conjI impI)
  assume pre: "length pre = 502"
  let ?mem = "pre @ zstr ''tsize'' @ zstr ''1''"
  have n: "cstr_at ?mem 502 = Some ''tsize''" and v: "cstr_at ?mem 508 = Some ''1''"
    using cstr_at_append [of "''tsize''" 502 pre "zstr ''1''"]
      cstr_at_append [of "''1''" 508 "pre @ zstr ''tsize''" "[]"] pre
    by (simp_all add: zstr_def)
  have "parse_one_option no_options ''tsize'' 508 ''1''
      = no_options(TFTP_OPTION_TSIZE := \<lparr>is_active = True, val = At 508\<rparr>)"
    by (simp add: parse_one_option_def option_named_def all_options_def strcaseeq_def tolower_c_def
        strtoul_c_def isspace_c_def isdigit_c_def digit_val_def ULONG_MAX_def skip_prefix_def Let_def)
  then have "tftp_parse_options no_options ?mem 502 8
      = Some (no_options(TFTP_OPTION_TSIZE := \<lparr>is_active = True, val = At 508\<rparr>))"
    using n v by (simp add: tftp_parse_options_def parse_options_loop.simps Let_def)
  moreover have "length (show_dec 1000000) = 7" by code_simp
  ultimately show "parse_options (Inr (Some 1000000)) False False
     (empty_session_options\<lparr>options_storage := ?mem, options_str := Some 502, options_str_size := 8\<rparr>, p) = None"
    using pre
    by (simp add: parse_options_def empty_session_options_def apply_options.simps all_options_def
        sprintf_size_def no_options_def)
qed code_simp

section \<open>The acknowledgement is read back by the client\<close>

lemma oack_values_wire:
  "oack_values so os = Some vs \<Longrightarrow>
   \<exists>kvs. map fst kvs = filter (\<lambda>o'. is_active (recognized_options so o')) os
     \<and> (\<forall>(o', v) \<in> set kvs. value_of so o' = Some v) \<and> vs = wire_options kvs"
proof (induction os arbitrary: vs)
  case Nil
  then show ?case by (simp add: wire_options_def)
next
  case (Cons o' os)
  show ?case
  proof (cases "is_active (recognized_options so o')")
    case False
    with Cons show ?thesis by simp
  next
    case True
    with Cons.prems obtain v rest where v: "value_of so o' = Some v"
      and rest: "oack_values so os = Some rest"
      and vs: "vs = zstr (tftp_option_recognized_string o') @ zstr v @ rest"
      by (auto split: option.splits)
    from Cons.IH [OF rest] obtain kvs where
      "map fst kvs = filter (\<lambda>o'. is_active (recognized_options so o')) os"
      "\<forall>(o', v) \<in> set kvs. value_of so o' = Some v" "rest = wire_options kvs" by blast
    with True v vs show ?thesis
      by (intro exI [of _ "(o', v) # kvs"]) (simp add: wire_options_def)
  qed
qed

text \<open>
  C17: What the server acknowledges is what the client reads: parsing the bytes after the opcode of
  an OACK packet gives exactly the options that are active in the session, each with the value the
  session put there (the size query \<open>"0"\<close> reads as the empty string), when these values are
  well-formed option values.
\<close>

theorem oack_roundtrip:
  assumes oack: "oack_packet_bytes so = Some p"
    and send: "\<And>o' v. is_active (recognized_options so o') \<Longrightarrow> value_of so o' = Some v \<Longrightarrow> sendable o' v"
  shows "tftp_get_opcode_unsafe p = Some (opcode_value TFTP_OPCODE_OACK)
    \<and> (\<exists>r. tftp_parse_options no_options p 2 (length p - 2) = Some r
        \<and> (\<forall>o'. is_active (r o') = is_active (recognized_options so o'))
        \<and> (\<forall>o'. is_active (recognized_options so o') \<longrightarrow>
              deref p (val (r o')) = map_option (received_value o') (value_of so o')))"
proof
  from oack obtain vs where vs: "oack_values so all_options = Some vs"
    and p: "p = be16 (opcode_value TFTP_OPCODE_OACK) @ vs"
    by (auto simp: oack_packet_bytes_def)
  show "tftp_get_opcode_unsafe p = Some (opcode_value TFTP_OPCODE_OACK)" by (simp add: p)
  from oack_values_wire [OF vs] obtain kvs where
    keys: "map fst kvs = filter (\<lambda>o'. is_active (recognized_options so o')) all_options"
    and vals: "\<forall>(o', v) \<in> set kvs. value_of so o' = Some v"
    and w: "vs = wire_options kvs" by blast
  have mem: "p = be16 (opcode_value TFTP_OPCODE_OACK) @ wire_options kvs" by (simp add: p w)
  have dist: "distinct (map fst kvs)" using all_options_order by (simp add: keys)
  have key_iff: "o' \<in> fst ` set kvs \<longleftrightarrow> is_active (recognized_options so o')" for o'
    using all_options_order by (metis (mono_tags, lifting) UNIV_I keys list.set_map mem_Collect_eq set_filter)
  have s: "sendable o' v" if "(o', v) \<in> set kvs" for o' v
    using that vals key_iff [of o'] by (force intro: send)
  from parse_wire_options [OF mem dist s, of no_options] obtain r where
    r: "parse_options_loop no_options p 2 (length p) = Some r"
    and act: "\<And>o' v. (o', v) \<in> set kvs \<Longrightarrow>
        is_active (r o') \<and> deref p (val (r o')) = Some (received_value o' v)"
    and out: "\<And>o'. o' \<notin> fst ` set kvs \<Longrightarrow> r o' = no_options o'"
    unfolding length_be16 by blast
  have "2 + (length p - 2) = length p" by (simp add: p)
  then have "tftp_parse_options no_options p 2 (length p - 2) = Some r"
    using r by (simp add: tftp_parse_options_def)
  moreover have "is_active (r o') = is_active (recognized_options so o')" for o'
    using act key_iff [of o'] out [of o'] by (cases "o' \<in> fst ` set kvs") (auto simp: no_options_def)
  moreover have "deref p (val (r o')) = map_option (received_value o') (value_of so o')"
    if "is_active (recognized_options so o')" for o'
    using that key_iff [of o'] act vals by fastforce
  ultimately show "\<exists>r. tftp_parse_options no_options p 2 (length p - 2) = Some r
        \<and> (\<forall>o'. is_active (r o') = is_active (recognized_options so o'))
        \<and> (\<forall>o'. is_active (recognized_options so o') \<longrightarrow>
              deref p (val (r o')) = map_option (received_value o') (value_of so o'))"
    by blast
qed

theorem oack_roundtrip_witness:
  "\<exists>r. tftp_parse_options no_options (be16 6 @ zstr ''windowsize'' @ zstr ''16'') 2 14 = Some r
     \<and> deref (be16 6 @ zstr ''windowsize'' @ zstr ''16'') (val (r TFTP_OPTION_WINDOWSIZE)) = Some ''16''"
proof -
  let ?o = "no_options(TFTP_OPTION_WINDOWSIZE := \<lparr>is_active = True, val = Cstr ''16''\<rparr>)"
  let ?so = "(example_options [])\<lparr>recognized_options := ?o\<rparr>"
  let ?p = "be16 6 @ zstr ''windowsize'' @ zstr ''16''"
  have o: "oack_packet_bytes ?so = Some ?p" by code_simp
  have ok: "sendable TFTP_OPTION_WINDOWSIZE ''16''" by code_simp
  have send: "sendable o' v"
    if "is_active (recognized_options ?so o')" and "value_of ?so o' = Some v" for o' v
    using that ok by (auto simp: no_options_def value_of_def split: if_splits)
  have "length ?p - 2 = 14" by simp
  with oack_roundtrip [OF o send] show ?thesis
    by (auto simp: value_of_def received_value_def)
qed

section \<open>A valid request can be read\<close>

lemma request_tokens_step:
  assumes "0 < request_tokens mem ptr l" and "l < length mem"
  obtains s where "cstr_at mem ptr = Some s" "ptr + length s \<le> l"
    "request_tokens mem ptr l = 1 + request_tokens mem (ptr + length s + 1) l"
proof -
  let ?w = "take (l + 1 - ptr) (drop ptr mem)"
  have lt: "ptr < l" and z: "NUL \<in> set ?w"
    using assms(1) by (auto simp: request_tokens.simps [of mem ptr] Let_def split: if_splits)
  have z': "NUL \<in> set (drop ptr mem)" using z by (meson in_set_takeD)
  have tw: "takeWhile (\<lambda>c. c \<noteq> NUL) ?w = takeWhile (\<lambda>c. c \<noteq> NUL) (drop ptr mem)"
  proof -
    obtain xs ys where w: "?w = xs @ NUL # ys" "NUL \<notin> set xs"
      using split_list_first [OF z] by auto
    have "drop ptr mem = (xs @ NUL # ys) @ drop (l + 1 - ptr) (drop ptr mem)"
      unfolding w(1) [symmetric] by (rule append_take_drop_id [symmetric])
    then have "drop ptr mem = xs @ NUL # (ys @ drop (l + 1 - ptr) (drop ptr mem))"
      by (simp only: append_assoc append_Cons)
    then show ?thesis unfolding w(1) using w(2) by (metis takeWhile_until_NUL)
  qed
  have "length (takeWhile (\<lambda>c. c \<noteq> NUL) ?w) < length ?w" using z by (rule length_takeWhile_less_mem)
  then have "ptr + length (takeWhile (\<lambda>c. c \<noteq> NUL) ?w) \<le> l" using lt assms(2) by simp
  moreover have "cstr_at mem ptr = Some (takeWhile (\<lambda>c. c \<noteq> NUL) ?w)"
    using z' tw by (simp add: cstr_at_def)
  moreover have "request_tokens mem ptr l
      = 1 + request_tokens mem (ptr + length (takeWhile (\<lambda>c. c \<noteq> NUL) ?w) + 1) l"
    using lt z by (simp add: request_tokens.simps [of mem ptr] Let_def)
  ultimately show thesis using that by blast
qed

text \<open>A string of the request is the same string of the copy in the storage.\<close>

lemma cstr_at_copy:
  assumes "cstr_at mem (2 + i) = Some s" and "2 + i + length s < n" and "n \<le> length mem"
  shows "cstr_at (take (n - 2) (drop 2 mem) @ t) i = Some s"
proof -
  have nz: "NUL \<notin> set s" by (rule cstr_at_Some_no_NUL [OF assms(1)])
  have d: "drop (2 + i) mem = s @ NUL # drop (2 + i + length s + 1) mem"
  proof -
    from assms(1) have z: "NUL \<in> set (drop (2 + i) mem)"
      and tw: "s = takeWhile (\<lambda>c. c \<noteq> NUL) (drop (2 + i) mem)"
      by (auto simp: cstr_at_def Let_def split: if_splits)
    obtain r where r: "dropWhile (\<lambda>c. c \<noteq> NUL) (drop (2 + i) mem) = NUL # r"
      using dropWhile_until [OF z] by blast
    have e: "drop (2 + i) mem = s @ NUL # r"
      using takeWhile_dropWhile_id [of "\<lambda>c. c \<noteq> NUL" "drop (2 + i) mem"] unfolding r tw [symmetric] by simp
    have "drop (2 + i + length s + 1) mem = drop (length s + 1) (drop (2 + i) mem)"
      by (simp add: add.commute add.left_commute)
    also have "\<dots> = r" unfolding e by simp
    finally show ?thesis using e by simp
  qed
  have "drop i (take (n - 2) (drop 2 mem) @ t)
      = take (n - 2 - i) (drop (2 + i) mem) @ t"
    using assms by (simp add: drop_take add.commute)
  also have "\<dots> = s @ NUL # (take (n - 2 - i - length s - 1) (drop (2 + i + length s + 1) mem) @ t)"
    unfolding d using assms(2) by (simp add: take_Cons' )
  finally show ?thesis
    using nz by (simp add: cstr_at_def takeWhile_until_NUL)
qed

text \<open>
  C19: A request that passes validation is safe to copy: if the token count of \<open>is_request_valid\<close> is
  at least two and even, then \<open>session_options_init\<close> on the \<open>n - 2\<close> bytes after the opcode stays
  inside \<open>options_storage\<close>; the file name and the mode string it finds are the first two strings of
  the datagram, and the option string is what follows them.
\<close>

theorem valid_request_initialises:
  assumes "request_tokens_valid mem n" and "n \<le> 512" and "n \<le> length mem"
  shows "\<exists>path mode_string ok so m err.
    session_options_init (take (n - 2) (drop 2 mem)) = Some (ok, so, m, err)
    \<and> cstr_at mem 2 = Some path \<and> cstr_at mem (2 + length path + 1) = Some mode_string
    \<and> cstr_at (options_storage so) 0 = Some path
    \<and> cstr_at (options_storage so) (mode_str so) = Some mode_string
    \<and> 2 + length path + 1 + length mode_string + 1 + options_str_size so = n
    \<and> (ok \<longleftrightarrow> m \<noteq> TFTP_MODE_INVALID) \<and> m = tftp_get_mode mode_string"
proof -
  let ?opts = "take (n - 2) (drop 2 mem)"
  let ?pad = "drop (length ?opts) zero_storage"
  have k: "2 \<le> request_tokens mem 2 (n - 1)" using assms(1) by (simp add: request_tokens_valid_def Let_def)
  have n2: "2 < n - 1" using k by (auto simp: request_tokens.simps [of mem 2] split: if_splits)
  have l: "n - 1 < length mem" using assms(3) n2 by linarith
  obtain path where path: "cstr_at mem 2 = Some path" "2 + length path \<le> n - 1"
    and k1: "request_tokens mem 2 (n - 1) = 1 + request_tokens mem (2 + length path + 1) (n - 1)"
    using request_tokens_step [of mem 2 "n - 1"] k l by auto
  obtain ms where ms: "cstr_at mem (2 + length path + 1) = Some ms" "2 + length path + 1 + length ms \<le> n - 1"
    using request_tokens_step [of mem "2 + length path + 1" "n - 1"] k k1 l by auto
  have len: "length ?opts = n - 2" using assms(3) by simp
  have p: "cstr_at (?opts @ t) 0 = Some path" for t
    using cstr_at_copy [of mem 0 path n t] path n2 assms(3) by simp
  have m: "cstr_at (?opts @ t) (length path + 1) = Some ms" for t
    using cstr_at_copy [of mem "length path + 1" ms n t] ms n2 assms(3) by (simp add: add.assoc)
  let ?sz = "n - 2 - (length path + 1 + length ms + 1)"
  have sz: "size_sub (n - 2) (length path + 1 + length ms + 1) = ?sz"
    using ms(2) assms(2) by (intro size_sub_le) auto
  define so where "so = empty_session_options
     \<lparr>options_storage := ?opts @ ?pad, mode_str := length path + 1, options_str_size := ?sz,
      options_str := if ?sz = 0 then None else Some (size_sub (n - 2) ?sz)\<rparr>"
  have run: "session_options_init ?opts = Some (fst (parse_mode ms), so, snd (parse_mode ms),
       if fst (parse_mode ms) then None
       else Some (error_code_value TFTP_ERROR_ILLEGAL_OPERATION, ''Unknown mode.''))"
    using assms(2)
    unfolding session_options_init_def Let_def p m option.case len sz so_def
    by (simp add: options_storage_size_def split: prod.splits)
  have md: "snd (parse_mode ms) = tftp_get_mode ms"
    "fst (parse_mode ms) \<longleftrightarrow> snd (parse_mode ms) \<noteq> TFTP_MODE_INVALID"
    by (simp_all add: parse_mode_def tftp_get_mode_def)
  have "cstr_at (options_storage so) 0 = Some path"
    and "cstr_at (options_storage so) (mode_str so) = Some ms"
    and "2 + length path + 1 + length ms + 1 + options_str_size so = n"
    using p m ms(2) n2 by (simp_all add: so_def)
  with run path(1) ms(1) md show ?thesis by blast
qed

theorem valid_request_initialises_witness:
  "\<exists>ok so m err. session_options_init (zstr ''ab'' @ zstr ''octet'') = Some (ok, so, m, err)
     \<and> m = TFTP_MODE_OCTET \<and> options_str_size so = 0"
proof -
  let ?mem = "be16 1 @ zstr ''ab'' @ zstr ''octet''"
  have v: "request_tokens_valid ?mem 11" by code_simp
  have c: "cstr_at ?mem 2 = Some ''ab''" "cstr_at ?mem (2 + length ''ab'' + 1) = Some ''octet''"
    by code_simp+
  have t: "take (11 - 2) (drop 2 ?mem) = zstr ''ab'' @ zstr ''octet''" by (simp add: zstr_def)
  have "tftp_get_mode ''octet'' = TFTP_MODE_OCTET" by code_simp
  with valid_request_initialises [OF v, unfolded t] c show ?thesis
    by fastforce
qed

end
