(* ===== verification/Tftp_Dispatcher.thy ===== *)
theory Tftp_Dispatcher
  imports Tftp_Adaptive_Timeout
begin

text \<open>
  The event dispatcher: \<open>tftp/src/server/dispatcher.c\<close> on top of \<open>io_uring\<close>, and the event
  identifiers of \<open>tftp/src/server/session.c\<close>.

  The submission queue is not code of the repository; what the dispatcher relies on is that a
  submitted request stays in flight until it completes once.  \<open>ring\<close> is the list of requests in
  flight, each with the identifier of the event it will raise (\<open>None\<close> for a null event).  Whether a
  submission is accepted (\<open>io_uring_get_sqe\<close> and \<open>io_uring_submit\<close>) is an argument.
\<close>

section \<open>Events\<close>

datatype event =
    EVENT_START | EVENT_DATA_AVAILABLE | EVENT_PACKET_RECEIVED
  | EVENT_PACKET_RECEIVED_REMOVED | EVENT_TIMEOUT | EVENT_TIMEOUT_REMOVED

fun event_value :: "event \<Rightarrow> u64" where
  "event_value EVENT_START = 0"
| "event_value EVENT_DATA_AVAILABLE = 1"
| "event_value EVENT_PACKET_RECEIVED = 2"
| "event_value EVENT_PACKET_RECEIVED_REMOVED = 3"
| "event_value EVENT_TIMEOUT = 4"
| "event_value EVENT_TIMEOUT_REMOVED = 5"

definition event_of_value :: "u64 \<Rightarrow> event option" where
  "event_of_value w =
     (if w = 0 then Some EVENT_START else if w = 1 then Some EVENT_DATA_AVAILABLE
      else if w = 2 then Some EVENT_PACKET_RECEIVED else if w = 3 then Some EVENT_PACKET_RECEIVED_REMOVED
      else if w = 4 then Some EVENT_TIMEOUT else if w = 5 then Some EVENT_TIMEOUT_REMOVED
      else None)"

text \<open>The identifiers of \<open>tftp_session_init\<close> and their two halves.\<close>

definition event_id :: "u16 \<Rightarrow> event \<Rightarrow> u64" where
  "event_id session_id e = push_bit 48 (ucast session_id) OR event_value e"

definition get_event :: "u64 \<Rightarrow> event option" where
  "get_event id' = event_of_value (id' AND 0xFFFF)"

definition event_session :: "u64 \<Rightarrow> u16" where
  "event_session id' = ucast (drop_bit 48 id')"

record dispatcher_event =
  ev_id :: u64
  is_success :: bool
  ev_result :: int

section \<open>Requests in flight\<close>

text \<open>
  \<open>Req_Read k pos n\<close> reads up to \<open>n\<close> bytes at the current file offset into the data of slot \<open>k\<close> of
  the packet buffer, from position \<open>pos\<close>; \<open>Req_Recvmsg n\<close> receives into a buffer of \<open>n\<close> bytes.
\<close>

datatype request =
    Req_Nop
  | Req_Read nat nat nat
  | Req_Recvmsg nat
  | Req_Timeout timespec
  | Req_Timeout_Remove u64
  | Req_Cancel u64

record dispatcher =
  ring :: "(u64 option \<times> request) list"
  pending_requests :: u8

definition dispatcher_init :: dispatcher where
  "dispatcher_init = \<lparr>ring = [], pending_requests = 0\<rparr>"

definition submit_request :: "bool \<Rightarrow> u64 option \<Rightarrow> request \<Rightarrow> dispatcher \<Rightarrow> bool \<times> dispatcher" where
  "submit_request accepted id' req d =
     (if accepted
      then (True, d\<lparr>ring := ring d @ [(id', req)], pending_requests := pending_requests d + 1\<rparr>)
      else (False, d))"

definition dispatcher_submit :: "bool \<Rightarrow> u64 option \<Rightarrow> dispatcher \<Rightarrow> bool \<times> dispatcher" where
  "dispatcher_submit accepted id' = submit_request accepted id' Req_Nop"

definition dispatcher_submit_timeout :: "bool \<Rightarrow> u64 \<Rightarrow> timespec \<Rightarrow> dispatcher \<Rightarrow> bool \<times> dispatcher" where
  "dispatcher_submit_timeout accepted id' t = submit_request accepted (Some id') (Req_Timeout t)"

definition dispatcher_submit_timeout_cancel :: "bool \<Rightarrow> u64 \<Rightarrow> u64 \<Rightarrow> dispatcher \<Rightarrow> bool \<times> dispatcher" where
  "dispatcher_submit_timeout_cancel accepted id' to_cancel =
     submit_request accepted (Some id') (Req_Timeout_Remove to_cancel)"

text \<open>The length is passed as an \<open>unsigned\<close> of 32 bits.\<close>

definition dispatcher_submit_read ::
    "bool \<Rightarrow> u64 \<Rightarrow> nat \<Rightarrow> nat \<Rightarrow> nat \<Rightarrow> dispatcher \<Rightarrow> bool \<times> dispatcher" where
  "dispatcher_submit_read accepted id' slot pos n_bytes =
     submit_request accepted (Some id') (Req_Read slot pos (n_bytes mod 2 ^ 32))"

definition dispatcher_submit_recvmsg :: "bool \<Rightarrow> u64 \<Rightarrow> nat \<Rightarrow> dispatcher \<Rightarrow> bool \<times> dispatcher" where
  "dispatcher_submit_recvmsg accepted id' n = submit_request accepted (Some id') (Req_Recvmsg n)"

definition dispatcher_submit_cancel :: "bool \<Rightarrow> u64 \<Rightarrow> u64 \<Rightarrow> dispatcher \<Rightarrow> bool \<times> dispatcher" where
  "dispatcher_submit_cancel accepted id' to_cancel =
     submit_request accepted (Some id') (Req_Cancel to_cancel)"

text \<open>
  \<open>dispatcher_wait_event\<close> when the \<open>k\<close>-th request in flight completes with \<open>res\<close>: the event and the
  dispatcher afterwards.  A failing wait (\<open>io_uring_wait_cqe\<close>) changes nothing and is a case of
  the worker loop.
\<close>

definition dispatcher_wait_event ::
    "nat \<Rightarrow> int \<Rightarrow> dispatcher \<Rightarrow> dispatcher_event option \<times> dispatcher" where
  "dispatcher_wait_event k res d =
     (map_option (\<lambda>id'. if res < 0 then \<lparr>ev_id = id', is_success = False, ev_result = - res\<rparr>
                        else \<lparr>ev_id = id', is_success = True, ev_result = res\<rparr>)
        (fst (ring d ! k)),
      d\<lparr>ring := take k (ring d) @ drop (Suc k) (ring d), pending_requests := pending_requests d - 1\<rparr>)"

section \<open>Identifiers name a session and an event\<close>

lemma event_value_less: "event_value e < 8"
  by (cases e) simp_all

lemma event_of_event_value [simp]: "event_of_value (event_value e) = Some e"
  by (cases e) (simp_all add: event_of_value_def)

lemma event_value_bits: "bit (event_value e) n \<Longrightarrow> n < 16"
proof -
  assume b: "bit (event_value e) n"
  have "take_bit 16 (event_value e) = event_value e"
    by (cases e) (simp_all add: take_bit_eq_mask mask_eq_exp_minus_1)
  with b show "n < 16" by (metis bit_take_bit_iff)
qed

lemma get_event_id: "get_event (event_id sid e) = Some e"
proof -
  have m: "(0xFFFF :: u64) = mask 16" by (simp add: mask_eq_exp_minus_1)
  have "event_id sid e AND mask 16 = event_value e"
    by (rule bit_word_eqI) (auto simp: event_id_def bit_simps dest: event_value_bits)
  then show ?thesis by (simp add: get_event_def m)
qed

lemma event_session_id: "event_session (event_id sid e) = sid"
  unfolding event_session_def event_id_def
  by (rule bit_word_eqI) (auto simp: bit_simps dest: event_value_bits)

lemma event_id_inject: "event_id sid e = event_id sid' e' \<longleftrightarrow> sid = sid' \<and> e = e'"
  by (metis event_session_id get_event_id option.inject)

text \<open>
  Completions are routed to the session and the handler they belong to: from the 64-bit
  identifier of an event the worker recovers the session number and the session recovers the kind
  of event, and two events of any sessions never share an identifier.
\<close>

theorem event_id_routing:
  "event_session (event_id sid e) = sid \<and> get_event (event_id sid e) = Some e
   \<and> (event_id sid e = event_id sid' e' \<longleftrightarrow> sid = sid' \<and> e = e')"
  by (simp add: get_event_id event_session_id event_id_inject)

section \<open>Counting requests in flight\<close>

definition in_flight :: "u64 \<Rightarrow> dispatcher \<Rightarrow> nat" where
  "in_flight id' d = length (filter (\<lambda>x. fst x = Some id') (ring d))"

definition in_flight_of :: "u16 \<Rightarrow> dispatcher \<Rightarrow> nat" where
  "in_flight_of sid d = length (filter (\<lambda>x. \<exists>i. fst x = Some i \<and> event_session i = sid) (ring d))"

lemma in_flight_submit [simp]:
  "in_flight i (snd (submit_request ok id' req d))
     = in_flight i d + (if ok \<and> id' = Some i then 1 else 0)"
  by (simp add: submit_request_def in_flight_def)

lemma fst_submit_request [simp]: "fst (submit_request ok id' req d) = ok"
  by (simp add: submit_request_def)

lemma in_flight_of_submit [simp]:
  "in_flight_of sid (snd (submit_request ok (Some id') req d))
     = in_flight_of sid d + (if ok \<and> event_session id' = sid then 1 else 0)"
  by (simp add: submit_request_def in_flight_of_def)

lemma length_filter_delete:
  "k < length xs \<Longrightarrow>
   length (filter P (take k xs @ drop (Suc k) xs)) + (if P (xs ! k) then 1 else 0) = length (filter P xs)"
proof -
  assume k: "k < length xs"
  have "filter P xs = filter P (take k xs) @ filter P (xs ! k # drop (Suc k) xs)"
    using id_take_nth_drop [OF k] by (metis filter_append)
  then show ?thesis by (simp split: if_splits)
qed

lemma in_flight_wait:
  "k < length (ring d) \<Longrightarrow> fst (ring d ! k) = Some i \<Longrightarrow>
   in_flight j (snd (dispatcher_wait_event k res d)) + (if i = j then 1 else 0) = in_flight j d"
  using length_filter_delete [of k "ring d" "\<lambda>x. fst x = Some j"]
  by (simp add: dispatcher_wait_event_def in_flight_def)

lemma in_flight_of_wait:
  "k < length (ring d) \<Longrightarrow> fst (ring d ! k) = Some i \<Longrightarrow>
   in_flight_of sid (snd (dispatcher_wait_event k res d)) + (if event_session i = sid then 1 else 0)
     = in_flight_of sid d"
  using length_filter_delete [of k "ring d" "\<lambda>x. \<exists>i. fst x = Some i \<and> event_session i = sid"]
  by (simp add: dispatcher_wait_event_def in_flight_of_def)

lemma length_filter_le_filter: "(\<And>x. P x \<Longrightarrow> Q x) \<Longrightarrow> length (filter P xs) \<le> length (filter Q xs)"
  by (induction xs) auto

lemma in_flight_le_of: "in_flight (event_id sid e) d \<le> in_flight_of sid d"
  unfolding in_flight_def in_flight_of_def
  by (rule length_filter_le_filter) (auto simp: event_session_id)

end
