(* ===== verification/Tftp_Session.thy ===== *)
theory Tftp_Session
  imports Tftp_Session_Options Tftp_Dispatcher Tftp_Inet Tftp_Window
begin

text \<open>
  The server session: \<open>tftp/src/server/session.c\<close>, with \<open>session_connection_init\<close> and
  \<open>tftp_session_stat_init\<close>.

  The record \<open>session\<close> has the fields of \<open>struct tftp_session\<close> that the code reads, and what it
  points to: the dispatcher, the open file and the packet buffer.  The world the code acts on is
  part of the state: \<open>out\<close> is the list of datagrams sent so far, \<open>closed\<close> the list of descriptors
  closed, \<open>sys\<close> scripts the results of the calls that may fail (\<open>None\<close>, or the end of the script, is
  the nominal result), \<open>clock\<close> those of \<open>clock_gettime\<close>.

  The packet buffer is an array of slots of \<open>4 + block_size\<close> bytes (the code computes the offset
  of a slot as its index times that size); the empty list is the null pointer.  A fresh block of
  memory holds zeros here; no byte of it is sent before it has been written.
\<close>

section \<open>State\<close>

datatype session_request_type = SESSION_READ_REQUEST | SESSION_WRITE_REQUEST

record tftp_server_info =
  info_addr :: sockaddr
  root_dir :: "string option"
  info_retries :: u8
  info_timeout :: u8
  is_adaptive_timeout_enabled :: bool
  is_write_request_enabled :: bool
  is_list_request_enabled :: bool

record tftp_peer_message =
  peer_addr :: sockaddr
  bytes_recvd :: int
  is_orig_dest_addr_ipv4 :: bool
  buffer :: "byte list"

record session_stats =
  error_occurred :: bool
  error_number :: u16
  error_message :: string
  options_in :: string
  options_acked :: string
  packets_sent :: nat
  packets_acked :: nat
  bytes_sent :: nat

definition tftp_session_stat_init :: session_stats where
  "tftp_session_stat_init =
     \<lparr>error_occurred = False, error_number = 0, error_message = '''', options_in = '''',
      options_acked = ''[]'', packets_sent = 0, packets_acked = 0, bytes_sent = 0\<rparr>"

record session =
  session_id :: u16
  server_info :: tftp_server_info
  request_args :: tftp_peer_message
  is_timer_active :: bool
  request_type :: session_request_type
  file_descriptor :: int
  mode :: tftp_mode
  retries :: u8
  timeout :: u8
  block_size :: u16
  window_size :: u16
  is_adaptive_timeout_active :: bool
  current_retransmission :: u8
  total_retransmissions :: nat
  window_begin :: u16
  next_data_packet_to_send :: u16
  expected_sequence_number :: u16
  netascii_buffer :: "byte option"
  last_packet :: int
  last_block_size :: u16
  incomplete_read :: bool
  sockfd :: int
  client_address :: sockaddr
  last_message_address :: sockaddr
  recv_buffer :: "byte list"
  stats :: session_stats
  opts :: session_options
  is_fetching_data :: bool
  should_close :: bool
  pending_jobs :: u8
  event_timeout :: timespec
  adaptive :: adaptive_timeout
  error_packet_bytes :: "byte list option"
  oack_packet :: "byte list option"
  data_packets :: "byte list list"
  dispatcher :: dispatcher
  open_file :: "file_object option"
  os :: os_env
  heap_block :: "byte list"
  resolver :: "sockaddr \<Rightarrow> int \<times> int \<times> sockaddr"
  out :: "(sockaddr \<times> byte list) list"
  closed :: "int list"
  sys :: "int option list"
  clock :: "timespec option list"

text \<open>\<open>tftp_session_init\<close> on the memory of a job, followed by storing the request.\<close>

definition tftp_session_init ::
    "u16 \<Rightarrow> tftp_server_info \<Rightarrow> dispatcher \<Rightarrow> session \<Rightarrow> session" where
  "tftp_session_init sid info d s =
     s\<lparr>session_id := sid, server_info := info,
       request_args := \<lparr>peer_addr = Sockaddr_Other 0, bytes_recvd = 0, is_orig_dest_addr_ipv4 = False,
                        buffer = replicate tftp_request_packet_max_size NUL\<rparr>,
       is_timer_active := False, request_type := SESSION_READ_REQUEST, file_descriptor := 0,
       mode := TFTP_MODE_OCTET, retries := info_retries info, timeout := info_timeout info,
       block_size := tftp_default_blksize, window_size := 1, is_adaptive_timeout_active := False,
       current_retransmission := 0, total_retransmissions := 0, window_begin := 1,
       next_data_packet_to_send := 1, expected_sequence_number := 1, netascii_buffer := None,
       last_packet := - 1, last_block_size := 0, incomplete_read := False, sockfd := - 1,
       client_address := Sockaddr_Other 0, last_message_address := Sockaddr_Other 0,
       recv_buffer := [], stats := tftp_session_stat_init\<lparr>options_acked := ''''\<rparr>,
       opts := empty_session_options, is_fetching_data := False, should_close := False,
       pending_jobs := 0, event_timeout := zero_timespec,
       adaptive := adaptive_timeout_init\<lparr>is_first_measurement := False, rto := zero_timespec\<rparr>,
       error_packet_bytes := None, oack_packet := None, data_packets := [], dispatcher := d,
       open_file := None\<rparr>"

section \<open>Calls to the system\<close>

definition sys_call :: "int \<Rightarrow> session \<Rightarrow> int \<times> session" where
  "sys_call nominal s =
     (case sys s of
        [] \<Rightarrow> (nominal, s)
      | r # rs \<Rightarrow> ((case r of None \<Rightarrow> nominal | Some v \<Rightarrow> v), s\<lparr>sys := rs\<rparr>))"

definition clock_gettime :: "session \<Rightarrow> timespec option \<times> session" where
  "clock_gettime s =
     (case clock s of [] \<Rightarrow> (Some zero_timespec, s) | t # ts \<Rightarrow> (t, s\<lparr>clock := ts\<rparr>))"

definition sendto :: "sockaddr \<Rightarrow> byte list \<Rightarrow> session \<Rightarrow> int \<times> session" where
  "sendto dest packet s =
     (case sys_call (int (length packet)) s of
        (r, s') \<Rightarrow> (r, if r = - 1 then s' else s'\<lparr>out := out s' @ [(dest, packet)]\<rparr>))"

text \<open>\<open>if (sendto(...) == -1) return false;\<close>\<close>

definition send_or_fail :: "sockaddr \<Rightarrow> byte list \<Rightarrow> session op" where
  "send_or_fail dest packet s =
     (case sendto dest packet s of (r, s') \<Rightarrow> (if r = - 1 then Ret_False else Ret_True, s'))"

text \<open>\<open>malloc\<close> fails when its scripted result is negative.\<close>

definition malloc_or_fail :: "session op" where
  "malloc_or_fail s =
     (case sys_call 0 s of (r, s') \<Rightarrow> (if r < 0 then Ret_False else Ret_True, s'))"

text \<open>A submission, \<open>pending_jobs++\<close> on success.\<close>

definition submit ::
    "(bool \<Rightarrow> dispatcher \<Rightarrow> bool \<times> dispatcher) \<Rightarrow> session op" where
  "submit request' s =
     (case sys_call 0 s of (r, s') \<Rightarrow>
      case request' (0 \<le> r) (dispatcher s') of (ok, d) \<Rightarrow>
        if ok then (Ret_True, s'\<lparr>dispatcher := d, pending_jobs := pending_jobs s' + 1\<rparr>)
        else (Ret_False, s'\<lparr>dispatcher := d\<rparr>))"

definition ev :: "event \<Rightarrow> session \<Rightarrow> u64" where
  "ev e s = event_id (session_id s) e"

definition recv_async :: "session op" where
  "recv_async s =
     submit (\<lambda>ok. dispatcher_submit_recvmsg ok (ev EVENT_PACKET_RECEIVED s) (length (recv_buffer s))) s"

definition recv_async_cancel :: "session op" where
  "recv_async_cancel s =
     submit (\<lambda>ok. dispatcher_submit_cancel ok (ev EVENT_PACKET_RECEIVED_REMOVED s)
                    (ev EVENT_PACKET_RECEIVED s)) s"

definition submit_timeout :: "session op" where
  "submit_timeout =
     chain [\<lambda>s. submit (\<lambda>ok. dispatcher_submit_timeout ok (ev EVENT_TIMEOUT s) (event_timeout s)) s,
            assign (is_timer_active_update (\<lambda>_. True))]"

definition submit_cancel_timeout :: "session op" where
  "submit_cancel_timeout =
     chain [\<lambda>s. submit (\<lambda>ok. dispatcher_submit_timeout_cancel ok (ev EVENT_TIMEOUT_REMOVED s)
                              (ev EVENT_TIMEOUT s)) s,
            assign (is_timer_active_update (\<lambda>_. False))]"

section \<open>Error and option packets\<close>

definition set_error :: "u16 \<Rightarrow> string \<Rightarrow> session \<Rightarrow> session" where
  "set_error code message s =
     s\<lparr>stats := (stats s)\<lparr>error_occurred := True, error_number := code, error_message := message\<rparr>\<rparr>"

definition error_packet_init :: "session op" where
  "error_packet_init s =
     chain [malloc_or_fail,
            assign (\<lambda>s. s\<lparr>error_packet_bytes :=
              Some (error_packet (error_number (stats s)) (error_message (stats s)))\<rparr>)]
       (s\<lparr>error_packet_bytes := None\<rparr>)"

definition send_error_packet :: "sockaddr \<Rightarrow> session op" where
  "send_error_packet dest s =
     (case error_packet_bytes s of None \<Rightarrow> (Fault, s) | Some p \<Rightarrow> send_or_fail dest p s)"

definition report_error :: "u16 \<Rightarrow> string \<Rightarrow> sockaddr \<Rightarrow> session op" where
  "report_error code message dest =
     chain [assign (set_error code message), error_packet_init, send_error_packet dest]"

definition oack_packet_init :: "session op" where
  "oack_packet_init s =
     (case oack_packet_bytes (opts s) of
        None \<Rightarrow> (Fault, s)
      | Some p \<Rightarrow> chain [malloc_or_fail, assign (oack_packet_update (\<lambda>_. Some p))] s)"

definition start_adaptive_timer :: "u16 \<Rightarrow> session \<Rightarrow> session" where
  "start_adaptive_timer block s =
     (case clock_gettime s of (now, s') \<Rightarrow>
        s'\<lparr>adaptive := (snd (adaptive_timeout_start_timer now (adaptive s')))\<lparr>starting_block_number := block\<rparr>\<rparr>)"

definition send_oack_packet :: "session op" where
  "send_oack_packet s =
     (case oack_packet s of None \<Rightarrow> (Fault, s) | Some p \<Rightarrow> send_or_fail (client_address s) p s)"

definition send_oack :: "session op" where
  "send_oack =
     chain [oack_packet_init,
            assign (\<lambda>s. if is_adaptive_timeout_active s then start_adaptive_timer 0 s else s),
            submit_timeout, send_oack_packet]"

definition set_max_retransmissions_error :: "session op" where
  "set_max_retransmissions_error =
     chain [malloc_or_fail,
            assign (\<lambda>s. set_error not_defined
              (''timeout after '' @ show_dec (unat (current_retransmission s)) @ '' retransmits.''
               @ (if last_packet s \<noteq> - 1 then '' Missed last ack.'' else '''')) s)]"

text \<open>
  \<open>memchr\<close> over the message of an error packet of \<open>n\<close> bytes; a message without a terminating zero
  is replaced.
\<close>

definition report_client_error :: "nat \<Rightarrow> session op" where
  "report_client_error n s =
     (case dec16 (drop 2 (recv_buffer s)) of
        None \<Rightarrow> (Fault, s)
      | Some (code, rest) \<Rightarrow>
          let message = take (n - 4) rest
          in if NUL \<in> set message
             then chain [malloc_or_fail, assign (set_error code (takeWhile (\<lambda>c. c \<noteq> NUL) message))] s
             else (Ret_True,
                   set_error code ''Error message received was invalid (not null terminated).'' s))"

section \<open>Reading the file\<close>

definition current_slot :: "session \<Rightarrow> nat" where
  "current_slot s = packet_slot (window_size s) (next_data_packet_to_send s)"

definition fetch_data_octet_async :: "session op" where
  "fetch_data_octet_async s =
     (if window_size s = 0 then (Fault, s)
      else
        let s1 = s\<lparr>last_block_size := (if incomplete_read s then last_block_size s else 0)\<rparr>;
            n = size_sub (unat (block_size s1)) (unat (last_block_size s1));
            s2 = s1\<lparr>incomplete_read := False\<rparr>
        in submit (\<lambda>ok. dispatcher_submit_read ok (ev EVENT_DATA_AVAILABLE s2) (current_slot s2)
                          (unat (last_block_size s2)) n) s2)"

text \<open>
  \<open>read(fd, block, 1)\<close> into the packet buffer: \<open>-1\<close> without an open file (a bad descriptor) or
  without a buffer (a bad address), unless scripted otherwise.
\<close>

definition read_byte :: "session \<Rightarrow> int \<times> byte \<times> session" where
  "read_byte s =
     (case open_file s of
        None \<Rightarrow> (case sys_call (- 1) s of (r, s') \<Rightarrow> (r, NUL, s'))
      | Some f \<Rightarrow>
          (case file_read 1 f of (bs, f') \<Rightarrow>
           case sys_call (if data_packets s = [] \<and> bs \<noteq> [] then - 1 else int (length bs)) s of
             (r, s') \<Rightarrow> if r = int (length bs) \<and> bs \<noteq> [] then (r, hd bs, s'\<lparr>open_file := Some f'\<rparr>)
                        else (if r = - 1 then - 1 else 0, NUL, s')))"

lemma read_byte_frame:
  "read_byte s = (r, c, s') \<Longrightarrow> block_size s' = block_size s"
  by (auto simp: read_byte_def sys_call_def split: option.splits prod.splits list.splits if_splits)

text \<open>\<open>acc\<close> is what the loop has put into the block so far.\<close>

function netascii_loop :: "byte list \<Rightarrow> session \<Rightarrow> ret \<times> byte list \<times> session" where
  "netascii_loop acc s =
     (if length acc < unat (block_size s) then
        (let (acc, s) = (case netascii_buffer s of
                           Some c \<Rightarrow> (acc @ [c], s\<lparr>netascii_buffer := None\<rparr>)
                         | None \<Rightarrow> (acc, s))
         in case read_byte s of (r, c, s') \<Rightarrow>
              if r = - 1 then (Ret_False, acc, set_error not_defined ''Error while reading from source'' s')
              else if r = 0 then (Ret_True, acc, s')
              else
                let acc = acc @ [c]
                in if c = CHR 0x0A \<or> c = CHR 0x0D
                   then if length acc = unat (block_size s')
                        then netascii_loop acc (s'\<lparr>netascii_buffer := Some c\<rparr>)
                        else netascii_loop (acc @ [if c = CHR 0x0A then CHR 0x0D else NUL]) s'
                   else netascii_loop acc s')
      else (Ret_True, acc, s))"
  by pat_completeness auto

termination
  by (relation "measure (\<lambda>(acc, s). unat (block_size s) - length acc)")
    (auto dest!: read_byte_frame [OF sym] split: option.splits)

declare netascii_loop.simps [simp del]

text \<open>\<open>memcpy\<close> into a slot; writing through the null pointer is undefined behaviour.\<close>

definition write_slot :: "nat \<Rightarrow> nat \<Rightarrow> byte list \<Rightarrow> session op" where
  "write_slot k pos bs s =
     (if k < length (data_packets s)
      then (Ret_True, s\<lparr>data_packets := (data_packets s)[k := splice pos bs (data_packets s ! k)]\<rparr>)
      else (Fault, s))"

definition fetch_data_netascii_async :: "session op" where
  "fetch_data_netascii_async s =
     (if window_size s = 0 then (Fault, s)
      else case netascii_loop [] s of
          (Ret_True, acc, s') \<Rightarrow>
            chain [write_slot (current_slot s') 0 (tftp_data_packet_init (next_data_packet_to_send s') @ acc),
                   assign (last_block_size_update (\<lambda>_. word_of_nat (length acc))),
                   \<lambda>s. submit (\<lambda>ok. dispatcher_submit ok (Some (ev EVENT_DATA_AVAILABLE s))) s] s'
        | (r, acc, s') \<Rightarrow> (r, s'))"

definition end_of_file :: "session \<Rightarrow> nat \<Rightarrow> bool" where
  "end_of_file s n =
     (case open_file s of
        None \<Rightarrow> n = 0
      | Some f \<Rightarrow> if seekable f then file_offset f = length (contents f) else n = 0)"

definition create_data_packets :: "nat \<Rightarrow> session op" where
  "create_data_packets n s =
     (let s1 = s\<lparr>last_block_size := last_block_size s + word_of_nat n\<rparr>
      in if n < unat (block_size s1) \<and> \<not> end_of_file s1 n
         then (Ret_False, s1\<lparr>incomplete_read := True\<rparr>)
         else if window_size s1 = 0 then (Fault, s1)
         else write_slot (current_slot s1) 0 (tftp_data_packet_init (next_data_packet_to_send s1)) s1)"

text \<open>\<open>get_data_packet_info\<close>: the bytes and the size of the packet of block \<open>i\<close>.\<close>

definition get_data_packet_info :: "session \<Rightarrow> u16 \<Rightarrow> (byte list \<times> nat) option" where
  "get_data_packet_info s i =
     (let k = packet_slot (window_size s) i
      in if window_size s = 0 \<or> \<not> k < length (data_packets s) then None
         else Some (data_packets s ! k,
                    unat (4 + (if uint i = last_packet s then last_block_size s else block_size s))))"

section \<open>Starting a session\<close>

definition is_request_valid :: "session \<Rightarrow> bool" where
  "is_request_valid s =
     (let req = request_args s;
          opcode = Option.bind (tftp_get_opcode_unsafe (buffer req)) opcode_of
      in if opcode \<noteq> Some TFTP_OPCODE_RRQ \<and> opcode \<noteq> Some TFTP_OPCODE_WRQ then False
         else if opcode = Some TFTP_OPCODE_WRQ \<and> \<not> is_write_request_enabled (server_info s) then False
         else request_tokens_valid (buffer req) (nat (bytes_recvd req)))"

text \<open>
  \<open>session_connection_init\<close>: \<open>malloc\<close>, the translation of both addresses for an IPv4 client, then
  \<open>socket\<close>, \<open>bind\<close> and \<open>getsockname\<close>.
\<close>

definition to_ipv4 :: "sockaddr \<Rightarrow> session \<Rightarrow> sockaddr option" where
  "to_ipv4 a s =
     (case resolver s a of (gni, gai) \<Rightarrow>
      case sockaddr_in6_to_in gni gai a of (r, dest) \<Rightarrow>
        if r < 0 then None
        else Some (case dest of Some d \<Rightarrow> d | None \<Rightarrow> Sockaddr_In 0 0))"

definition sys_ok :: "session op" where
  "sys_ok s = (case sys_call 0 s of (r, s') \<Rightarrow> (if r = - 1 then Ret_False else Ret_True, s'))"

text \<open>\<open>socket\<close> gives descriptor 4, unless scripted otherwise.\<close>

definition open_socket :: "session op" where
  "open_socket s = (case sys_call 4 s of (r, s') \<Rightarrow> (if r = - 1 then Ret_False else Ret_True, s'\<lparr>sockfd := r\<rparr>))"

definition session_connection_addresses :: "session op" where
  "session_connection_addresses s =
     (let client = peer_addr (request_args s)
      in if is_orig_dest_addr_ipv4 (request_args s)
         then if to_ipv4 (info_addr (server_info s)) s = None then (Ret_False, s)
              else case to_ipv4 client s of
                  None \<Rightarrow> (Ret_False, s)
                | Some c \<Rightarrow> (Ret_True, s\<lparr>client_address := c\<rparr>)
         else (Ret_True, s\<lparr>client_address := client\<rparr>))"

definition session_connection_init :: "session op" where
  "session_connection_init =
     chain [malloc_or_fail,
            assign (recv_buffer_update (\<lambda>_. replicate (unat tftp_default_blksize) NUL)),
            session_connection_addresses,
            open_socket, sys_ok, sys_ok,
            assign (\<lambda>s. s\<lparr>last_message_address := client_address s\<rparr>)]"

definition params_of :: "session \<Rightarrow> transfer_params" where
  "params_of s = \<lparr>p_mode = mode s, p_timeout = timeout s, p_block_size = block_size s,
     p_window_size = window_size s, p_adaptive_timeout = is_adaptive_timeout_active s\<rparr>"

definition store_params :: "transfer_params \<Rightarrow> session \<Rightarrow> session" where
  "store_params p s =
     s\<lparr>mode := p_mode p, timeout := p_timeout p, block_size := p_block_size p,
       window_size := p_window_size p, is_adaptive_timeout_active := p_adaptive_timeout p\<rparr>"

text \<open>
  The size of the open file, in the units of the transfer mode, and the file afterwards: a query in
  netascii mode that fails does not go back to the beginning.  A file opened for writing cannot be read.
\<close>

definition file_size_query :: "session \<Rightarrow> (unit + nat option) \<times> file_object option" where
  "file_size_query s =
     (case open_file s of
        None \<Rightarrow> (Inr None, None)
      | Some f \<Rightarrow>
          if mode s = TFTP_MODE_OCTET then (Inr (file_size_octet (os s) f), Some f)
          else if request_type s = SESSION_WRITE_REQUEST \<and> contents f \<noteq> [] then (Inr None, Some f)
          else case file_size_netascii (os s) (heap_block s) f of
              Inl d \<Rightarrow> (Inl d, Some f)
            | Inr (n, f') \<Rightarrow> (Inr n, Some f'))"

text \<open>The query is made if the request has the option.\<close>

definition tsize_requested :: "session_options \<Rightarrow> bool" where
  "tsize_requested so =
     (case options_str so of
        None \<Rightarrow> False
      | Some str \<Rightarrow>
          case tftp_parse_options (recognized_options so) (options_storage so) str (options_str_size so) of
            None \<Rightarrow> False
          | Some r \<Rightarrow> is_active (r TFTP_OPTION_TSIZE))"

definition parse_session_options :: "session op" where
  "parse_session_options s =
     (case options_str (opts s) of
        None \<Rightarrow> (Ret_True, s)
      | Some str \<Rightarrow>
          case tftp_format_option_strings (options_storage (opts s)) str (options_str_size (opts s)) of
            None \<Rightarrow> (Fault, s)
          | Some formatted \<Rightarrow>
              let s = s\<lparr>stats := (stats s)\<lparr>options_in := formatted\<rparr>\<rparr>
              in case parse_options (fst (file_size_query s)) (is_adaptive_timeout_enabled (server_info s))
                        (is_list_request_enabled (server_info s)) (opts s, params_of s) of
                   None \<Rightarrow> (Fault, s)
                 | Some (so, p) \<Rightarrow>
                     (case tftp_format_options (options_storage so) (recognized_options so) of
                        None \<Rightarrow> (Fault, s)
                      | Some acked \<Rightarrow>
                          (Ret_True,
                           (store_params p s)\<lparr>opts := so, stats := (stats s)\<lparr>options_acked := acked\<rparr>,
                             open_file := (if tsize_requested (opts s) then snd (file_size_query s)
                                           else open_file s)\<rparr>)))"

text \<open>The buffers, and the error report at the end of \<open>start\<close>.\<close>

definition allocate_buffers :: "session op" where
  "allocate_buffers =
     chain [assign (\<lambda>s. if is_adaptive_timeout_active s then s\<lparr>adaptive := adaptive_timeout_init\<rparr> else s),
            malloc_or_fail,
            assign (\<lambda>s. s\<lparr>data_packets :=
              replicate (unat (window_size s)) (replicate (4 + unat (block_size s)) NUL)\<rparr>),
            malloc_or_fail,
            assign (\<lambda>s. s\<lparr>recv_buffer := recv_buffer s @
              replicate (4 + max (unat (block_size s)) (unat tftp_default_blksize) - length (recv_buffer s)) NUL\<rparr>),
            assign (\<lambda>s. s\<lparr>event_timeout := (event_timeout s)\<lparr>tv_sec := int (unat (timeout s))\<rparr>\<rparr>)]"

definition start_report_error :: "session op" where
  "start_report_error s =
     (if error_occurred (stats s)
      then chain [error_packet_init, \<lambda>s. send_error_packet (client_address s) s,
                  assign (should_close_update (\<lambda>_. True))] s
      else (Ret_True, s))"

text \<open>From the opened file on; both early returns of the source return \<open>true\<close>.\<close>

definition start_file :: "tftp_read_type \<Rightarrow> session op" where
  "start_file read_type s =
     (case cstr_at (options_storage (opts s)) 0 of
        None \<Rightarrow> (Fault, s)
      | Some filename \<Rightarrow>
          (case session_file_init (os s) filename (root_dir (server_info s))
                  (if request_type s = SESSION_READ_REQUEST then SESSION_FILE_MODE_READ
                   else SESSION_FILE_MODE_WRITE) read_type of
             File_Fault \<Rightarrow> (Fault, s)
           | File_Error code message \<Rightarrow>
               (Ret_True, set_error code message (s\<lparr>file_descriptor := - 1, open_file := None\<rparr>))
           | File_Opened f \<Rightarrow>
               chain [parse_session_options, allocate_buffers, start_report_error]
                 (s\<lparr>file_descriptor := os_descriptor (os s), open_file := Some f\<rparr>)))"

definition start_options :: "session op" where
  "start_options s =
     (case session_options_init (take (nat (bytes_recvd (request_args s)) - 2) (drop 2 (buffer (request_args s)))) of
        None \<Rightarrow> (Fault, s)
      | Some (ok, so, m, err) \<Rightarrow>
          let s = s\<lparr>opts := so, mode := m\<rparr>;
              s = (case err of None \<Rightarrow> s | Some (code, message) \<Rightarrow> set_error code message s)
          in if \<not> ok then (Ret_True, s)
             else if options_str so \<noteq> None \<and> is_list_request_enabled (server_info s)
                     \<and> request_type s = SESSION_READ_REQUEST
             then case session_options_get_read_type so of
                 None \<Rightarrow> (Fault, s)
               | Some (so', read_type) \<Rightarrow> start_file read_type (s\<lparr>opts := so'\<rparr>)
             else start_file TFTP_READ_TYPE_FILE s)"

definition start :: "session op" where
  "start s =
     (if \<not> is_request_valid s then (Ret_True, s\<lparr>should_close := True\<rparr>)
      else
        chain [assign (request_type_update (\<lambda>_.
                 if tftp_get_opcode_unsafe (buffer (request_args s)) = Some (opcode_value TFTP_OPCODE_WRQ)
                 then SESSION_WRITE_REQUEST else SESSION_READ_REQUEST)),
               session_connection_init,
               assign (stats_update (\<lambda>_. tftp_session_stat_init)),
               start_options] s)"

section \<open>Sending data\<close>

definition send_data_packet :: "session op" where
  "send_data_packet s =
     (case get_data_packet_info s (next_data_packet_to_send s) of
        None \<Rightarrow> (Fault, s)
      | Some (packet, _) \<Rightarrow>
          send_or_fail (client_address s) (take (4 + unat (last_block_size s)) packet) s)"

definition on_data_available_send :: "session op" where
  "on_data_available_send =
     chain [assign (\<lambda>s. if is_adaptive_timeout_active s \<and> \<not> timer_active (adaptive s)
                        then start_adaptive_timer (next_data_packet_to_send s) s else s),
            send_data_packet,
            assign (\<lambda>s. s\<lparr>stats := (stats s)\<lparr>packets_sent := packets_sent (stats s) + 1\<rparr>\<rparr>),
            assign (\<lambda>s. if last_block_size s < block_size s
                        then s\<lparr>last_packet := uint (next_data_packet_to_send s)\<rparr> else s),
            \<lambda>s. if window_begin s = next_data_packet_to_send s then submit_timeout s else (Ret_True, s),
            assign (\<lambda>s. s\<lparr>next_data_packet_to_send := next_data_packet_to_send s + 1\<rparr>)]"

definition on_data_available :: "dispatcher_event \<Rightarrow> session op" where
  "on_data_available e s =
     (if mode s = TFTP_MODE_OCTET then
        if \<not> is_success e
        then report_error not_defined ''Error while reading from source'' (client_address s)
               (s\<lparr>should_close := True\<rparr>)
        else case create_data_packets (nat (ev_result e)) s of
            (Ret_False, s') \<Rightarrow> (Ret_True, s')
          | (Fault, s') \<Rightarrow> (Fault, s')
          | (Ret_True, s') \<Rightarrow> on_data_available_send s'
      else on_data_available_send s)"

text \<open>
  The retransmission loop \<open>for (i = window_begin; is_in_range(i, window_begin, next - 1); i++)\<close>;
  \<open>None\<close> when it does not end.
\<close>

partial_function (option) retransmit :: "u16 \<Rightarrow> session \<Rightarrow> (ret \<times> session) option" where
  "retransmit i s =
     (if is_in_range i (window_begin s) (next_data_packet_to_send s - 1) then
        (case get_data_packet_info s i of
           None \<Rightarrow> Some (Fault, s)
         | Some (packet, n) \<Rightarrow>
             (case sendto (client_address s) (take n packet) s of
                (r, s') \<Rightarrow>
                  if r = - 1 then Some (Ret_False, s')
                  else if r < int n then Some (Ret_True, s')
                  else retransmit (i + 1) s'))
      else Some (Ret_True, s))"

definition retransmit_window :: "session op" where
  "retransmit_window s =
     (case retransmit (window_begin s) s of None \<Rightarrow> (Fault, s) | Some r \<Rightarrow> r)"

definition backoff :: "session \<Rightarrow> session" where
  "backoff s =
     (if is_adaptive_timeout_active s
      then let a = adaptive_timeout_backoff (adaptive_timeout_cancel_timer (adaptive s))
           in s\<lparr>adaptive := a, event_timeout := rto a\<rparr>
      else s)"

definition on_timeout :: "session op" where
  "on_timeout s =
     (if retries s \<le> current_retransmission s
      then chain [recv_async_cancel, set_max_retransmissions_error, error_packet_init,
                  send_error_packet (client_address s)] (s\<lparr>should_close := True\<rparr>)
      else
        chain [assign backoff, submit_timeout,
               \<lambda>s. if valid_options_required (opts s) \<and> \<not> options_acknowledged (opts s)
                   then send_oack_packet s
                   else if request_type s = SESSION_WRITE_REQUEST
                   then send_or_fail (client_address s)
                          (tftp_ack_packet_init (expected_sequence_number s - 1)) s
                   else retransmit_window s]
          (s\<lparr>current_retransmission := current_retransmission s + 1,
             total_retransmissions := total_retransmissions s + 1\<rparr>))"

section \<open>Receiving\<close>

definition acknowledge_options :: "session \<Rightarrow> session" where
  "acknowledge_options s = s\<lparr>opts := (opts s)\<lparr>options_acknowledged := True\<rparr>\<rparr>"

definition awaiting_options_ack :: "session \<Rightarrow> bool" where
  "awaiting_options_ack s \<longleftrightarrow> valid_options_required (opts s) \<and> \<not> options_acknowledged (opts s)"

text \<open>\<open>write\<close> without an open file fails; a short count is not looked at.\<close>

definition write_data :: "byte list \<Rightarrow> session op" where
  "write_data data s =
     (case sys_call (if open_file s = None then - 1 else int (length data)) s of
        (r, s') \<Rightarrow>
          if r = - 1 then (Ret_False, set_error not_defined ''Error writing to disk'' s')
          else (Ret_True,
                s'\<lparr>open_file := map_option (file_write (take (nat r) data)) (open_file s'),
                   stats := (stats s')\<lparr>bytes_sent := bytes_sent (stats s') + nat r\<rparr>\<rparr>))"

definition on_data :: "u16 \<Rightarrow> byte list \<Rightarrow> session op" where
  "on_data block data s =
     (let first = awaiting_options_ack s \<and> block = 1
      in if \<not> first \<and> block \<noteq> expected_sequence_number s then (Ret_True, s)
         else
           chain [write_data data,
                  send_or_fail (client_address s) (tftp_ack_packet_init block),
                  assign (\<lambda>s. s\<lparr>expected_sequence_number := expected_sequence_number s + 1,
                                stats := (stats s)\<lparr>packets_acked := packets_acked (stats s) + 1\<rparr>,
                                current_retransmission := 0,
                                should_close := length data < unat (block_size s)\<rparr>)]
             (if first then acknowledge_options s else s))"

definition adaptive_on_ack :: "u16 \<Rightarrow> session \<Rightarrow> session" where
  "adaptive_on_ack block s =
     (if is_adaptive_timeout_active s \<and> timer_active (adaptive s)
         \<and> is_in_range block (starting_block_number (adaptive s)) (next_data_packet_to_send s - 1)
      then case clock_gettime s of (now, s') \<Rightarrow>
             let a = snd (adaptive_timeout_stop_timer now (adaptive s'))
             in s'\<lparr>adaptive := a, event_timeout := rto a\<rparr>
      else s)"

definition ack_advance :: "u16 \<Rightarrow> session op" where
  "ack_advance block =
     chain [assign (\<lambda>s. s\<lparr>window_begin := block + 1\<rparr>),
            assign (adaptive_on_ack block),
            submit_cancel_timeout,
            \<lambda>s. if window_begin s \<noteq> next_data_packet_to_send s then submit_timeout s else (Ret_True, s),
            assign (\<lambda>s. s\<lparr>stats := (stats s)\<lparr>packets_acked := packets_acked (stats s) + 1\<rparr>,
                          current_retransmission := 0,
                          should_close := last_packet s \<noteq> - 1 \<and> uint block = last_packet s\<rparr>)]"

definition on_ack :: "u16 \<Rightarrow> session op" where
  "on_ack block s =
     (if awaiting_options_ack s \<and> block = 0 then ack_advance block (acknowledge_options s)
      else if \<not> is_in_range block (window_begin s) (next_data_packet_to_send s - 1) then (Ret_True, s)
      else case get_cumulative_ackd_payload_size (block_size s) (window_begin s) (last_packet s)
                  (last_block_size s) block of
          None \<Rightarrow> (Fault, s)
        | Some n \<Rightarrow>
            ack_advance block (s\<lparr>stats := (stats s)\<lparr>bytes_sent := bytes_sent (stats s) + n\<rparr>\<rparr>))"

definition unexpected_opcode :: "session op" where
  "unexpected_opcode s =
     report_error (error_code_value TFTP_ERROR_ILLEGAL_OPERATION) ''Unexpected packet opcode.''
       (client_address s) (s\<lparr>should_close := True\<rparr>)"

text \<open>The switch on the opcode, for a datagram of \<open>n\<close> bytes in the receive buffer.\<close>

definition on_packet :: "nat \<Rightarrow> session op" where
  "on_packet n s =
     (case dec16 (recv_buffer s) of
        None \<Rightarrow> (Fault, s)
      | Some (opcode, rest) \<Rightarrow>
          (case dec16 rest of
             None \<Rightarrow> (Fault, s)
           | Some (block, payload) \<Rightarrow>
               if opcode_of opcode = Some TFTP_OPCODE_ERROR
               then report_client_error n (s\<lparr>should_close := True\<rparr>)
               else if opcode_of opcode = Some TFTP_OPCODE_DATA \<and> request_type s = SESSION_WRITE_REQUEST
               then on_data block (take (n - 4) payload) s
               else if opcode_of opcode = Some TFTP_OPCODE_ACK \<and> request_type s = SESSION_READ_REQUEST
               then on_ack block s
               else unexpected_opcode s))"

definition on_packet_received :: "dispatcher_event \<Rightarrow> session op" where
  "on_packet_received e s =
     (if \<not> is_success e then (Ret_False, s)
      else if ev_result e < 4 then (Ret_True, s)
      else if set_address_family (last_message_address s) = None then (Ret_True, s)
      else if \<not> sockaddr_equals (last_message_address s) (client_address s)
      then chain [report_error (error_code_value TFTP_ERROR_UNKNOWN_TRANSFER_ID) ''Unknown transfer ID.''
                    (last_message_address s),
                  assign (\<lambda>s. s\<lparr>stats := (stats s)\<lparr>error_occurred := False\<rparr>\<rparr>)] s
      else on_packet (nat (ev_result e)) s)"

section \<open>The event handler\<close>

datatype tftp_session_state =
    TFTP_SESSION_STATE_IDLE | TFTP_SESSION_STATE_ERROR | TFTP_SESSION_STATE_CLOSED
  | Session_Fault

definition pending_jobs_dec :: "session \<Rightarrow> session" where
  "pending_jobs_dec s = s\<lparr>pending_jobs := pending_jobs s - 1\<rparr>"

definition close_session :: "session \<Rightarrow> session" where
  "close_session s =
     s\<lparr>closed := closed s @ (if file_descriptor s \<noteq> - 1 then [file_descriptor s] else [])
                 @ (if sockfd s \<noteq> - 1 then [sockfd s] else [])\<rparr>"

text \<open>\<open>!sendto(...)\<close> is true for a result of zero only.\<close>

definition send_first_ack :: "session op" where
  "send_first_ack s =
     (case sendto (client_address s) (tftp_ack_packet_init 0) s of
        (r, s') \<Rightarrow> (if r = 0 then Ret_False else Ret_True, s'))"

definition handle_start :: "session op" where
  "handle_start =
     chain [start,
            \<lambda>s. if should_close s then (Ret_True, s)
                else chain [\<lambda>s. if awaiting_options_ack s then send_oack s
                               else if request_type s = SESSION_WRITE_REQUEST then send_first_ack s
                               else (Ret_True, s),
                            recv_async] s]"

definition ENOENT :: int where "ENOENT = 2"
definition EALREADY :: int where "EALREADY = 114"
definition ECANCELED :: int where "ECANCELED = 125"

text \<open>The switch of \<open>tftp_session_handle_event\<close>; \<open>Ret_True\<close> is \<open>break\<close>.\<close>

fun dispatch_event :: "event \<Rightarrow> dispatcher_event \<Rightarrow> session op" where
  "dispatch_event EVENT_START e s = handle_start s"
| "dispatch_event EVENT_TIMEOUT e s =
     (let s = pending_jobs_dec s
      in if \<not> is_success e \<and> (ev_result e = ENOENT \<or> ev_result e = ECANCELED) then (Ret_True, s)
         else if should_close s \<or> \<not> is_timer_active s then (Ret_True, s)
         else on_timeout s)"
| "dispatch_event EVENT_TIMEOUT_REMOVED e s =
     (let s = pending_jobs_dec s
      in (if \<not> is_success e \<and> ev_result e \<noteq> 0 \<and> ev_result e \<noteq> ENOENT \<and> ev_result e \<noteq> EALREADY
          then Ret_False else Ret_True, s))"
| "dispatch_event EVENT_PACKET_RECEIVED e s =
     (let s = pending_jobs_dec s
      in if should_close s \<or> (\<not> is_success e \<and> ev_result e = ECANCELED) then (Ret_True, s)
         else chain [on_packet_received e,
                     \<lambda>s. if should_close s then (Ret_True, s) else recv_async s] s)"
| "dispatch_event EVENT_PACKET_RECEIVED_REMOVED e s =
     (let s = pending_jobs_dec s
      in (if \<not> is_success e \<and> ev_result e \<noteq> 0 \<and> ev_result e \<noteq> ENOENT then Ret_False else Ret_True, s))"
| "dispatch_event EVENT_DATA_AVAILABLE e s =
     on_data_available e ((pending_jobs_dec s)\<lparr>is_fetching_data := False\<rparr>)"

definition should_fetch_data :: "session \<Rightarrow> bool" where
  "should_fetch_data s \<longleftrightarrow>
     request_type s = SESSION_READ_REQUEST \<and> \<not> is_fetching_data s \<and> \<not> should_close s
     \<and> \<not> awaiting_options_ack s \<and> last_packet s = - 1
     \<and> is_in_range (next_data_packet_to_send s) (window_begin s) (window_begin s + window_size s - 1)"

definition fetch_data :: "session op" where
  "fetch_data s =
     (if should_fetch_data s
      then (if mode s = TFTP_MODE_OCTET then fetch_data_octet_async else fetch_data_netascii_async)
             (s\<lparr>is_fetching_data := True\<rparr>)
      else (Ret_True, s))"

definition tftp_session_handle_event ::
    "dispatcher_event \<Rightarrow> session \<Rightarrow> tftp_session_state \<times> session" where
  "tftp_session_handle_event e s =
     (case get_event (ev_id e) of
        None \<Rightarrow> (TFTP_SESSION_STATE_ERROR, s)
      | Some k \<Rightarrow>
          (case chain [dispatch_event k e, fetch_data] s of
             (Fault, s') \<Rightarrow> (Session_Fault, s')
           | (Ret_False, s') \<Rightarrow> (TFTP_SESSION_STATE_ERROR, s')
           | (Ret_True, s') \<Rightarrow>
               if should_close s' \<and> pending_jobs s' = 0
               then (TFTP_SESSION_STATE_CLOSED, close_session s')
               else (TFTP_SESSION_STATE_IDLE, s')))"

end
