(* ===== verification/Tftp_Session_Jobs.thy ===== *)
theory Tftp_Session_Jobs
  imports Tftp_Session
begin

text \<open>
  Requests in flight: how a session accounts for the requests it has handed to the kernel.

  \<open>appended E s s'\<close> says that between two states of a session nothing has happened to the
  dispatcher except that requests for events of \<open>E\<close> were added, each counted in \<open>pending_jobs\<close>, and
  that the flag \<open>is_timer_active\<close> tells whether the last of them about the timer started it.
  Every operation of the session is shown to do just that, for its own set of events; the
  invariants about the event loop follow from these facts.
\<close>

section \<open>Operations add requests and nothing else\<close>

text \<open>The kind of request that is submitted for an event.\<close>

fun request_fits :: "event \<Rightarrow> request \<Rightarrow> bool" where
  "request_fits EVENT_START Req_Nop = True"
| "request_fits EVENT_TIMEOUT (Req_Timeout t) = True"
| "request_fits EVENT_TIMEOUT_REMOVED (Req_Timeout_Remove i) = True"
| "request_fits EVENT_PACKET_RECEIVED (Req_Recvmsg n) = True"
| "request_fits EVENT_PACKET_RECEIVED_REMOVED (Req_Cancel i) = True"
| "request_fits EVENT_DATA_AVAILABLE Req_Nop = True"
| "request_fits EVENT_DATA_AVAILABLE (Req_Read k p n) = True"
| "request_fits _ _ = False"

text \<open>
  What the flag \<open>is_timer_active\<close> should be after the requests \<open>new\<close>: set by a timeout, reset by the
  request to remove it.
\<close>

definition timer_after :: "u16 \<Rightarrow> (u64 option \<times> request) list \<Rightarrow> bool \<Rightarrow> bool" where
  "timer_after sid new active =
     foldl (\<lambda>b x. fst x = Some (event_id sid EVENT_TIMEOUT)
                  \<or> b \<and> fst x \<noteq> Some (event_id sid EVENT_TIMEOUT_REMOVED)) active new"

lemma timer_after_simps [simp]:
  "timer_after sid [] b = b" "timer_after sid (xs @ ys) b = timer_after sid ys (timer_after sid xs b)"
  "timer_after sid [x] b \<longleftrightarrow> fst x = Some (event_id sid EVENT_TIMEOUT)
     \<or> b \<and> fst x \<noteq> Some (event_id sid EVENT_TIMEOUT_REMOVED)"
  by (simp_all add: timer_after_def)

definition appended :: "event set \<Rightarrow> session \<Rightarrow> session \<Rightarrow> bool" where
  "appended E s s' \<longleftrightarrow>
     session_id s' = session_id s \<and> is_fetching_data s' = is_fetching_data s
     \<and> (\<exists>new. ring (dispatcher s') = ring (dispatcher s) @ new
          \<and> is_timer_active s' = timer_after (session_id s) new (is_timer_active s)
          \<and> pending_jobs s' = pending_jobs s + of_nat (length new)
          \<and> pending_requests (dispatcher s') = pending_requests (dispatcher s) + of_nat (length new)
          \<and> (\<forall>x \<in> set new. \<exists>e \<in> E. fst x = Some (event_id (session_id s) e) \<and> request_fits e (snd x)))"

definition submits :: "event set \<Rightarrow> session op \<Rightarrow> bool" where
  "submits E f \<longleftrightarrow> (\<forall>s. appended E s (snd (f s)))"

named_theorems submits_intros \<open>which events an operation submits\<close>

lemma appended_refl [simp]: "appended E s s"
  by (auto simp: appended_def intro!: exI [of _ "[]"])

lemma appended_trans: "appended E s t \<Longrightarrow> appended E t u \<Longrightarrow> appended E s u"
proof -
  assume st: "appended E s t" and tu: "appended E t u"
  obtain n1 where n1: "ring (dispatcher t) = ring (dispatcher s) @ n1"
    "is_timer_active t = timer_after (session_id s) n1 (is_timer_active s)"
    "pending_jobs t = pending_jobs s + of_nat (length n1)"
    "pending_requests (dispatcher t) = pending_requests (dispatcher s) + of_nat (length n1)"
    "\<forall>x \<in> set n1. \<exists>e \<in> E. fst x = Some (event_id (session_id s) e) \<and> request_fits e (snd x)"
    using st unfolding appended_def by blast
  obtain n2 where n2: "ring (dispatcher u) = ring (dispatcher t) @ n2"
    "is_timer_active u = timer_after (session_id t) n2 (is_timer_active t)"
    "pending_jobs u = pending_jobs t + of_nat (length n2)"
    "pending_requests (dispatcher u) = pending_requests (dispatcher t) + of_nat (length n2)"
    "\<forall>x \<in> set n2. \<exists>e \<in> E. fst x = Some (event_id (session_id t) e) \<and> request_fits e (snd x)"
    using tu unfolding appended_def by blast
  have "session_id t = session_id s" "is_fetching_data t = is_fetching_data s"
    "session_id u = session_id t" "is_fetching_data u = is_fetching_data t"
    using st tu by (simp_all add: appended_def)
  with n1 n2 show ?thesis
    unfolding appended_def by (intro conjI exI [of _ "n1 @ n2"]) auto
qed

lemma appended_mono: "appended E s t \<Longrightarrow> E \<subseteq> E' \<Longrightarrow> appended E' s t"
  unfolding appended_def by blast

lemma submitsI: "(\<And>s. appended E s (snd (f s))) \<Longrightarrow> submits E f"
  by (simp add: submits_def)

lemma submitsD: "submits E f \<Longrightarrow> f s = (r, s') \<Longrightarrow> appended E s s'"
  by (metis submits_def snd_conv)

lemma submits_mono: "submits E f \<Longrightarrow> E \<subseteq> E' \<Longrightarrow> submits E' f"
  unfolding submits_def by (blast intro: appended_mono)

text \<open>A state with the same dispatcher, counter and flag is as good as the state itself.\<close>

definition same_jobs :: "session \<Rightarrow> session \<Rightarrow> bool" where
  "same_jobs s s' \<longleftrightarrow> session_id s' = session_id s \<and> is_fetching_data s' = is_fetching_data s
     \<and> dispatcher s' = dispatcher s \<and> pending_jobs s' = pending_jobs s \<and> is_timer_active s' = is_timer_active s"

lemma same_jobs_refl [simp]: "same_jobs s s"
  by (simp add: same_jobs_def)

lemma same_jobs_appended: "same_jobs s s' \<Longrightarrow> appended E s s'"
  by (auto simp: appended_def same_jobs_def intro!: exI [of _ "[]"])

lemma appended_same_left: "same_jobs s s' \<Longrightarrow> appended E s' t \<Longrightarrow> appended E s t"
  by (metis appended_trans same_jobs_appended)

lemma submits_at: "submits E f \<Longrightarrow> same_jobs s s' \<Longrightarrow> appended E s (snd (f s'))"
  by (metis appended_same_left submits_def)

lemma submits_chain [submits_intros]:
  "(\<And>f. f \<in> set fs \<Longrightarrow> submits E f) \<Longrightarrow> submits E (chain fs)"
proof (induction fs)
  case Nil
  then show ?case by (simp add: submits_def)
next
  case (Cons f fs)
  show ?case
  proof (rule submitsI)
    fix s
    have f: "appended E s (snd (f s))" using Cons.prems by (simp add: submits_def)
    have "submits E (chain fs)" using Cons by simp
    then have "appended E (snd (f s)) (snd (chain fs (snd (f s))))" by (simp add: submits_def)
    with f show "appended E s (snd (chain (f # fs) s))"
      by (cases "f s"; cases "fst (f s)") (auto intro: appended_trans)
  qed
qed

lemma submits_assign [submits_intros]: "(\<And>s. same_jobs s (u s)) \<Longrightarrow> submits E (assign u)"
  by (simp add: submits_def assign_def same_jobs_appended)

lemma submits_const [submits_intros]: "submits E (\<lambda>s. (r, s))"
  by (simp add: submits_def)

lemma submits_if:
  "submits E f \<Longrightarrow> submits E g \<Longrightarrow> submits E (\<lambda>s. if b s then f s else g s)"
  by (simp add: submits_def)

lemma submits_state: "(\<And>s. submits E (f s)) \<Longrightarrow> submits E (\<lambda>s. f s s)"
  by (simp add: submits_def)

section \<open>System calls\<close>

lemma same_jobs_sys_call: "sys_call n s = (r, s') \<Longrightarrow> same_jobs s s'"
  by (auto simp: sys_call_def same_jobs_def split: list.splits)

lemma same_jobs_sendto: "sendto d p s = (r, s') \<Longrightarrow> same_jobs s s'"
  by (auto simp: sendto_def sys_call_def same_jobs_def split: prod.splits if_splits list.splits)

lemma same_jobs_clock: "clock_gettime s = (t, s') \<Longrightarrow> same_jobs s s'"
  by (auto simp: clock_gettime_def same_jobs_def split: list.splits)

lemma submits_send_or_fail [submits_intros]: "submits E (send_or_fail d p)"
  by (rule submitsI) (auto simp: send_or_fail_def split: prod.splits intro: same_jobs_appended same_jobs_sendto)

lemma submits_malloc [submits_intros]: "submits E malloc_or_fail"
  by (rule submitsI) (auto simp: malloc_or_fail_def split: prod.splits intro: same_jobs_appended same_jobs_sys_call)

lemma submits_sys_ok [submits_intros]: "submits E sys_ok"
  by (rule submitsI) (auto simp: sys_ok_def split: prod.splits intro: same_jobs_appended same_jobs_sys_call)

lemma submit_appends:
  assumes "\<And>ok d. request' ok d = submit_request ok (Some i) req d" and "submit request' s = (r, t)"
  shows "if r = Ret_True
    then t = s\<lparr>dispatcher := dispatcher t, pending_jobs := pending_jobs s + 1, sys := sys t\<rparr>
      \<and> ring (dispatcher t) = ring (dispatcher s) @ [(Some i, req)]
      \<and> pending_requests (dispatcher t) = pending_requests (dispatcher s) + 1
    else same_jobs s t"
proof -
  obtain x s' where c: "sys_call 0 s = (x, s')" by fastforce
  have "s' = s\<lparr>sys := sys s'\<rparr>" using c by (cases "sys s") (auto simp: sys_call_def)
  then obtain y where s': "s' = s\<lparr>sys := y\<rparr>" ..
  have "r = (if 0 \<le> x then Ret_True else Ret_False)"
    and t: "t = (if 0 \<le> x then s'\<lparr>dispatcher := snd (submit_request True (Some i) req (dispatcher s')), pending_jobs := pending_jobs s' + 1\<rparr>
                else s')"
    using assms(2) unfolding submit_def c assms(1) by (auto simp: submit_request_def split: if_splits)
  then show ?thesis
    using same_jobs_sys_call [OF c] unfolding t s' by (simp add: submit_request_def)
qed

lemma appended_submit:
  assumes "request_fits e req" and "e \<in> E" and "e \<notin> {EVENT_TIMEOUT, EVENT_TIMEOUT_REMOVED}"
    and "\<And>ok d. request' ok d = submit_request ok (Some (event_id (session_id s) e)) req d"
  shows "appended E s (snd (submit request' s))"
proof -
  obtain r t where c: "submit request' s = (r, t)" by fastforce
  note a = submit_appends [OF assms(4) c]
  show ?thesis
  proof (cases "r = Ret_True")
    case True
    then have t: "t = s\<lparr>dispatcher := dispatcher t, pending_jobs := pending_jobs s + 1, sys := sys t\<rparr>"
      and d: "ring (dispatcher t) = ring (dispatcher s) @ [(Some (event_id (session_id s) e), req)]"
        "pending_requests (dispatcher t) = pending_requests (dispatcher s) + 1"
      using a by simp_all
    have "session_id t = session_id s" "is_fetching_data t = is_fetching_data s"
      "pending_jobs t = pending_jobs s + 1" "is_timer_active t = is_timer_active s"
      by (subst t, simp)+
    with d assms(1-3) show ?thesis
      unfolding c snd_conv appended_def
      by (intro conjI exI [of _ "[(Some (event_id (session_id s) e), req)]"]) (simp_all add: event_id_inject)
  next
    case False
    then show ?thesis using a by (simp add: c same_jobs_appended)
  qed
qed

text \<open>A timeout request, or its removal, that is followed by the assignment of the flag.\<close>

lemma appended_timer:
  assumes "request_fits e req" and "e \<in> E" and "e = (if b then EVENT_TIMEOUT else EVENT_TIMEOUT_REMOVED)"
    and "\<And>ok d. request' s ok d = submit_request ok (Some (event_id (session_id s) e)) req d"
  shows "appended E s (snd (chain [\<lambda>s. submit (request' s) s, assign (is_timer_active_update (\<lambda>_. b))] s))"
proof -
  obtain r t where c: "submit (request' s) s = (r, t)" by fastforce
  note a = submit_appends [OF assms(4) c]
  show ?thesis
  proof (cases "r = Ret_True")
    case True
    let ?t = "t\<lparr>is_timer_active := b\<rparr>"
    have t: "t = s\<lparr>dispatcher := dispatcher t, pending_jobs := pending_jobs s + 1, sys := sys t\<rparr>"
      and d: "ring (dispatcher t) = ring (dispatcher s) @ [(Some (event_id (session_id s) e), req)]"
        "pending_requests (dispatcher t) = pending_requests (dispatcher s) + 1"
      using a True by simp_all
    have f: "session_id t = session_id s" "is_fetching_data t = is_fetching_data s"
      "pending_jobs t = pending_jobs s + 1"
      by (subst t, simp)+
    have "appended E s ?t"
      using d f assms(1-3) unfolding appended_def
      by (intro conjI exI [of _ "[(Some (event_id (session_id s) e), req)]"]) (simp_all add: event_id_inject)
    then show ?thesis using True by (simp add: c assign_def)
  next
    case False
    then have "same_jobs s t" using a by simp
    then show ?thesis using False by (cases r) (simp_all add: c same_jobs_appended)
  qed
qed

lemmas dispatcher_submit_defs =
  dispatcher_submit_def dispatcher_submit_timeout_def dispatcher_submit_timeout_cancel_def
  dispatcher_submit_read_def dispatcher_submit_recvmsg_def dispatcher_submit_cancel_def

lemma submits_recv_async [submits_intros]: "EVENT_PACKET_RECEIVED \<in> E \<Longrightarrow> submits E recv_async"
  unfolding recv_async_def
  by (intro submitsI appended_submit [where e = EVENT_PACKET_RECEIVED])
    (simp_all add: dispatcher_submit_defs ev_def)

lemma submits_recv_async_cancel [submits_intros]:
  "EVENT_PACKET_RECEIVED_REMOVED \<in> E \<Longrightarrow> submits E recv_async_cancel"
  unfolding recv_async_cancel_def
  by (intro submitsI appended_submit [where e = EVENT_PACKET_RECEIVED_REMOVED])
    (simp_all add: dispatcher_submit_defs ev_def)

lemma submits_timeout [submits_intros]: "EVENT_TIMEOUT \<in> E \<Longrightarrow> submits E submit_timeout"
  unfolding submit_timeout_def
  by (intro submitsI, rule appended_timer [where e = EVENT_TIMEOUT])
    (simp_all add: dispatcher_submit_defs ev_def)

lemma submits_cancel_timeout [submits_intros]:
  "EVENT_TIMEOUT_REMOVED \<in> E \<Longrightarrow> submits E submit_cancel_timeout"
  unfolding submit_cancel_timeout_def
  by (intro submitsI, rule appended_timer [where e = EVENT_TIMEOUT_REMOVED])
    (simp_all add: dispatcher_submit_defs ev_def)

section \<open>The operations of the session\<close>

lemma same_jobs_updates [simp]:
  "same_jobs s (set_error c m s)"
  "same_jobs s (s\<lparr>error_packet_bytes := x1\<rparr>)" "same_jobs s (s\<lparr>oack_packet := x1\<rparr>)"
  "same_jobs s (s\<lparr>should_close := x2\<rparr>)" "same_jobs s (s\<lparr>stats := x3\<rparr>)"
  by (simp_all add: same_jobs_def set_error_def)

lemma same_jobs_start_adaptive [simp]: "same_jobs s (start_adaptive_timer b s)"
  by (auto simp: start_adaptive_timer_def same_jobs_def clock_gettime_def split: prod.splits list.splits)

lemma submits_error_packet_init [submits_intros]: "submits E error_packet_init"
proof (rule submitsI)
  fix s :: session
  have "submits E (chain [malloc_or_fail,
            assign (\<lambda>s. s\<lparr>error_packet_bytes :=
              Some (error_packet (error_number (stats s)) (error_message (stats s)))\<rparr>)])"
    by (auto intro!: submits_intros)
  from submits_at [OF this, of s "s\<lparr>error_packet_bytes := None\<rparr>"]
  show "appended E s (snd (error_packet_init s))" by (simp add: error_packet_init_def same_jobs_def)
qed

lemma submits_send_error_packet [submits_intros]: "submits E (send_error_packet d)"
  using submits_send_or_fail [of E d]
  by (auto simp: submits_def send_error_packet_def split: option.splits)

lemma submits_report_error [submits_intros]: "submits E (report_error c m d)"
  unfolding report_error_def by (auto intro!: submits_intros)

lemma submits_oack_packet_init [submits_intros]: "submits E oack_packet_init"
proof (rule submitsI)
  fix s
  have "submits E (chain [malloc_or_fail, assign (oack_packet_update (\<lambda>_. Some p))])" for p
    by (auto intro!: submits_intros simp: same_jobs_def)
  then show "appended E s (snd (oack_packet_init s))"
    by (auto simp: oack_packet_init_def submits_def split: option.splits)
qed

lemma submits_send_oack_packet [submits_intros]: "submits E send_oack_packet"
  using submits_send_or_fail [of E]
  by (auto simp: submits_def send_oack_packet_def split: option.splits)

lemma submits_send_oack [submits_intros]: "EVENT_TIMEOUT \<in> E \<Longrightarrow> submits E send_oack"
  unfolding send_oack_def by (auto intro!: submits_intros)

lemma submits_max_retransmissions [submits_intros]: "submits E set_max_retransmissions_error"
  unfolding set_max_retransmissions_error_def by (auto intro!: submits_intros)

lemma submits_report_client_error [submits_intros]: "submits E (report_client_error n)"
proof (rule submitsI)
  fix s
  have c: "submits E (chain [malloc_or_fail, assign (set_error code m)])" for code m
    by (auto intro!: submits_intros)
  show "appended E s (snd (report_client_error n s))"
    using c by (auto simp: report_client_error_def submits_def Let_def same_jobs_appended split: option.splits)
qed

lemma same_jobs_read_byte: "read_byte s = (r, c, s') \<Longrightarrow> same_jobs s s'"
  by (auto simp: read_byte_def same_jobs_def sys_call_def split: option.splits prod.splits list.splits if_splits)

lemma same_jobs_trans: "same_jobs s t \<Longrightarrow> same_jobs t u \<Longrightarrow> same_jobs s u"
  by (simp add: same_jobs_def)

text \<open>What the bytewise loop does to a session is what its steps do.\<close>

lemma netascii_loop_rel:
  assumes refl: "\<And>s. R s s" and trans: "\<And>s t u. R s t \<Longrightarrow> R t u \<Longrightarrow> R s u"
    and buf: "\<And>s x. R s (s\<lparr>netascii_buffer := x\<rparr>)" and err: "\<And>s c m. R s (set_error c m s)"
    and rd: "\<And>s r c t. read_byte s = (r, c, t) \<Longrightarrow> R s t"
  shows "netascii_loop acc s = (r, acc', s') \<Longrightarrow> R s s'"
proof (induction acc s rule: netascii_loop.induct)
  case (1 acc s)
  define a s1 where "a = fst (case netascii_buffer s of Some c \<Rightarrow> (acc @ [c], s\<lparr>netascii_buffer := None\<rparr>) | None \<Rightarrow> (acc, s))"
    and "s1 = snd (case netascii_buffer s of Some c \<Rightarrow> (acc @ [c], s\<lparr>netascii_buffer := None\<rparr>) | None \<Rightarrow> (acc, s))"
  have p: "(case netascii_buffer s of Some c \<Rightarrow> (acc @ [c], s\<lparr>netascii_buffer := None\<rparr>) | None \<Rightarrow> (acc, s)) = (a, s1)"
    by (simp add: a_def s1_def)
  obtain r0 c s2 where rb: "read_byte s1 = (r0, c, s2)" using prod_cases3 by blast
  have "R s s1" using buf refl by (auto simp: s1_def split: option.splits)
  then have j: "R s s2" using rd [OF rb] by (rule trans)
  show ?case
  proof (cases "length acc < unat (block_size s)")
    case False
    then show ?thesis using "1.prems" refl by (simp add: netascii_loop.simps [of acc])
  next
    case lt: True
    show ?thesis
    proof (cases "r0 = - 1 \<or> r0 = 0")
      case True
      then have "s' = s2 \<or> s' = set_error not_defined ''Error while reading from source'' s2"
        using "1.prems" lt by (auto simp: netascii_loop.simps [of acc] p rb split: if_splits)
      then show ?thesis using j trans [OF j err] by auto
    next
      case False
      note ih = "1.IH" [OF lt p [symmetric] HOL.refl rb [symmetric] HOL.refl _ _ HOL.refl]
      have e: "(r, acc', s') = (if c = CHR 0x0A \<or> c = CHR 0x0D
                   then if length (a @ [c]) = unat (block_size s2)
                        then netascii_loop (a @ [c]) (s2\<lparr>netascii_buffer := Some c\<rparr>)
                        else netascii_loop ((a @ [c]) @ [if c = CHR 0x0A then CHR 0x0D else NUL]) s2
                   else netascii_loop (a @ [c]) s2)"
        using "1.prems" lt False by (simp add: netascii_loop.simps [of acc] p rb Let_def)
      show ?thesis
        using ih False e j trans [OF j buf] by (auto split: if_splits intro: trans)
    qed
  qed
qed

lemma same_jobs_netascii: "netascii_loop acc s = (r, acc', s') \<Longrightarrow> same_jobs s s'"
  by (rule netascii_loop_rel [where R = same_jobs])
    (auto intro: same_jobs_trans same_jobs_read_byte simp: same_jobs_def [of _ "_\<lparr>netascii_buffer := _\<rparr>"])

lemma same_jobs_write_slot: "same_jobs s (snd (write_slot k p bs s))"
  by (simp add: write_slot_def same_jobs_def)

lemma submits_write_slot [submits_intros]: "submits E (write_slot k p bs)"
  by (simp add: submits_def same_jobs_write_slot same_jobs_appended)

lemma submits_nop [submits_intros]:
  "EVENT_DATA_AVAILABLE \<in> E \<Longrightarrow>
   submits E (\<lambda>s. submit (\<lambda>ok. dispatcher_submit ok (Some (ev EVENT_DATA_AVAILABLE s))) s)"
  by (intro submitsI appended_submit [where e = EVENT_DATA_AVAILABLE]) (simp_all add: dispatcher_submit_defs ev_def)

lemma submits_fetch_octet [submits_intros]:
  assumes "EVENT_DATA_AVAILABLE \<in> E"
  shows "submits E fetch_data_octet_async"
proof -
  have "submits E (\<lambda>s. submit (\<lambda>ok. dispatcher_submit_read ok (ev EVENT_DATA_AVAILABLE s) (k s) (p s) (n s)) s)"
    for k p n
    using assms by (intro submitsI appended_submit [where e = EVENT_DATA_AVAILABLE])
      (simp_all add: dispatcher_submit_defs ev_def)
  note sub = this
  show ?thesis
  proof (rule submitsI)
    fix s :: session
    let ?s = "s\<lparr>last_block_size := (if incomplete_read s then last_block_size s else 0), incomplete_read := False\<rparr>"
    let ?n = "size_sub (unat (block_size s)) (unat (last_block_size ?s))"
    have "appended E s (snd (submit (\<lambda>ok. dispatcher_submit_read ok (ev EVENT_DATA_AVAILABLE ?s) (current_slot ?s)
                          (unat (last_block_size ?s)) ?n) ?s))"
      by (rule submits_at [OF sub, of s ?s current_slot "\<lambda>s. unat (last_block_size s)" "\<lambda>_. ?n"])
        (simp add: same_jobs_def)
    then show "appended E s (snd (fetch_data_octet_async s))"
      by (simp add: fetch_data_octet_async_def Let_def)
  qed
qed

lemma submits_fetch_netascii [submits_intros]:
  assumes "EVENT_DATA_AVAILABLE \<in> E"
  shows "submits E fetch_data_netascii_async"
proof (rule submitsI)
  fix s
  obtain r acc s' where n: "netascii_loop [] s = (r, acc, s')" using prod_cases3 by blast
  have j: "same_jobs s s'" by (rule same_jobs_netascii [OF n])
  have c: "submits E (chain [write_slot (current_slot s') 0 (tftp_data_packet_init (next_data_packet_to_send s') @ acc),
                   assign (last_block_size_update (\<lambda>_. word_of_nat (length acc))),
                   \<lambda>s. submit (\<lambda>ok. dispatcher_submit ok (Some (ev EVENT_DATA_AVAILABLE s))) s])"
    by (auto intro!: submits_chain submits_write_slot submits_assign submits_nop assms simp: same_jobs_def)
  show "appended E s (snd (fetch_data_netascii_async s))"
    using submits_at [OF c j] same_jobs_appended [OF j]
    by (cases r) (auto simp: fetch_data_netascii_async_def n)
qed

lemma submits_create_data_packets [submits_intros]: "submits E (create_data_packets n)"
  by (rule submitsI, rule same_jobs_appended)
    (auto simp: create_data_packets_def Let_def write_slot_def same_jobs_def)

lemma submits_connection_addresses [submits_intros]: "submits E session_connection_addresses"
  by (rule submitsI, rule same_jobs_appended)
    (auto simp: session_connection_addresses_def Let_def same_jobs_def split: option.splits)

lemma submits_open_socket [submits_intros]: "submits E open_socket"
  by (rule submitsI, rule same_jobs_appended)
    (auto simp: open_socket_def sys_call_def same_jobs_def split: prod.splits list.splits)

lemma submits_connection_init [submits_intros]: "submits E session_connection_init"
  unfolding session_connection_init_def
  by (auto intro!: submits_intros simp: same_jobs_def)

lemma same_jobs_parse_options: "same_jobs s (snd (parse_session_options s))"
  by (auto simp: parse_session_options_def store_params_def same_jobs_def Let_def split: option.splits)

lemma submits_parse_session_options [submits_intros]: "submits E parse_session_options"
  by (simp add: submits_def same_jobs_parse_options same_jobs_appended)

lemma submits_allocate_buffers [submits_intros]: "submits E allocate_buffers"
  unfolding allocate_buffers_def
  by (auto intro!: submits_intros simp: same_jobs_def)

lemma submits_start_report_error [submits_intros]: "submits E start_report_error"
proof (rule submitsI)
  fix s :: session
  have "submits E (chain [error_packet_init, \<lambda>s. send_error_packet (client_address s) s,
                  assign (should_close_update (\<lambda>_. True))])"
    using submits_state [of E "\<lambda>s. send_error_packet (client_address s)", OF submits_send_error_packet]
    by (auto intro!: submits_intros)
  then show "appended E s (snd (start_report_error s))"
    by (simp add: start_report_error_def submits_def)
qed

lemma submits_start_file [submits_intros]: "submits E (start_file rt)"
proof (rule submitsI)
  fix s :: session
  have c: "submits E (chain [parse_session_options, allocate_buffers, start_report_error])"
    by (auto intro!: submits_intros)
  have "appended E s (snd (chain [parse_session_options, allocate_buffers, start_report_error]
      (s\<lparr>file_descriptor := os_descriptor (os s), open_file := Some f\<rparr>)))" for f
    by (rule submits_at [OF c]) (simp add: same_jobs_def)
  moreover have "appended E s (set_error code m (s\<lparr>file_descriptor := - 1, open_file := None\<rparr>))" for code m
    by (rule same_jobs_appended) (simp add: same_jobs_def set_error_def)
  ultimately show "appended E s (snd (start_file rt s))"
    by (auto simp: start_file_def simp del: chain.simps split: option.splits file_result.splits)
qed

lemma submits_start_options [submits_intros]: "submits E start_options"
proof (rule submitsI)
  fix s :: session
  have f: "appended E s (snd (start_file rt s'))" if "same_jobs s s'" for rt s'
    by (rule submits_at [OF submits_start_file that])
  show "appended E s (snd (start_options s))"
  proof (cases "session_options_init (take (nat (bytes_recvd (request_args s)) - 2)
                  (drop 2 (buffer (request_args s))))")
    case None
    then show ?thesis by (simp add: start_options_def)
  next
    case (Some q)
    obtain ok so m err where q: "q = (ok, so, m, err)" by (metis surj_pair)
    define t where "t = (case err of None \<Rightarrow> s\<lparr>opts := so, mode := m\<rparr>
      | Some (code, message) \<Rightarrow> set_error code message (s\<lparr>opts := so, mode := m\<rparr>))"
    have j: "same_jobs s t" by (auto simp: t_def same_jobs_def set_error_def split: option.splits)
    then have j2: "same_jobs s (t\<lparr>opts := so'\<rparr>)" for so' by (simp add: same_jobs_def)
    have run: "start_options s =
       (if \<not> ok then (Ret_True, t)
        else if options_str so \<noteq> None \<and> is_list_request_enabled (server_info t)
                     \<and> request_type t = SESSION_READ_REQUEST
        then case session_options_get_read_type so of
                 None \<Rightarrow> (Fault, t)
               | Some (so', read_type) \<Rightarrow> start_file read_type (t\<lparr>opts := so'\<rparr>)
        else start_file TFTP_READ_TYPE_FILE t)"
      unfolding start_options_def Some q t_def Let_def by simp
    show ?thesis
      unfolding run using f [OF j] f [OF j2] same_jobs_appended [OF j]
      by (auto split: option.splits)
  qed
qed

lemma submits_start [submits_intros]: "submits E start"
proof (rule submitsI)
  fix s :: session
  have c: "submits E (chain [assign (request_type_update (\<lambda>_.
                 if tftp_get_opcode_unsafe (buffer (request_args s)) = Some (opcode_value TFTP_OPCODE_WRQ)
                 then SESSION_WRITE_REQUEST else SESSION_READ_REQUEST)),
               session_connection_init, assign (stats_update (\<lambda>_. tftp_session_stat_init)), start_options])"
    by (auto intro!: submits_intros simp: same_jobs_def)
  show "appended E s (snd (start s))"
    using c by (simp add: start_def submits_def same_jobs_appended del: chain.simps)
qed

lemma submits_send_data_packet [submits_intros]: "submits E send_data_packet"
  using submits_send_or_fail [of E]
  by (auto simp: submits_def send_data_packet_def split: option.splits)

lemma submits_timeout_if [submits_intros]:
  "EVENT_TIMEOUT \<in> E \<Longrightarrow> submits E (\<lambda>s. if b s then submit_timeout s else (Ret_True, s))"
  by (intro submits_if submits_const submits_timeout)

lemma submits_data_available_send [submits_intros]:
  "EVENT_TIMEOUT \<in> E \<Longrightarrow> submits E on_data_available_send"
  unfolding on_data_available_send_def
  by (auto intro!: submits_intros simp: same_jobs_def [of _ "_\<lparr>next_data_packet_to_send := _\<rparr>"]
      same_jobs_def [of _ "_\<lparr>last_packet := _\<rparr>"])

lemma submits_on_data_available [submits_intros]:
  assumes "EVENT_TIMEOUT \<in> E"
  shows "submits E (on_data_available e)"
proof (rule submitsI)
  fix s :: session
  have r: "appended E s (snd (report_error c m d (s\<lparr>should_close := True\<rparr>)))" for c m d
    by (rule submits_at [OF submits_report_error]) simp
  have send: "submits E on_data_available_send" using assms by (rule submits_data_available_send)
  obtain r' s' where c: "create_data_packets (nat (ev_result e)) s = (r', s')" by fastforce
  have a: "appended E s s'" by (rule submitsD [OF submits_create_data_packets c])
  have "appended E s (snd (on_data_available_send s'))"
    using a send by (auto simp: submits_def intro: appended_trans)
  with r a send show "appended E s (snd (on_data_available e s))"
    by (cases r') (simp_all add: on_data_available_def c submits_def)
qed

lemmas retransmit_induct = retransmit.raw_induct [rotated, consumes 1, case_names step]

lemma retransmit_same_jobs: "retransmit i s = Some y \<Longrightarrow> same_jobs s (snd y)"
proof (induction rule: retransmit_induct)
  case (step rt i s y)
  show ?case
  proof (cases "is_in_range i (window_begin s) (next_data_packet_to_send s - 1)")
    case False
    then show ?thesis using step.hyps by auto
  next
    case True
    show ?thesis
    proof (cases "get_data_packet_info s i")
      case None
      then show ?thesis using step.hyps True by auto
    next
      case (Some q)
      obtain packet n where q: "q = (packet, n)" by fastforce
      obtain r s1 where st: "sendto (client_address s) (take n packet) s = (r, s1)" by fastforce
      have j: "same_jobs s s1" by (rule same_jobs_sendto [OF st])
      show ?thesis
        using step.hyps step.IH [of "i + 1" s1 y] True Some j
        by (auto simp: q st split: if_splits intro: same_jobs_trans)
    qed
  qed
qed

lemma submits_retransmit_window [submits_intros]: "submits E retransmit_window"
  by (rule submitsI, rule same_jobs_appended)
    (auto simp: retransmit_window_def dest: retransmit_same_jobs split: option.splits)

lemma same_jobs_backoff [simp]: "same_jobs s (backoff s)"
  by (simp add: backoff_def same_jobs_def Let_def)

lemma submits_on_timeout [submits_intros]:
  assumes "EVENT_TIMEOUT \<in> E" and "EVENT_PACKET_RECEIVED_REMOVED \<in> E"
  shows "submits E on_timeout"
proof (rule submitsI)
  fix s :: session
  have give_up: "submits E (chain [recv_async_cancel, set_max_retransmissions_error, error_packet_init,
                  send_error_packet d])" for d
    using assms by (auto intro!: submits_intros)
  have again: "submits E (chain [assign backoff, submit_timeout,
               \<lambda>s. if valid_options_required (opts s) \<and> \<not> options_acknowledged (opts s)
                   then send_oack_packet s
                   else if request_type s = SESSION_WRITE_REQUEST
                   then send_or_fail (client_address s)
                          (tftp_ack_packet_init (expected_sequence_number s - 1)) s
                   else retransmit_window s])"
    using assms submits_state [of E "\<lambda>s. send_or_fail (client_address s)
                          (tftp_ack_packet_init (expected_sequence_number s - 1))", OF submits_send_or_fail]
    by (auto intro!: submits_intros submits_if)
  show "appended E s (snd (on_timeout s))"
    using submits_at [OF give_up, of s "s\<lparr>should_close := True\<rparr>"] submits_at [OF again, of s]
    by (simp add: on_timeout_def same_jobs_def del: chain.simps)
qed

lemma submits_write_data [submits_intros]: "submits E (write_data d)"
  by (rule submitsI, rule same_jobs_appended)
    (auto simp: write_data_def set_error_def same_jobs_def sys_call_def split: prod.splits list.splits)

lemma same_jobs_acknowledge [simp]: "same_jobs s (acknowledge_options s)"
  by (simp add: acknowledge_options_def same_jobs_def)

lemma submits_on_data [submits_intros]: "submits E (on_data block data)"
proof (rule submitsI)
  fix s :: session
  have c: "submits E (chain [write_data data, send_or_fail a (tftp_ack_packet_init block),
                  assign (\<lambda>s. s\<lparr>expected_sequence_number := expected_sequence_number s + 1,
                                stats := (stats s)\<lparr>packets_acked := packets_acked (stats s) + 1\<rparr>,
                                current_retransmission := 0,
                                should_close := length data < unat (block_size s)\<rparr>)])" for a
    by (auto intro!: submits_intros simp: same_jobs_def)
  let ?first = "awaiting_options_ack s \<and> block = 1"
  note g = submits_at [OF c, of s "if ?first then acknowledge_options s else s"]
  show "appended E s (snd (on_data block data s))"
  proof (cases "\<not> ?first \<and> block \<noteq> expected_sequence_number s")
    case True
    then show ?thesis by (simp add: on_data_def)
  next
    case False
    have "same_jobs s (if ?first then acknowledge_options s else s)" by simp
    then show ?thesis unfolding on_data_def Let_def if_not_P [OF False] by (rule g)
  qed
qed

lemma same_jobs_adaptive_on_ack [simp]: "same_jobs s (adaptive_on_ack b s)"
  by (auto simp: adaptive_on_ack_def same_jobs_def Let_def clock_gettime_def split: prod.splits list.splits)

lemma submits_ack_advance [submits_intros]:
  assumes "EVENT_TIMEOUT \<in> E" and "EVENT_TIMEOUT_REMOVED \<in> E"
  shows "submits E (ack_advance block)"
  unfolding ack_advance_def using assms
  by (auto intro!: submits_intros simp: same_jobs_def [of _ "_\<lparr>window_begin := _\<rparr>"]
      same_jobs_def [of _ "_\<lparr>current_retransmission := _, stats := _, should_close := _\<rparr>"]
      same_jobs_def [of _ "_\<lparr>stats := _, current_retransmission := _, should_close := _\<rparr>"])

lemma submits_on_ack [submits_intros]:
  assumes "EVENT_TIMEOUT \<in> E" and "EVENT_TIMEOUT_REMOVED \<in> E"
  shows "submits E (on_ack block)"
proof (rule submitsI)
  fix s :: session
  have "appended E s (snd (ack_advance block s'))" if "same_jobs s s'" for s'
    using submits_ack_advance [OF assms] that by (rule submits_at)
  then show "appended E s (snd (on_ack block s))"
    by (auto simp: on_ack_def split: option.splits)
qed

lemma submits_unexpected_opcode [submits_intros]: "submits E unexpected_opcode"
proof (rule submitsI)
  fix s :: session
  show "appended E s (snd (unexpected_opcode s))"
    unfolding unexpected_opcode_def by (rule submits_at [OF submits_report_error]) simp
qed

lemma submits_on_packet [submits_intros]:
  assumes "EVENT_TIMEOUT \<in> E" and "EVENT_TIMEOUT_REMOVED \<in> E"
  shows "submits E (on_packet n)"
proof (rule submitsI)
  fix s :: session
  have "appended E s (snd (report_client_error n (s\<lparr>should_close := True\<rparr>)))"
    by (rule submits_at [OF submits_report_client_error]) simp
  then show "appended E s (snd (on_packet n s))"
    using submits_on_data [of E] submits_on_ack [OF assms] submits_unexpected_opcode [of E]
    by (auto simp: on_packet_def submits_def split: option.splits)
qed

lemma submits_on_packet_received [submits_intros]:
  assumes "EVENT_TIMEOUT \<in> E" and "EVENT_TIMEOUT_REMOVED \<in> E"
  shows "submits E (on_packet_received e)"
proof (rule submitsI)
  fix s :: session
  have c: "submits E (chain [report_error c m d,
      assign (\<lambda>s. s\<lparr>stats := (stats s)\<lparr>error_occurred := False\<rparr>\<rparr>)])" for c m d
    by (auto intro!: submits_intros)
  show "appended E s (snd (on_packet_received e s))"
    using c submits_on_packet [OF assms]
    by (simp add: on_packet_received_def submits_def del: chain.simps)
qed

lemma submits_send_first_ack [submits_intros]: "submits E send_first_ack"
  by (rule submitsI, rule same_jobs_appended)
    (auto simp: send_first_ack_def split: prod.splits dest: same_jobs_sendto)

lemma submits_handle_start:
  assumes "EVENT_TIMEOUT \<in> E" and "EVENT_PACKET_RECEIVED \<in> E"
  shows "submits E handle_start"
proof -
  have c: "submits E (chain [\<lambda>s. if awaiting_options_ack s then send_oack s
                               else if request_type s = SESSION_WRITE_REQUEST then send_first_ack s
                               else (Ret_True, s), recv_async])"
    using assms by (auto intro!: submits_intros submits_if)
  have "submits E (\<lambda>s. if should_close s then (Ret_True, s)
                else chain [\<lambda>s. if awaiting_options_ack s then send_oack s
                               else if request_type s = SESSION_WRITE_REQUEST then send_first_ack s
                               else (Ret_True, s), recv_async] s)"
    by (rule submits_if [OF submits_const c])
  then show ?thesis
    unfolding handle_start_def by (auto intro!: submits_chain submits_start simp del: chain.simps)
qed

text \<open>
  The events each handler may submit, and the flag the data handler resets.
\<close>

definition event_taken :: "event \<Rightarrow> session \<Rightarrow> session" where
  "event_taken k s =
     (if k = EVENT_START then s
      else if k = EVENT_DATA_AVAILABLE then (pending_jobs_dec s)\<lparr>is_fetching_data := False\<rparr>
      else pending_jobs_dec s)"

lemma dispatch_event_appended:
  "appended (UNIV - {EVENT_START, EVENT_DATA_AVAILABLE}) (event_taken k s) (snd (dispatch_event k e s))"
proof -
  let ?E = "UNIV - {EVENT_START, EVENT_DATA_AVAILABLE}"
  note to = submits_on_timeout [of ?E] and hs = submits_handle_start [of ?E]
    and da = submits_on_data_available [of ?E e]
  have rcv: "submits ?E (chain [on_packet_received e,
                     \<lambda>s. if should_close s then (Ret_True, s) else recv_async s])"
    by (auto intro!: submits_intros submits_if)
  show ?thesis
    using to hs da rcv
    by (cases k) (auto simp: event_taken_def submits_def Let_def simp del: chain.simps)
qed

lemma fetch_data_appended:
  "appended {EVENT_DATA_AVAILABLE} (s\<lparr>is_fetching_data := is_fetching_data s \<or> should_fetch_data s\<rparr>)
     (snd (fetch_data s))"
proof (cases "should_fetch_data s")
  case True
  then show ?thesis
    using submits_fetch_octet [of "{EVENT_DATA_AVAILABLE}"] submits_fetch_netascii [of "{EVENT_DATA_AVAILABLE}"]
    by (simp add: fetch_data_def submits_def)
next
  case False
  have "s\<lparr>is_fetching_data := is_fetching_data s\<rparr> = s" by simp
  with False show ?thesis by (simp add: fetch_data_def)
qed

end
