(* ===== verification/Tftp_Session_Loop.thy ===== *)
theory Tftp_Session_Loop
  imports Tftp_Session_Jobs
begin

text \<open>
  The event loop of one session: a request in flight completes, the dispatcher turns the completion
  into an event and the session handles it.

  \<open>complete\<close> is what the kernel does for a request: it moves file data or a datagram into the
  session's buffers and says with which result the request completes.  Nothing is assumed about the
  order of completions, and a request may also complete with an error.
\<close>

section \<open>Completions\<close>

datatype completion =
    C_Read nat
  | C_Datagram sockaddr "byte list"
  | C_Result int

text \<open>
  A read may deliver fewer bytes than asked for, but delivers none only at the end of the file (or
  when none are asked for).  A datagram longer than the receive buffer is cut.
\<close>

fun complete :: "request \<Rightarrow> completion \<Rightarrow> session \<Rightarrow> (int \<times> session) option" where
  "complete (Req_Read k pos n) (C_Read m) s =
     (case open_file s of
        None \<Rightarrow> None
      | Some f \<Rightarrow>
          if k < length (data_packets s) \<and> m \<le> n \<and> (0 < m \<or> n = 0)
          then case file_read m f of
              (bs, f') \<Rightarrow>
                Some (int (length bs),
                      s\<lparr>data_packets := (data_packets s)[k := splice (4 + pos) bs (data_packets s ! k)],
                        open_file := Some f'\<rparr>)
          else None)"
| "complete (Req_Recvmsg n) (C_Datagram a bs) s =
     Some (int (length (take n bs)),
           s\<lparr>last_message_address := a, recv_buffer := splice 0 (take n bs) (recv_buffer s)\<rparr>)"
| "complete Req_Nop (C_Result r) s = Some (r, s)"
| "complete (Req_Timeout_Remove _) (C_Result r) s = Some (r, s)"
| "complete (Req_Cancel _) (C_Result r) s = Some (r, s)"
| "complete _ (C_Result r) s = (if r < 0 then Some (r, s) else None)"
| "complete _ _ _ = None"

definition session_step :: "nat \<Rightarrow> completion \<Rightarrow> session \<Rightarrow> (tftp_session_state \<times> session) option" where
  "session_step k c s =
     (if k < length (ring (dispatcher s)) then
        (case complete (snd (ring (dispatcher s) ! k)) c s of
           None \<Rightarrow> None
         | Some (res, s1) \<Rightarrow>
             (case dispatcher_wait_event k res (dispatcher s1) of
                (Some e, d) \<Rightarrow>
                  if event_session (ev_id e) = session_id s
                  then Some (tftp_session_handle_event e (s1\<lparr>dispatcher := d\<rparr>)) else None
              | (None, d) \<Rightarrow> None))
      else None)"

text \<open>
  \<open>io_uring\<close> reports \<open>ECANCELED\<close> for a receive only if it was cancelled; the session cancels it
  after it has set \<open>should_close\<close>.
\<close>

definition admissible :: "nat \<Rightarrow> completion \<Rightarrow> session \<Rightarrow> bool" where
  "admissible k c s \<longleftrightarrow>
     (fst (ring (dispatcher s) ! k) = Some (event_id (session_id s) EVENT_PACKET_RECEIVED)
      \<and> c = C_Result (- ECANCELED) \<longrightarrow> should_close s)"

definition running :: "session \<Rightarrow> session \<Rightarrow> bool" where
  "running s t \<longleftrightarrow> (\<exists>k c. admissible k c s \<and> session_step k c s = Some (TFTP_SESSION_STATE_IDLE, t))"

text \<open>A job right after \<open>worker_pool_start_job\<close>: only its start event is in flight.\<close>

definition just_started :: "session \<Rightarrow> bool" where
  "just_started s \<longleftrightarrow> (\<exists>info req d0 w.
     in_flight_of (session_id s) d0 = 0
     \<and> s = (tftp_session_init (session_id s) info
              (snd (dispatcher_submit True (Some (event_id (session_id s) EVENT_START)) d0)) w)
              \<lparr>request_args := req\<rparr>)"

section \<open>The accounting invariant\<close>

definition well_tagged :: "session \<Rightarrow> bool" where
  "well_tagged s \<longleftrightarrow> (\<forall>x \<in> set (ring (dispatcher s)). \<forall>i.
     fst x = Some i \<longrightarrow> event_session i = session_id s \<longrightarrow> (\<exists>e. i = event_id (session_id s) e \<and> request_fits e (snd x)))"

definition jobs_inv :: "session \<Rightarrow> bool" where
  "jobs_inv s \<longleftrightarrow>
     (let d = dispatcher s; sid = session_id s;
          starts = in_flight (event_id sid EVENT_START) d;
          recvs = in_flight (event_id sid EVENT_PACKET_RECEIVED) d
      in pending_jobs s + of_nat starts = of_nat (in_flight_of sid d)
         \<and> in_flight (event_id sid EVENT_DATA_AVAILABLE) d = (if is_fetching_data s then 1 else 0)
         \<and> starts + recvs \<le> 1 \<and> (\<not> should_close s \<longrightarrow> starts + recvs = 1)
         \<and> (starts = 1 \<longrightarrow> in_flight_of sid d = 1)
         \<and> well_tagged s)"

lemma in_flight_of_zero: "in_flight_of sid d = 0 \<Longrightarrow> in_flight (event_id sid e) d = 0"
  using in_flight_le_of [of sid e d] by simp

lemma just_started_jobs_inv: "just_started s \<Longrightarrow> jobs_inv s"
proof -
  assume "just_started s"
  then obtain info req d0 w where z: "in_flight_of (session_id s) d0 = 0"
    and s: "s = (tftp_session_init (session_id s) info
              (snd (dispatcher_submit True (Some (event_id (session_id s) EVENT_START)) d0)) w)
              \<lparr>request_args := req\<rparr>"
    unfolding just_started_def by blast
  have "pending_jobs s = 0" "\<not> is_fetching_data s" "\<not> should_close s"
    and d: "dispatcher s = snd (dispatcher_submit True (Some (event_id (session_id s) EVENT_START)) d0)"
    by (subst s, simp add: tftp_session_init_def)+
  moreover have "well_tagged s"
    using z unfolding well_tagged_def d
    by (auto simp: dispatcher_submit_def submit_request_def in_flight_of_def filter_empty_conv)
  ultimately show ?thesis
    unfolding jobs_inv_def d
    by (simp add: Let_def dispatcher_submit_def event_id_inject event_session_id z in_flight_of_zero)
qed

lemma appended_counts:
  assumes "appended E s t"
  shows "pending_jobs t - pending_jobs s
     = of_nat (in_flight_of (session_id s) (dispatcher t)) - of_nat (in_flight_of (session_id s) (dispatcher s))"
    and "e \<notin> E \<Longrightarrow> in_flight (event_id (session_id s) e) (dispatcher t) = in_flight (event_id (session_id s) e) (dispatcher s)"
    and "in_flight_of (session_id s) (dispatcher s) \<le> in_flight_of (session_id s) (dispatcher t)"
proof -
  from assms obtain new where new: "ring (dispatcher t) = ring (dispatcher s) @ new"
    "pending_jobs t = pending_jobs s + of_nat (length new)"
    and ids: "\<forall>x \<in> set new. \<exists>e \<in> E. fst x = Some (event_id (session_id s) e) \<and> request_fits e (snd x)"
    by (auto simp: appended_def)
  have "filter (\<lambda>x. \<exists>i. fst x = Some i \<and> event_session i = session_id s) new = new"
    using ids by (auto simp: event_session_id intro!: filter_True)
  then have "in_flight_of (session_id s) (dispatcher t) = in_flight_of (session_id s) (dispatcher s) + length new"
    by (simp add: in_flight_of_def new)
  then show "pending_jobs t - pending_jobs s
     = of_nat (in_flight_of (session_id s) (dispatcher t)) - of_nat (in_flight_of (session_id s) (dispatcher s))"
    and "in_flight_of (session_id s) (dispatcher s) \<le> in_flight_of (session_id s) (dispatcher t)"
    by (simp_all add: new)
  assume "e \<notin> E"
  then have "filter (\<lambda>x. fst x = Some (event_id (session_id s) e)) new = []"
    using ids by (auto simp: event_id_inject filter_empty_conv)
  then show "in_flight (event_id (session_id s) e) (dispatcher t) = in_flight (event_id (session_id s) e) (dispatcher s)"
    by (simp add: in_flight_def new)
qed

lemma appended_session_id: "appended E s t \<Longrightarrow> session_id t = session_id s"
  by (simp add: appended_def)

lemma appended_fetching: "appended E s t \<Longrightarrow> is_fetching_data t = is_fetching_data s"
  by (simp add: appended_def)

section \<open>One event\<close>

text \<open>What the submissions of the receive and the read amount to when they succeed.\<close>

lemma in_flight_submit_op:
  assumes "submit request' s = (Ret_True, t)"
    and "\<And>ok d. request' ok d = submit_request ok (Some i) req d"
  shows "in_flight j (dispatcher t) = in_flight j (dispatcher s) + (if i = j then 1 else 0)"
proof -
  obtain r s' where c: "sys_call 0 s = (r, s')" by fastforce
  have d: "dispatcher s' = dispatcher s" using same_jobs_sys_call [OF c] by (simp add: same_jobs_def)
  have "in_flight j (snd (submit_request True (Some i) req (dispatcher s')))
      = in_flight j (dispatcher s') + (if i = j then 1 else 0)" by simp
  then show ?thesis
    using assms(1) by (auto simp: submit_def c assms(2) d submit_request_def split: if_splits)
qed

lemma recv_async_count:
  "recv_async s = (Ret_True, t) \<Longrightarrow>
   in_flight (event_id (session_id s) EVENT_PACKET_RECEIVED) (dispatcher t)
     = in_flight (event_id (session_id s) EVENT_PACKET_RECEIVED) (dispatcher s) + 1"
  unfolding recv_async_def
  by (drule in_flight_submit_op [where i = "event_id (session_id s) EVENT_PACKET_RECEIVED"
        and j = "event_id (session_id s) EVENT_PACKET_RECEIVED"])
    (simp_all add: dispatcher_submit_defs ev_def)

lemma submit_frame: "should_close (snd (submit r s)) = should_close s"
  by (auto simp: submit_def sys_call_def split: prod.splits list.splits)

lemma recv_async_should_close: "recv_async s = (r, t) \<Longrightarrow> should_close t = should_close s"
  unfolding recv_async_def using submit_frame by (metis snd_conv)

lemma fetch_octet_count:
  assumes "fetch_data_octet_async s = (Ret_True, t)"
  shows "in_flight (event_id (session_id s) EVENT_DATA_AVAILABLE) (dispatcher t)
     = in_flight (event_id (session_id s) EVENT_DATA_AVAILABLE) (dispatcher s) + 1"
proof -
  let ?s = "s\<lparr>last_block_size := (if incomplete_read s then last_block_size s else 0), incomplete_read := False\<rparr>"
  let ?i = "event_id (session_id s) EVENT_DATA_AVAILABLE"
  have "submit (\<lambda>ok. dispatcher_submit_read ok ?i (current_slot ?s) (unat (last_block_size ?s))
      (size_sub (unat (block_size s)) (unat (last_block_size ?s)))) ?s = (Ret_True, t)"
    using assms by (simp add: fetch_data_octet_async_def Let_def ev_def split: if_splits)
  from in_flight_submit_op [OF this, of ?i _ ?i] show ?thesis
    by (simp add: dispatcher_submit_defs)
qed

lemma fetch_netascii_count:
  assumes "fetch_data_netascii_async s = (Ret_True, t)"
  shows "in_flight (event_id (session_id s) EVENT_DATA_AVAILABLE) (dispatcher t)
     = in_flight (event_id (session_id s) EVENT_DATA_AVAILABLE) (dispatcher s) + 1"
proof -
  let ?i = "event_id (session_id s) EVENT_DATA_AVAILABLE"
  obtain r acc s1 where n: "netascii_loop [] s = (r, acc, s1)" using prod_cases3 by blast
  have j: "same_jobs s s1" by (rule same_jobs_netascii [OF n])
  obtain r2 s2 where w: "write_slot (current_slot s1) 0
      (tftp_data_packet_init (next_data_packet_to_send s1) @ acc) s1 = (r2, s2)" by fastforce
  have j2: "same_jobs s1 s2" using same_jobs_write_slot w by (metis snd_conv)
  let ?s3 = "s2\<lparr>last_block_size := word_of_nat (length acc)\<rparr>"
  have id3: "session_id ?s3 = session_id s" "dispatcher ?s3 = dispatcher s"
    using j j2 by (simp_all add: same_jobs_def)
  have "submit (\<lambda>ok. dispatcher_submit ok (Some (ev EVENT_DATA_AVAILABLE ?s3))) ?s3 = (Ret_True, t)"
    using assms by (auto simp: fetch_data_netascii_async_def n w assign_def split: if_splits ret.splits prod.splits)
  from in_flight_submit_op [OF this, of ?i Req_Nop ?i] show ?thesis
    using id3 by (simp add: dispatcher_submit_defs ev_def)
qed

lemma keeps_assign: "(\<And>s. P s \<Longrightarrow> P (u s)) \<Longrightarrow> keeps P (assign u)"
  by (simp add: keeps_def assign_def)

lemma sys_call_should_close: "sys_call n s = (r, t) \<Longrightarrow> should_close t = should_close s"
  by (auto simp: sys_call_def split: list.splits)

lemma sendto_should_close: "sendto d p s = (r, t) \<Longrightarrow> should_close t = should_close s"
  by (auto simp: sendto_def sys_call_def split: prod.splits list.splits if_splits)

lemma keeps_close_basic:
  "keeps should_close (send_or_fail d p)" "keeps should_close malloc_or_fail"
  "keeps should_close (submit r)"
  by (auto simp: keeps_def send_or_fail_def malloc_or_fail_def submit_frame split: prod.splits
      dest: sys_call_should_close sendto_should_close)

lemma keeps_close_timeout: "keeps should_close submit_timeout"
  unfolding submit_timeout_def
  by (intro keeps_chain) (auto simp: keeps_def assign_def submit_frame)

lemma keeps_close_error: "keeps should_close (report_error c m d)"
proof -
  have "keeps should_close (chain [malloc_or_fail, assign (\<lambda>s. s\<lparr>error_packet_bytes :=
              Some (error_packet (error_number (stats s)) (error_message (stats s)))\<rparr>)])"
    using keeps_close_basic(2) by (intro keeps_chain) (auto simp: keeps_def assign_def)
  then have "should_close (snd (error_packet_init s))" if "should_close s" for s
    unfolding error_packet_init_def by (rule keepsD) (simp add: that)
  then have "keeps should_close error_packet_init" by (simp add: keeps_def)
  moreover have "keeps should_close (send_error_packet d)"
    using keeps_close_basic(1) by (auto simp: keeps_def send_error_packet_def split: option.splits)
  ultimately show ?thesis
    unfolding report_error_def by (intro keeps_chain) (auto simp: keeps_def assign_def set_error_def)
qed

lemma keeps_close_data_available: "keeps should_close (on_data_available e)"
proof -
  have sd: "keeps should_close send_data_packet"
    using keeps_close_basic(1) by (auto simp: keeps_def send_data_packet_def split: option.splits)
  have st: "should_close (start_adaptive_timer b s) = should_close s" for b s
    by (auto simp: start_adaptive_timer_def clock_gettime_def split: list.splits prod.splits)
  have send: "keeps should_close on_data_available_send"
    unfolding on_data_available_send_def
    using sd keeps_close_timeout by (intro keeps_chain) (auto simp: keeps_def assign_def st)
  have c: "should_close (snd (create_data_packets n s)) = should_close s" for n s
    by (auto simp: create_data_packets_def Let_def write_slot_def)
  show ?thesis
  proof
    fix s :: session assume sc: "should_close s"
    obtain r t where cd: "create_data_packets (nat (ev_result e)) s = (r, t)" by fastforce
    then have "should_close t" using c sc by (metis snd_conv)
    then show "should_close (snd (on_data_available e s))"
      using sc send keeps_close_error
      by (cases r) (auto simp: on_data_available_def keeps_def cd)
  qed
qed

lemma dispatch_keeps_close:
  "k \<noteq> EVENT_START \<Longrightarrow> should_close s \<Longrightarrow> should_close (snd (dispatch_event k e s))"
  using keeps_close_data_available [of e]
  by (cases k) (simp_all add: keeps_def pending_jobs_dec_def Let_def)

lemma read_byte_should_close: "read_byte s = (r, c, t) \<Longrightarrow> should_close t = should_close s"
  by (auto simp: read_byte_def sys_call_def split: option.splits prod.splits list.splits if_splits)

lemma fetch_data_closed: "should_close s \<Longrightarrow> fetch_data s = (Ret_True, s)"
  by (simp add: fetch_data_def should_fetch_data_def)

text \<open>How many receives are in flight after a handler that succeeds.\<close>

abbreviation recvs :: "session \<Rightarrow> nat" where
  "recvs s \<equiv> in_flight (event_id (session_id s) EVENT_PACKET_RECEIVED) (dispatcher s)"

lemma appended_recvs: "appended E s t \<Longrightarrow> EVENT_PACKET_RECEIVED \<notin> E \<Longrightarrow> recvs t = recvs s"
  using appended_counts(2) appended_session_id by metis

lemma recv_after:
  assumes "submits E f" and "EVENT_PACKET_RECEIVED \<notin> E"
    and "chain [f, \<lambda>s. if should_close s then (Ret_True, s) else recv_async s] s = (Ret_True, t)"
  shows "if should_close t then recvs t = recvs s else recvs t = recvs s + 1"
proof -
  obtain u where u: "f s = (Ret_True, u)"
    and t: "(if should_close u then (Ret_True, u) else recv_async u) = (Ret_True, t)"
    using assms(3) by (rule chain2_TrueE)
  have a: "appended E s u" by (rule submitsD [OF assms(1) u])
  have ru: "recvs u = recvs s" by (rule appended_recvs [OF a assms(2)])
  show ?thesis
  proof (cases "should_close u")
    case True
    with t ru show ?thesis by simp
  next
    case False
    with t have r: "recv_async u = (Ret_True, t)" by simp
    have "submits {EVENT_PACKET_RECEIVED} recv_async" by (rule submits_recv_async) simp
    from appended_session_id [OF submitsD [OF this r]] have "session_id t = session_id u" .
    then show ?thesis
      using recv_async_count [OF r] recv_async_should_close [OF r] False ru by simp
  qed
qed

lemma handle_start_recvs:
  assumes "handle_start s = (Ret_True, t)"
  shows "recvs t \<le> recvs s + 1" and "\<not> should_close t \<Longrightarrow> recvs t = recvs s + 1"
proof -
  let ?E = "UNIV - {EVENT_PACKET_RECEIVED}"
  let ?g = "\<lambda>s. if awaiting_options_ack s then send_oack s
                else if request_type s = SESSION_WRITE_REQUEST then send_first_ack s else (Ret_True, s)"
  have g: "submits ?E ?g" by (auto intro!: submits_intros submits_if)
  obtain u where u: "start s = (Ret_True, u)"
    and t: "(if should_close u then (Ret_True, u) else chain [?g, recv_async] u) = (Ret_True, t)"
    using assms unfolding handle_start_def
    by (rule chain2_TrueE)
  have ru: "recvs u = recvs s"
    by (rule appended_recvs [OF submitsD [OF submits_start u, of ?E]]) simp
  have "recvs t \<le> recvs s + 1 \<and> (\<not> should_close t \<longrightarrow> recvs t = recvs s + 1)"
  proof (cases "should_close u")
    case True
    with t ru show ?thesis by simp
  next
    case False
    with t have c: "chain [?g, recv_async] u = (Ret_True, t)" by simp
    then obtain v where v: "?g u = (Ret_True, v)" and r: "recv_async v = (Ret_True, t)"
      by (rule chain2_TrueE)
    have rv: "recvs v = recvs u" by (rule appended_recvs [OF submitsD [OF g v]]) simp
    have "submits {EVENT_PACKET_RECEIVED} recv_async" by (rule submits_recv_async) simp
    from appended_session_id [OF submitsD [OF this r]] have "session_id t = session_id v" .
    then show ?thesis using recv_async_count [OF r] rv ru by simp
  qed
  then show "recvs t \<le> recvs s + 1" and "\<not> should_close t \<Longrightarrow> recvs t = recvs s + 1" by simp_all
qed

lemma dispatch_event_recvs:
  assumes d: "dispatch_event k e s = (Ret_True, t)"
    and c: "if k = EVENT_START \<or> k = EVENT_PACKET_RECEIVED then recvs s = 0
            else recvs s \<le> 1 \<and> (\<not> should_close s \<longrightarrow> recvs s = 1)"
    and adm: "k = EVENT_PACKET_RECEIVED \<Longrightarrow> \<not> is_success e \<Longrightarrow> ev_result e = ECANCELED \<Longrightarrow> should_close s"
  shows "recvs t \<le> 1 \<and> (\<not> should_close t \<longrightarrow> recvs t = 1)"
proof -
  let ?E = "UNIV - {EVENT_PACKET_RECEIVED}"
  have p: "recvs (pending_jobs_dec s) = recvs s" "should_close (pending_jobs_dec s) = should_close s"
    by (simp_all add: pending_jobs_dec_def)
  show ?thesis
  proof (cases k)
    case EVENT_START
    then show ?thesis using handle_start_recvs [of s t] d c by auto
  next
    case EVENT_PACKET_RECEIVED
    show ?thesis
    proof (cases "should_close s \<or> (\<not> is_success e \<and> ev_result e = ECANCELED)")
      case True
      then have "t = pending_jobs_dec s" "should_close s"
        using d adm EVENT_PACKET_RECEIVED by (auto simp: Let_def pending_jobs_dec_def)
      then show ?thesis using p c EVENT_PACKET_RECEIVED by simp
    next
      case False
      have "chain [on_packet_received e, \<lambda>s. if should_close s then (Ret_True, s) else recv_async s]
          (pending_jobs_dec s) = (Ret_True, t)"
        using d False by (simp add: EVENT_PACKET_RECEIVED pending_jobs_dec_def Let_def del: chain.simps)
      from recv_after [OF submits_on_packet_received [of ?E] _ this]
      show ?thesis using p c EVENT_PACKET_RECEIVED by (auto split: if_splits)
    qed
  next
    case EVENT_DATA_AVAILABLE
    have "submits ?E (on_data_available e)" by (rule submits_on_data_available) simp
    then have "appended ?E ((pending_jobs_dec s)\<lparr>is_fetching_data := False\<rparr>) t"
      using d EVENT_DATA_AVAILABLE by (auto dest!: submitsD)
    then have "recvs t = recvs ((pending_jobs_dec s)\<lparr>is_fetching_data := False\<rparr>)"
      by (rule appended_recvs) simp
    then have "recvs t = recvs s" by (simp add: pending_jobs_dec_def)
    then show ?thesis using c dispatch_keeps_close [of k s e] d EVENT_DATA_AVAILABLE by auto
  next
    case EVENT_TIMEOUT
    have "submits ?E on_timeout" by (rule submits_on_timeout) simp_all
    then have "recvs t = recvs s"
      using d EVENT_TIMEOUT p by (auto simp: Let_def split: if_splits dest!: submitsD appended_recvs)
    then show ?thesis using c dispatch_keeps_close [of k s e] d EVENT_TIMEOUT by auto
  next
    case EVENT_PACKET_RECEIVED_REMOVED
    then show ?thesis using d c p by (auto simp: Let_def split: if_splits)
  next
    case EVENT_TIMEOUT_REMOVED
    then show ?thesis using d c p by (auto simp: Let_def split: if_splits)
  qed
qed

section \<open>One step of the loop\<close>

lemma appended_well_tagged: "appended E s t \<Longrightarrow> well_tagged s \<Longrightarrow> well_tagged t"
  unfolding appended_def well_tagged_def
  by (metis (no_types, lifting) UnE option.inject set_append)

lemma complete_same_jobs:
  "complete req c s = Some (res, s1) \<Longrightarrow> same_jobs s s1 \<and> should_close s1 = should_close s"
  by (cases "(req, c, s)" rule: complete.cases)
    (auto simp: same_jobs_def split: option.splits if_splits prod.splits)

lemma event_taken_fields [simp]:
  "session_id (event_taken k s) = session_id s" "dispatcher (event_taken k s) = dispatcher s"
  "should_close (event_taken k s) = should_close s"
  by (simp_all add: event_taken_def pending_jobs_dec_def)

text \<open>The state between the completion and the handler.\<close>

definition taken_inv :: "event \<Rightarrow> session \<Rightarrow> bool" where
  "taken_inv k s \<longleftrightarrow>
     pending_jobs (event_taken k s) = of_nat (in_flight_of (session_id s) (dispatcher s))
     \<and> in_flight (event_id (session_id s) EVENT_START) (dispatcher s) = 0
     \<and> in_flight (event_id (session_id s) EVENT_DATA_AVAILABLE) (dispatcher s)
         = (if is_fetching_data (event_taken k s) then 1 else 0)
     \<and> (if k = EVENT_START \<or> k = EVENT_PACKET_RECEIVED then recvs s = 0
        else recvs s \<le> 1 \<and> (\<not> should_close s \<longrightarrow> recvs s = 1))
     \<and> well_tagged s"

lemma wait_taken_inv:
  assumes inv: "jobs_inv s" and k: "k < length (ring (dispatcher s))"
    and uid: "fst (ring (dispatcher s) ! k) = Some (event_id (session_id s) ev')"
    and j: "same_jobs s s1" "should_close s1 = should_close s"
    and w: "snd (dispatcher_wait_event k res (dispatcher s1)) = d"
  shows "taken_inv ev' (s1\<lparr>dispatcher := d\<rparr>)"
proof -
  let ?sid = "session_id s" and ?d0 = "dispatcher s"
  have sd: "dispatcher s1 = ?d0" "session_id s1 = ?sid" "pending_jobs s1 = pending_jobs s"
    "is_fetching_data s1 = is_fetching_data s"
    using j by (simp_all add: same_jobs_def)
  have d: "d = snd (dispatcher_wait_event k res ?d0)" using w sd by simp
  have of: "in_flight_of ?sid ?d0 = Suc (in_flight_of ?sid d)"
    using in_flight_of_wait [OF k uid, of ?sid res] by (simp add: d event_session_id)
  have cnt: "in_flight (event_id ?sid e) ?d0
      = in_flight (event_id ?sid e) d + (if ev' = e then 1 else 0)" for e
    using in_flight_wait [OF k uid, of "event_id ?sid e" res] by (simp add: d event_id_inject)
  have J: "pending_jobs s + of_nat (in_flight (event_id ?sid EVENT_START) ?d0) = of_nat (in_flight_of ?sid ?d0)"
      "in_flight (event_id ?sid EVENT_DATA_AVAILABLE) ?d0 = (if is_fetching_data s then 1 else 0)"
      "in_flight (event_id ?sid EVENT_START) ?d0 + recvs s \<le> 1"
      "\<not> should_close s \<Longrightarrow> in_flight (event_id ?sid EVENT_START) ?d0 + recvs s = 1"
      "in_flight (event_id ?sid EVENT_START) ?d0 = 1 \<Longrightarrow> in_flight_of ?sid ?d0 = 1" "well_tagged s"
    using inv unfolding jobs_inv_def Let_def by blast+
  have "in_flight (event_id ?sid EVENT_START) d = 0"
  proof (rule ccontr)
    assume "in_flight (event_id ?sid EVENT_START) d \<noteq> 0"
    moreover have "in_flight (event_id ?sid EVENT_START) d \<le> in_flight_of ?sid d" by (rule in_flight_le_of)
    ultimately show False using J(3,5) of cnt [of EVENT_START] by simp
  qed
  moreover have "well_tagged (s1\<lparr>dispatcher := d\<rparr>)"
    using J(6) sd(2)
    by (auto simp: well_tagged_def d dispatcher_wait_event_def dest: in_set_takeD in_set_dropD)
  ultimately show ?thesis
    using J(1-5) of cnt [of EVENT_START] cnt [of EVENT_DATA_AVAILABLE] cnt [of EVENT_PACKET_RECEIVED] sd j(2)
    by (cases ev') (auto simp: taken_inv_def event_taken_def pending_jobs_dec_def algebra_simps)
qed

lemma handle_jobs:
  assumes t: "taken_inv ev' s" and e: "get_event (ev_id e) = Some ev'"
    and adm: "ev' = EVENT_PACKET_RECEIVED \<Longrightarrow> \<not> is_success e \<Longrightarrow> ev_result e = ECANCELED \<Longrightarrow> should_close s"
    and h: "chain [dispatch_event ev' e, fetch_data] s = (Ret_True, u)"
  shows "pending_jobs u = of_nat (in_flight_of (session_id u) (dispatcher u))" and "jobs_inv u"
proof -
  let ?E = "UNIV - {EVENT_START, EVENT_DATA_AVAILABLE}"
  obtain v where v: "dispatch_event ev' e s = (Ret_True, v)" and u: "fetch_data v = (Ret_True, u)"
    using h by (rule chain2_TrueE)
  have a: "appended ?E (event_taken ev' s) v" using dispatch_event_appended [of ev' s e] v by simp
  have b: "appended {EVENT_DATA_AVAILABLE} (v\<lparr>is_fetching_data := is_fetching_data v \<or> should_fetch_data v\<rparr>) u"
    using fetch_data_appended [of v] u by simp
  have sid: "session_id v = session_id s" "session_id u = session_id s"
    using appended_session_id [OF a] appended_session_id [OF b] by simp_all
  have r: "recvs v \<le> 1 \<and> (\<not> should_close v \<longrightarrow> recvs v = 1)"
    using t adm by (intro dispatch_event_recvs [OF v]) (auto simp: taken_inv_def)
  have p1: "pending_jobs v = of_nat (in_flight_of (session_id s) (dispatcher v))"
    using appended_counts(1) [OF a] t by (simp add: taken_inv_def)
  have p2: "pending_jobs u = of_nat (in_flight_of (session_id s) (dispatcher u))"
    using appended_counts(1) [OF b] p1 sid by simp
  then show "pending_jobs u = of_nat (in_flight_of (session_id u) (dispatcher u))" using sid by simp
  have s1: "in_flight (event_id (session_id s) EVENT_START) (dispatcher v) = 0"
    using appended_counts(2) [OF a, of EVENT_START] t by (simp add: taken_inv_def)
  have s2: "in_flight (event_id (session_id s) EVENT_START) (dispatcher u) = 0"
    using appended_counts(2) [OF b, of EVENT_START] s1 sid by simp
  have d1: "in_flight (event_id (session_id s) EVENT_DATA_AVAILABLE) (dispatcher v)
      = (if is_fetching_data v then 1 else 0)"
    using appended_counts(2) [OF a, of EVENT_DATA_AVAILABLE] appended_fetching [OF a] t
    by (simp add: taken_inv_def)
  have d2: "in_flight (event_id (session_id s) EVENT_DATA_AVAILABLE) (dispatcher u)
      = (if is_fetching_data u then 1 else 0)"
  proof (cases "should_fetch_data v")
    case True
    then have nf: "\<not> is_fetching_data v" by (simp add: should_fetch_data_def)
    have "in_flight (event_id (session_id s) EVENT_DATA_AVAILABLE) (dispatcher u) = 1"
      using u True nf d1 sid fetch_octet_count [of "v\<lparr>is_fetching_data := True\<rparr>" u]
        fetch_netascii_count [of "v\<lparr>is_fetching_data := True\<rparr>" u]
      by (auto simp: fetch_data_def split: if_splits)
    then show ?thesis using appended_fetching [OF b] True by simp
  next
    case False
    then have "u = v" using u by (simp add: fetch_data_def)
    then show ?thesis using d1 by simp
  qed
  have r2: "recvs u = recvs v"
    using appended_counts(2) [OF b, of EVENT_PACKET_RECEIVED] sid by simp
  have close: "should_close u" if "should_close v"
    using u fetch_data_closed [OF that] that by simp
  have "well_tagged v" using appended_well_tagged [OF a] t by (simp add: taken_inv_def well_tagged_def)
  then have "well_tagged u" using appended_well_tagged [OF b] by (simp add: well_tagged_def)
  then show "jobs_inv u"
    unfolding jobs_inv_def Let_def using p2 s2 d2 r2 r close sid by auto
qed


lemma complete_negative: "complete req c s = Some (res, s1) \<Longrightarrow> res < 0 \<Longrightarrow> c = C_Result res"
  by (cases "(req, c, s)" rule: complete.cases) (auto split: option.splits if_splits prod.splits)

lemma session_step_jobs:
  assumes inv: "jobs_inv s" and adm: "admissible k c s" and step: "session_step k c s = Some (st, t)"
  shows "st = TFTP_SESSION_STATE_IDLE \<Longrightarrow> jobs_inv t"
    and "st = TFTP_SESSION_STATE_CLOSED \<Longrightarrow> of_nat (in_flight_of (session_id t) (dispatcher t)) = (0 :: u8)"
proof -
  from step obtain res s1 e d where k: "k < length (ring (dispatcher s))"
    and c: "complete (snd (ring (dispatcher s) ! k)) c s = Some (res, s1)"
    and w: "dispatcher_wait_event k res (dispatcher s1) = (Some e, d)"
    and sid: "event_session (ev_id e) = session_id s"
    and h: "tftp_session_handle_event e (s1\<lparr>dispatcher := d\<rparr>) = (st, t)"
    by (auto simp: session_step_def split: if_splits option.splits prod.splits)
  have j: "same_jobs s s1" "should_close s1 = should_close s" using complete_same_jobs [OF c] by simp_all
  then have d: "dispatcher s1 = dispatcher s" by (simp add: same_jobs_def)
  from w d have uid: "fst (ring (dispatcher s) ! k) = Some (ev_id e)"
    by (auto simp: dispatcher_wait_event_def split: if_splits)
  moreover have "ring (dispatcher s) ! k \<in> set (ring (dispatcher s))" using k by simp
  ultimately obtain ev' where ev': "ev_id e = event_id (session_id s) ev'"
    using inv sid unfolding jobs_inv_def well_tagged_def Let_def by blast
  have g: "get_event (ev_id e) = Some ev'" by (simp add: ev' get_event_id)
  have t: "taken_inv ev' (s1\<lparr>dispatcher := d\<rparr>)"
    using wait_taken_inv [OF inv k _ j, of ev' res d] uid ev' w by simp
  have cancelled: "should_close (s1\<lparr>dispatcher := d\<rparr>)"
    if "ev' = EVENT_PACKET_RECEIVED" "\<not> is_success e" "ev_result e = ECANCELED"
  proof -
    have res: "res = - ECANCELED" using w that by (auto simp: dispatcher_wait_event_def split: if_splits)
    have "c = C_Result (- ECANCELED)" using complete_negative [OF c] by (simp add: res ECANCELED_def)
    with adm uid ev' that(1) j show ?thesis by (simp add: admissible_def)
  qed
  obtain r u where ch: "chain [dispatch_event ev' e, fetch_data] (s1\<lparr>dispatcher := d\<rparr>) = (r, u)" by fastforce
  have st: "(st, t) = (case r of Fault \<Rightarrow> (Session_Fault, u) | Ret_False \<Rightarrow> (TFTP_SESSION_STATE_ERROR, u)
      | Ret_True \<Rightarrow> if should_close u \<and> pending_jobs u = 0
               then (TFTP_SESSION_STATE_CLOSED, close_session u) else (TFTP_SESSION_STATE_IDLE, u))"
    using h unfolding tftp_session_handle_event_def g option.case ch
    by (cases r) simp_all
  have ok: "pending_jobs u = of_nat (in_flight_of (session_id u) (dispatcher u)) \<and> jobs_inv u" if "r = Ret_True"
    using handle_jobs [OF t g cancelled ch [unfolded that]] by blast
  show "st = TFTP_SESSION_STATE_IDLE \<Longrightarrow> jobs_inv t"
    using st ok by (cases r) (simp_all split: if_splits)
  show "st = TFTP_SESSION_STATE_CLOSED \<Longrightarrow> of_nat (in_flight_of (session_id t) (dispatcher t)) = (0 :: u8)"
    using st ok by (cases r) (simp_all add: close_session_def split: if_splits)
qed

section \<open>What holds along every run\<close>

interpretation session_jobs: invariant_machine just_started running jobs_inv
  by unfold_locales (auto simp: just_started_jobs_inv running_def session_step_jobs(1))

text \<open>An example: a job whose memory holds zeros, and a request.\<close>

definition example_info :: tftp_server_info where
  "example_info = \<lparr>info_addr = Sockaddr_In 0 0, root_dir = None, info_retries = 3, info_timeout = 2,
     is_adaptive_timeout_enabled = False, is_write_request_enabled = True, is_list_request_enabled = False\<rparr>"

definition example_peer :: sockaddr where
  "example_peer = Sockaddr_In 4660 2130706433"

definition example_request :: "byte list \<Rightarrow> tftp_peer_message" where
  "example_request bs = \<lparr>peer_addr = example_peer, bytes_recvd = int (length bs),
     is_orig_dest_addr_ipv4 = False, buffer = bs\<rparr>"

definition start_event :: dispatcher where
  "start_event = snd (dispatcher_submit True (Some (event_id 0 EVENT_START)) dispatcher_init)"

text \<open>A session whose fields can be set one by one; \<open>blank_session\<close> is after initialisation.\<close>

definition blank_session :: session where
  "blank_session =
     \<lparr>session_id = 0, server_info = example_info, request_args = example_request [],
      is_timer_active = False, request_type = SESSION_READ_REQUEST, file_descriptor = 0,
      mode = TFTP_MODE_OCTET, retries = 3, timeout = 2, block_size = tftp_default_blksize,
      window_size = 1, is_adaptive_timeout_active = False, current_retransmission = 0,
      total_retransmissions = 0, window_begin = 1, next_data_packet_to_send = 1,
      expected_sequence_number = 1, netascii_buffer = None, last_packet = - 1, last_block_size = 0,
      incomplete_read = False, sockfd = - 1, client_address = Sockaddr_Other 0,
      last_message_address = Sockaddr_Other 0, recv_buffer = [],
      stats = tftp_session_stat_init\<lparr>options_acked := ''''\<rparr>, opts = empty_session_options,
      is_fetching_data = False, should_close = False, pending_jobs = 0,
      event_timeout = zero_timespec,
      adaptive = adaptive_timeout_init\<lparr>is_first_measurement := False, rto := zero_timespec\<rparr>,
      error_packet_bytes = None, oack_packet = None, data_packets = [], dispatcher = start_event,
      open_file = None, os = plain_os, heap_block = [], resolver = (\<lambda>a. (0, 0, a)),
      out = [], closed = [], sys = [], clock = []\<rparr>"

lemma init_blank_session: "tftp_session_init 0 example_info start_event blank_session
  = blank_session\<lparr>request_args := request_args (tftp_session_init 0 example_info start_event blank_session)\<rparr>"
  by (simp add: tftp_session_init_def blank_session_def example_info_def)

definition example_session :: "byte list \<Rightarrow> session" where
  "example_session bs = blank_session\<lparr>request_args := example_request bs\<rparr>"

lemma example_just_started: "just_started (example_session bs)"
proof -
  have "example_session bs = (tftp_session_init 0 example_info start_event blank_session)
      \<lparr>request_args := example_request bs\<rparr>"
    by (subst init_blank_session) (simp add: example_session_def)
  moreover have "session_id (example_session bs) = 0"
    by (simp add: example_session_def blank_session_def)
  moreover have "in_flight_of 0 dispatcher_init = 0" by (simp add: in_flight_of_def dispatcher_init_def)
  ultimately show ?thesis
    unfolding just_started_def start_event_def by metis
qed

lemma example_reachable: "reachable_from just_started running (example_session bs)"
  by (rule reach_init) (rule example_just_started)

text \<open>
  C7: A session is released only when the kernel has nothing left to deliver to it.  Whenever
  handling an event ends with \<open>TFTP_SESSION_STATE_CLOSED\<close>, the number of requests in flight for the
  session is zero modulo 256 (the counter \<open>pending_jobs\<close> has eight bits), hence zero if fewer than 256
  are in flight: no completion can reach the freed buffers.
\<close>

theorem closed_with_nothing_in_flight:
  assumes "reachable_from just_started running s" and "admissible k c s"
    and "session_step k c s = Some (TFTP_SESSION_STATE_CLOSED, t)"
  shows "in_flight_of (session_id t) (dispatcher t) mod 256 = 0
    \<and> (in_flight_of (session_id t) (dispatcher t) < 256 \<longrightarrow> in_flight_of (session_id t) (dispatcher t) = 0)"
proof -
  have "of_nat (in_flight_of (session_id t) (dispatcher t)) = (0 :: u8)"
    by (rule session_step_jobs(2) [OF session_jobs.reachable_inv [OF assms(1)] assms(2,3) refl])
  then show ?thesis by (auto simp: word_of_nat_eq_0_iff elim!: dvdE)
qed

lemma example_invalid_closes:
  "map_option fst (session_step 0 (C_Result 0) (example_session (be16 9))) = Some TFTP_SESSION_STATE_CLOSED"
  by code_simp

lemma example_closes:
  obtains t where "session_step 0 (C_Result 0) (example_session (be16 9)) = Some (TFTP_SESSION_STATE_CLOSED, t)"
  using example_invalid_closes unfolding map_option_eq_Some by (metis prod.collapse)

theorem closed_with_nothing_in_flight_witness:
  "\<exists>t. session_step 0 (C_Result 0) (example_session (be16 9)) = Some (TFTP_SESSION_STATE_CLOSED, t)
     \<and> in_flight_of (session_id t) (dispatcher t) mod 256 = 0"
proof -
  let ?s = "example_session (be16 9)"
  have a: "admissible 0 (C_Result 0) ?s" unfolding admissible_def ECANCELED_def by simp
  obtain t where s: "session_step 0 (C_Result 0) ?s = Some (TFTP_SESSION_STATE_CLOSED, t)"
    by (rule example_closes)
  show ?thesis
    by (rule exI [of _ t], rule conjI, rule s)
      (rule closed_with_nothing_in_flight [OF example_reachable a s, THEN conjunct1])
qed

text \<open>
  C14: A session that is not closing always listens: in every state of every run in which
  \<open>should_close\<close> is not set, exactly one receive is in flight (before the start event is handled:
  the start event), so the session can always make progress; at most one file read is in flight, and
  it is there exactly when \<open>is_fetching_data\<close> says so; and \<open>pending_jobs\<close> counts the requests in
  flight other than the start event.
\<close>

theorem session_always_listening:
  assumes "reachable_from just_started running s"
  shows "(\<not> should_close s \<longrightarrow>
        in_flight (event_id (session_id s) EVENT_START) (dispatcher s)
        + in_flight (event_id (session_id s) EVENT_PACKET_RECEIVED) (dispatcher s) = 1)
    \<and> in_flight (event_id (session_id s) EVENT_PACKET_RECEIVED) (dispatcher s) \<le> 1
    \<and> in_flight (event_id (session_id s) EVENT_DATA_AVAILABLE) (dispatcher s)
        = (if is_fetching_data s then 1 else 0)
    \<and> pending_jobs s + of_nat (in_flight (event_id (session_id s) EVENT_START) (dispatcher s))
        = of_nat (in_flight_of (session_id s) (dispatcher s))"
  using session_jobs.reachable_inv [OF assms] unfolding jobs_inv_def Let_def by auto

theorem session_always_listening_witness:
  "pending_jobs (example_session []) + of_nat (in_flight (event_id 0 EVENT_START) start_event)
     = of_nat (in_flight_of 0 start_event)
   \<and> in_flight (event_id 0 EVENT_START) start_event = 1"
proof -
  let ?s = "example_session []"
  have id: "session_id ?s = 0" "dispatcher ?s = start_event"
    by (simp_all add: example_session_def blank_session_def)
  have "in_flight (event_id 0 EVENT_START) start_event = 1" by code_simp
  then show ?thesis
    using session_always_listening [OF example_reachable [of "[]"]]
    unfolding id by auto
qed

text \<open>
  C20: Rejecting an invalid request closes standard input.  The descriptor of a session that never
  opened a file is 0, not \<open>-1\<close>, and \<open>close_session\<close> closes it: whenever the request of a new job is
  not valid, the session closes descriptor 0 and nothing else.
\<close>

theorem invalid_request_closes_descriptor_zero:
  assumes "just_started s" and "\<not> is_request_valid s"
    and "k < length (ring (dispatcher s))" and "fst (ring (dispatcher s) ! k) = Some (event_id (session_id s) EVENT_START)"
    and "session_step k (C_Result 0) s = Some (st, t)"
  shows "st = TFTP_SESSION_STATE_CLOSED \<and> closed t = closed s @ [0] \<and> out t = out s"
proof -
  obtain info req d0 w where s: "s = (tftp_session_init (session_id s) info
              (snd (dispatcher_submit True (Some (event_id (session_id s) EVENT_START)) d0)) w)
              \<lparr>request_args := req\<rparr>"
    using assms(1) unfolding just_started_def by blast
  have f: "pending_jobs s = 0" "file_descriptor s = 0" "sockfd s = - 1"
    by (subst s, simp add: tftp_session_init_def)+
  from assms(5) obtain res s1 e d where c: "complete (snd (ring (dispatcher s) ! k)) (C_Result 0) s = Some (res, s1)"
    and w: "dispatcher_wait_event k res (dispatcher s1) = (Some e, d)"
    and h: "tftp_session_handle_event e (s1\<lparr>dispatcher := d\<rparr>) = (st, t)"
    by (auto simp: session_step_def split: if_splits option.splits prod.splits)
  have s1: "s1 = s"
    using c by (cases "snd (ring (dispatcher s) ! k)") (auto split: if_splits)
  have "ev_id e = event_id (session_id s) EVENT_START"
    using w s1 assms(4) by (auto simp: dispatcher_wait_event_def split: if_splits)
  then have g: "get_event (ev_id e) = Some EVENT_START" by (simp add: get_event_id)
  have "is_request_valid (s\<lparr>dispatcher := d\<rparr>) = is_request_valid s"
    unfolding is_request_valid_def by simp
  with assms(2) have v: "\<not> is_request_valid (s\<lparr>dispatcher := d\<rparr>)" by simp
  have "dispatch_event EVENT_START e (s\<lparr>dispatcher := d\<rparr>) = (Ret_True, s\<lparr>dispatcher := d, should_close := True\<rparr>)"
    by (simp add: handle_start_def start_def v)
  then have "chain [dispatch_event EVENT_START e, fetch_data] (s\<lparr>dispatcher := d\<rparr>)
      = (Ret_True, s\<lparr>dispatcher := d, should_close := True\<rparr>)"
    by (simp add: fetch_data_closed del: dispatch_event.simps)
  then show ?thesis
    using h f unfolding tftp_session_handle_event_def g s1 option.case
    by (auto simp: close_session_def)
qed

theorem invalid_request_closes_descriptor_zero_witness:
  "\<exists>t. session_step 0 (C_Result 0) (example_session (be16 9)) = Some (TFTP_SESSION_STATE_CLOSED, t)
     \<and> closed t = [0] \<and> out t = []"
proof -
  let ?s = "example_session (be16 9)"
  have v: "\<not> is_request_valid ?s" by code_simp
  have id: "session_id ?s = 0" "dispatcher ?s = start_event" "closed ?s = []" "out ?s = []"
    by (simp_all add: example_session_def blank_session_def)
  have k: "0 < length (ring (dispatcher ?s))" "fst (ring (dispatcher ?s) ! 0) = Some (event_id (session_id ?s) EVENT_START)"
    unfolding id by (simp_all add: start_event_def dispatcher_submit_def submit_request_def dispatcher_init_def)
  obtain t where "session_step 0 (C_Result 0) ?s = Some (TFTP_SESSION_STATE_CLOSED, t)"
    by (rule example_closes)
  with invalid_request_closes_descriptor_zero [OF example_just_started v k this]
  show ?thesis unfolding id by (intro exI [of _ t]) simp
qed

end
