(* ===== verification/Tftp_Session_Read.thy ===== *)
theory Tftp_Session_Read
  imports Tftp_Session_Loop
begin

text \<open>
  Reading: the window of unacknowledged DATA packets of a read request.
\<close>

section \<open>The packet buffer of a session is a ring\<close>

definition ring_ready :: "session \<Rightarrow> bool" where
  "ring_ready s \<longleftrightarrow> window_size s \<noteq> 0 \<and> length (data_packets s) = unat (window_size s)"

definition slot_of :: "session \<Rightarrow> u16 \<Rightarrow> nat" where
  "slot_of s i = packet_slot (window_size s) i"

definition slot_bytes :: "session \<Rightarrow> nat \<Rightarrow> byte list" where
  "slot_bytes s k = data_packets s ! k"

definition store_slot :: "session \<Rightarrow> nat \<Rightarrow> byte list \<Rightarrow> session" where
  "store_slot s k p = s\<lparr>data_packets := (data_packets s)[k := p]\<rparr>"

interpretation sr: packet_ring ring_ready "\<lambda>s. unat (window_size s)" slot_of slot_bytes store_slot
    "\<lambda>s. wrap_free (window_size s)"
  by unfold_locales
    (auto simp: ring_ready_def slot_of_def slot_bytes_def store_slot_def packet_slot_less
      intro!: packet_slot_inject)

section \<open>What a timeout sends again\<close>

text \<open>The number of unacknowledged packets, and the datagram that is sent for the \<open>d\<close>-th of them.\<close>

definition outstanding :: "session \<Rightarrow> nat" where
  "outstanding s = unat (next_data_packet_to_send s - window_begin s)"

definition window_datagram :: "session \<Rightarrow> nat \<Rightarrow> sockaddr \<times> byte list" where
  "window_datagram s d =
     (let i = window_begin s + word_of_nat d
      in (client_address s,
          take (unat (4 + (if uint i = last_packet s then last_block_size s else block_size s)))
            (slot_bytes s (slot_of s i))))"

text \<open>Every slot holds a header and a block; a negotiated block size is at most 65464.\<close>

definition slots_sized :: "session \<Rightarrow> bool" where
  "slots_sized s \<longleftrightarrow> unat (block_size s) < 65532 \<and> last_block_size s \<le> block_size s
     \<and> (\<forall>p \<in> set (data_packets s). length p = 4 + unat (block_size s))"

lemma unat_of_nat16: "d < 65536 \<Longrightarrow> unat (word_of_nat d :: u16) = d"
  by (rule unat_word16_of_nat)

lemma unat_four_plus: "unat w < 65532 \<Longrightarrow> unat (4 + w :: u16) = 4 + unat w"
  by (simp add: unat_add16)

lemma in_outstanding_offset:
  "next_data_packet_to_send s \<noteq> window_begin s \<Longrightarrow> d < 65536 \<Longrightarrow>
   is_in_range (window_begin s + word_of_nat d) (window_begin s) (next_data_packet_to_send s - 1)
     \<longleftrightarrow> d < outstanding s"
  by (simp add: in_outstanding outstanding_def unat_of_nat16)

lemma outstanding_less: "outstanding s < 65536"
  unfolding outstanding_def by (rule unat_u16_less)

lemma outstanding_pos: "next_data_packet_to_send s \<noteq> window_begin s \<Longrightarrow> 0 < outstanding s"
  by (simp add: outstanding_def unat_gt_0)

lemma sendto_frame:
  assumes "sendto d p s = (r, t)"
  obtains y x where "t = s\<lparr>sys := y, out := x\<rparr>"
proof -
  have "t = s\<lparr>sys := sys t, out := out t\<rparr>"
    using assms by (cases "sys s") (auto simp: sendto_def sys_call_def split: if_splits)
  then show thesis by (rule that)
qed

lemma sendto_nominal:
  "sys s = [] \<Longrightarrow> sendto d p s = (int (length p), s\<lparr>out := out s @ [(d, p)]\<rparr>)"
  by (simp add: sendto_def sys_call_def)

lemma outstanding_frame [simp]:
  "outstanding (s\<lparr>sys := y\<rparr>) = outstanding s" "outstanding (s\<lparr>out := x\<rparr>) = outstanding s"
  "window_datagram (s\<lparr>out := x\<rparr>) = window_datagram s"
  by (simp_all add: outstanding_def window_datagram_def slot_bytes_def slot_of_def Let_def fun_eq_iff)

text \<open>
  With packets outstanding the loop ends, whatever the calls to \<open>sendto\<close> return: it moves at most
  from the first outstanding packet to the last.
\<close>

lemma retransmit_returns_from:
  "next_data_packet_to_send s \<noteq> window_begin s \<Longrightarrow> d \<le> outstanding s \<Longrightarrow>
   \<exists>r. retransmit (window_begin s + word_of_nat d) s = Some r"
proof (induction "outstanding s - d" arbitrary: d s)
  case 0
  then have "d = outstanding s" by simp
  then have "\<not> is_in_range (window_begin s + word_of_nat d) (window_begin s) (next_data_packet_to_send s - 1)"
    using in_outstanding_offset [OF 0(2)] outstanding_less by simp
  then show ?case by (simp add: retransmit.simps)
next
  case (Suc k)
  let ?i = "window_begin s + word_of_nat d"
  have dl: "d < outstanding s" using Suc(2) by simp
  have nxt: "?i + 1 = window_begin s + word_of_nat (Suc d)" by (simp add: algebra_simps)
  show ?case
  proof (cases "get_data_packet_info s ?i")
    case None
    then show ?thesis by (subst retransmit.simps) simp
  next
    case (Some q)
    obtain p n where q: "q = (p, n)" by fastforce
    obtain r t where st: "sendto (client_address s) (take n p) s = (r, t)" by fastforce
    obtain y x where t: "t = s\<lparr>sys := y, out := x\<rparr>" by (rule sendto_frame [OF st])
    have "\<exists>r. retransmit (window_begin t + word_of_nat (Suc d)) t = Some r"
      using Suc(2,3) dl by (intro Suc(1)) (simp_all add: t)
    then show ?thesis
      using Some st t by (subst retransmit.simps) (simp add: q nxt del: of_nat_Suc)
  qed
qed

lemma retransmit_sends_from:
  "next_data_packet_to_send s \<noteq> window_begin s \<Longrightarrow> d \<le> outstanding s \<Longrightarrow>
   ring_ready s \<Longrightarrow> slots_sized s \<Longrightarrow> sys s = [] \<Longrightarrow>
   retransmit (window_begin s + word_of_nat d) s
     = Some (Ret_True, s\<lparr>out := out s @ map (window_datagram s) [d..<outstanding s]\<rparr>)"
proof (induction "outstanding s - d" arbitrary: d s)
  case 0
  then have "d = outstanding s" by simp
  then have "\<not> is_in_range (window_begin s + word_of_nat d) (window_begin s) (next_data_packet_to_send s - 1)"
    using in_outstanding_offset [OF 0(2)] outstanding_less by simp
  then show ?case using \<open>d = outstanding s\<close> by (simp add: retransmit.simps)
next
  case (Suc k)
  let ?i = "window_begin s + word_of_nat d"
  let ?n = "unat (4 + (if uint ?i = last_packet s then last_block_size s else block_size s))"
  let ?t = "s\<lparr>out := out s @ [window_datagram s d]\<rparr>"
  have dl: "d < outstanding s" using Suc(2) by simp
  have nxt: "?i + 1 = window_begin s + word_of_nat (Suc d)" by (simp add: algebra_simps)
  have k: "slot_of s ?i < length (data_packets s)"
    using Suc(5) sr.slot_less [of s ?i] by (simp add: ring_ready_def)
  then have info: "get_data_packet_info s ?i = Some (slot_bytes s (slot_of s ?i), ?n)"
    using Suc(5) by (simp add: get_data_packet_info_def slot_of_def slot_bytes_def ring_ready_def)
  have len: "length (slot_bytes s (slot_of s ?i)) = 4 + unat (block_size s)"
    using k Suc(6) by (simp add: slots_sized_def slot_bytes_def)
  have "?n \<le> 4 + unat (block_size s)"
    using Suc(6) by (auto simp: slots_sized_def unat_four_plus word_le_nat_alt)
  then have l: "length (take ?n (slot_bytes s (slot_of s ?i))) = ?n" using len by simp
  have n_nonneg: "int ?n \<noteq> - 1" by linarith
  have st: "sendto (client_address s) (take ?n (slot_bytes s (slot_of s ?i))) s = (int ?n, ?t)"
    unfolding sendto_nominal [OF Suc(7)] l by (simp add: window_datagram_def Let_def)
  have "retransmit (window_begin ?t + word_of_nat (Suc d)) ?t
     = Some (Ret_True, ?t\<lparr>out := out ?t @ map (window_datagram ?t) [Suc d..<outstanding ?t]\<rparr>)"
    using Suc(2-7) dl by (intro Suc(1)) (simp_all add: ring_ready_def slots_sized_def)
  moreover have "is_in_range ?i (window_begin s) (next_data_packet_to_send s - 1)"
    using in_outstanding_offset [OF Suc(3)] dl outstanding_less [of s] by simp
  ultimately show ?case
    using dl by (subst retransmit.simps) (simp add: info st nxt n_nonneg upt_conv_Cons del: of_nat_Suc of_nat_unat)
qed

text \<open>With no packet outstanding every block number is in the range, and the loop does not end.\<close>

lemma retransmit_empty_window:
  "retransmit i s = Some y \<Longrightarrow> next_data_packet_to_send s = window_begin s \<Longrightarrow>
   ring_ready s \<Longrightarrow> slots_sized s \<Longrightarrow> sys s = [] \<Longrightarrow> False"
proof (induction rule: retransmit_induct)
  case (step rt i s y)
  let ?n = "unat (4 + (if uint i = last_packet s then last_block_size s else block_size s))"
  have rng: "is_in_range i (window_begin s) (next_data_packet_to_send s - 1)"
    by (simp add: ack_window_test step.prems(1))
  have k: "slot_of s i < length (data_packets s)"
    using step.prems(2) sr.slot_less [of s i] by (simp add: ring_ready_def)
  then have info: "get_data_packet_info s i = Some (slot_bytes s (slot_of s i), ?n)"
    using step.prems(2) by (simp add: get_data_packet_info_def slot_of_def slot_bytes_def ring_ready_def)
  have "length (slot_bytes s (slot_of s i)) = 4 + unat (block_size s)"
    using k step.prems(3) by (simp add: slots_sized_def slot_bytes_def)
  moreover have "?n \<le> 4 + unat (block_size s)"
    using step.prems(3) by (auto simp: slots_sized_def unat_four_plus word_le_nat_alt)
  ultimately have l: "length (take ?n (slot_bytes s (slot_of s i))) = ?n" by simp
  let ?t = "s\<lparr>out := out s @ [(client_address s, take ?n (slot_bytes s (slot_of s i)))]\<rparr>"
  have n_nonneg: "int ?n \<noteq> - 1" by linarith
  have st: "sendto (client_address s) (take ?n (slot_bytes s (slot_of s i))) s = (int ?n, ?t)"
    unfolding sendto_nominal [OF step.prems(4)] l by simp
  have "rt (i + 1) ?t = Some y" using step.hyps rng by (simp add: info st n_nonneg del: of_nat_unat)
  then show False
    using step.prems by (intro step.IH [of "i + 1" ?t y]) (simp_all add: ring_ready_def slots_sized_def)
qed

lemma backoff_frame [simp]:
  "sys (backoff s) = sys s" "window_begin (backoff s) = window_begin s" "opts (backoff s) = opts s"
  "next_data_packet_to_send (backoff s) = next_data_packet_to_send s"
  "request_type (backoff s) = request_type s"
  "current_retransmission (backoff s) = current_retransmission s"
  "client_address (backoff s) = client_address s" "last_packet (backoff s) = last_packet s"
  "out (backoff s) = out s" "last_block_size (backoff s) = last_block_size s"
  "block_size (backoff s) = block_size s" "window_size (backoff s) = window_size s"
  "data_packets (backoff s) = data_packets s"
  by (simp_all add: backoff_def Let_def)

lemma submit_nominal:
  "sys s = [] \<Longrightarrow> (\<And>d. r True d = submit_request True i req d) \<Longrightarrow>
   submit r s = (Ret_True, s\<lparr>dispatcher := snd (submit_request True i req (dispatcher s)),
                              pending_jobs := pending_jobs s + 1\<rparr>)"
  by (simp add: submit_def sys_call_def submit_request_def)

lemma submit_timeout_nominal:
  assumes "sys s = []"
  obtains d where "submit_timeout s
    = (Ret_True, s\<lparr>dispatcher := d, pending_jobs := pending_jobs s + 1, is_timer_active := True\<rparr>)"
  unfolding submit_timeout_def
  by (simp add: submit_nominal [OF assms] dispatcher_submit_defs assign_def that)

lemma window_datagram_cong:
  "client_address t = client_address s \<Longrightarrow> window_begin t = window_begin s \<Longrightarrow> last_packet t = last_packet s
   \<Longrightarrow> last_block_size t = last_block_size s \<Longrightarrow> block_size t = block_size s
   \<Longrightarrow> window_size t = window_size s \<Longrightarrow> data_packets t = data_packets s
   \<Longrightarrow> window_datagram t = window_datagram s"
  by (simp add: window_datagram_def slot_bytes_def slot_of_def fun_eq_iff Let_def)

text \<open>
  C36: A timeout of a read request sends the window again.  If packets are outstanding, the options
  need no acknowledgement any more and the number of retransmissions is not exhausted, handling the
  timeout submits the next timeout, counts the retransmission and sends exactly the unacknowledged
  packets, in order, each with its own length, and nothing else (calls to the system succeed).
\<close>

theorem timeout_resends_window:
  assumes "request_type s = SESSION_READ_REQUEST" and "\<not> awaiting_options_ack s"
    and "current_retransmission s < retries s"
    and "next_data_packet_to_send s \<noteq> window_begin s"
    and "ring_ready s" and "slots_sized s" and "sys s = []"
  shows "\<exists>t. on_timeout s = (Ret_True, t)
    \<and> out t = out s @ map (window_datagram s) [0..<outstanding s]
    \<and> current_retransmission t = current_retransmission s + 1
    \<and> is_timer_active t \<and> window_begin t = window_begin s
    \<and> next_data_packet_to_send t = next_data_packet_to_send s"
proof -
  let ?s1 = "backoff (s\<lparr>current_retransmission := current_retransmission s + 1,
             total_retransmissions := total_retransmissions s + 1\<rparr>)"
  have f: "sys ?s1 = []" "window_begin ?s1 = window_begin s" "opts ?s1 = opts s"
    "next_data_packet_to_send ?s1 = next_data_packet_to_send s" "request_type ?s1 = request_type s"
    "current_retransmission ?s1 = current_retransmission s + 1"
    "client_address ?s1 = client_address s" "last_packet ?s1 = last_packet s" "out ?s1 = out s"
    "last_block_size ?s1 = last_block_size s" "block_size ?s1 = block_size s"
    "window_size ?s1 = window_size s" "data_packets ?s1 = data_packets s"
    by (simp_all add: assms(7))
  obtain d where d: "submit_timeout ?s1
      = (Ret_True, ?s1\<lparr>dispatcher := d, pending_jobs := pending_jobs ?s1 + 1, is_timer_active := True\<rparr>)"
    by (rule submit_timeout_nominal [OF f(1)])
  define u where "u = ?s1\<lparr>dispatcher := d, pending_jobs := pending_jobs ?s1 + 1, is_timer_active := True\<rparr>"
  have u: "sys u = []" "window_begin u = window_begin s" "opts u = opts s"
    "next_data_packet_to_send u = next_data_packet_to_send s" "request_type u = request_type s"
    "current_retransmission u = current_retransmission s + 1" "is_timer_active u"
    "client_address u = client_address s" "last_packet u = last_packet s" "out u = out s"
    "last_block_size u = last_block_size s" "block_size u = block_size s"
    "window_size u = window_size s" "data_packets u = data_packets s"
    by (simp_all add: u_def assms(7))
  have o: "outstanding u = outstanding s" by (simp add: outstanding_def u)
  have w: "window_datagram u = window_datagram s" by (rule window_datagram_cong) (simp_all add: u)
  have "retransmit (window_begin u + word_of_nat 0) u
      = Some (Ret_True, u\<lparr>out := out u @ map (window_datagram u) [0..<outstanding u]\<rparr>)"
    by (rule retransmit_sends_from)
      (use assms(4-6) u in \<open>simp_all add: ring_ready_def slots_sized_def\<close>)
  then have r: "retransmit_window u = (Ret_True, u\<lparr>out := out s @ map (window_datagram s) [0..<outstanding s]\<rparr>)"
    by (simp add: retransmit_window_def u w o)
  have n: "\<not> retries s \<le> current_retransmission s" using assms(3) by (simp add: not_le)
  have wr: "\<not> (valid_options_required (opts u) \<and> \<not> options_acknowledged (opts u))"
    and rd: "request_type u \<noteq> SESSION_WRITE_REQUEST"
    using assms(1,2) u(3,5) by (simp_all add: awaiting_options_ack_def)
  have "on_timeout s = retransmit_window u"
    unfolding on_timeout_def if_not_P [OF n] chain.simps assign_def prod.case ret.case d u_def [symmetric]
      if_not_P [OF wr] if_not_P [OF rd] r ..
  then show ?thesis using r u by simp
qed

section \<open>A spurious acknowledgement\<close>

lemma uint16_not_minus_one [simp]: "uint (w :: u16) \<noteq> - 1"
  using unsigned_greater_eq [of w, where 'a = int] by linarith

lemma submit_cancel_timeout_nominal:
  assumes "sys s = []"
  obtains d where "submit_cancel_timeout s
    = (Ret_True, s\<lparr>dispatcher := d, pending_jobs := pending_jobs s + 1, is_timer_active := False\<rparr>)"
  unfolding submit_cancel_timeout_def
  by (simp add: submit_nominal [OF assms] dispatcher_submit_defs assign_def that)

text \<open>\<open>ack_advance\<close> when every call succeeds and the timer is not adaptive.\<close>

lemma ack_advance_nominal:
  assumes "sys s = []" and "\<not> is_adaptive_timeout_active s"
  obtains d n where "ack_advance block s = (Ret_True, s\<lparr>window_begin := block + 1, dispatcher := d,
      pending_jobs := n, is_timer_active := (block + 1 \<noteq> next_data_packet_to_send s),
      stats := (stats s)\<lparr>packets_acked := packets_acked (stats s) + 1\<rparr>, current_retransmission := 0,
      should_close := (last_packet s \<noteq> - 1 \<and> uint block = last_packet s)\<rparr>)"
proof -
  let ?s1 = "s\<lparr>window_begin := block + 1\<rparr>"
  have a: "adaptive_on_ack block ?s1 = ?s1" using assms(2) by (simp add: adaptive_on_ack_def)
  obtain d1 where d1: "submit_cancel_timeout ?s1
      = (Ret_True, ?s1\<lparr>dispatcher := d1, pending_jobs := pending_jobs ?s1 + 1, is_timer_active := False\<rparr>)"
    by (rule submit_cancel_timeout_nominal [of ?s1]) (use assms(1) in simp)
  let ?s2 = "?s1\<lparr>dispatcher := d1, pending_jobs := pending_jobs ?s1 + 1, is_timer_active := False\<rparr>"
  obtain d2 where d2: "submit_timeout ?s2
      = (Ret_True, ?s2\<lparr>dispatcher := d2, pending_jobs := pending_jobs ?s2 + 1, is_timer_active := True\<rparr>)"
    by (rule submit_timeout_nominal [of ?s2]) (use assms(1) in simp)
  show thesis
  proof (cases "block + 1 = next_data_packet_to_send s")
    case True
    show thesis
      by (rule that [where d = d1 and n = "pending_jobs s + 1"])
        (unfold ack_advance_def chain.simps assign_def prod.case ret.case a d1, simp add: True)
  next
    case False
    then have c: "window_begin ?s2 \<noteq> next_data_packet_to_send ?s2" by simp
    show thesis
      by (rule that [where d = d2 and n = "pending_jobs s + 1 + 1"])
        (unfold ack_advance_def chain.simps assign_def prod.case ret.case a d1 if_P [OF c] d2, simp add: False)
  qed
qed

lemma send_data_packet_nominal:
  assumes "sys s = []" and "ring_ready s"
  shows "\<exists>x. send_data_packet s = (Ret_True, s\<lparr>out := out s @ [(client_address s, x)]\<rparr>)"
proof -
  have "slot_of s (next_data_packet_to_send s) < length (data_packets s)"
    using assms(2) sr.slot_less by (simp add: ring_ready_def)
  then show ?thesis
    using assms by (simp add: send_data_packet_def get_data_packet_info_def slot_of_def ring_ready_def
        send_or_fail_def sendto_nominal) blast
qed

text \<open>
  C39: One acknowledgement too early stops the server.  If no packet is outstanding and an
  acknowledgement of the block that is still being read arrives, it is accepted; when the block has
  then been read and sent, no packet is outstanding but the timer is running; and when the timer
  fires the retransmission loop never ends (\<open>retransmit\<close> has no value), so the worker thread hangs
  with all its sessions.
\<close>

theorem early_ack_hangs_the_worker:
  assumes "request_type s = SESSION_READ_REQUEST" and "mode s = TFTP_MODE_OCTET"
    and "\<not> awaiting_options_ack s" and "\<not> is_adaptive_timeout_active s"
    and "window_begin s = next_data_packet_to_send s" and "last_packet s = - 1"
    and "ring_ready s" and "slots_sized s" and "sys s = []" and "0 < retries s"
    and "last_block_size s = 0" and "is_success e" and "ev_result e = uint (block_size s)"
  shows "\<exists>s1 s2 s3. on_ack (next_data_packet_to_send s) s = (Ret_True, s1)
    \<and> on_data_available e s1 = (Ret_True, s2)
    \<and> is_timer_active s2 \<and> window_begin s2 = next_data_packet_to_send s2
    \<and> retransmit (window_begin s2) s2 = None
    \<and> on_timeout s2 = (Fault, s3)"
proof -
  let ?b = "next_data_packet_to_send s"
  have rng: "is_in_range ?b (window_begin s) (?b - 1)" by (simp add: assms(5) ack_window_test)
  have "unat (block_size s) < 65532" using assms(8) by (simp add: slots_sized_def)
  then have cum: "get_cumulative_ackd_payload_size (block_size s) (window_begin s) (last_packet s)
      (last_block_size s) ?b = Some (unat (block_size s))"
    by (simp add: get_cumulative_ackd_payload_size_def assms(5,6))
  let ?s0 = "s\<lparr>stats := (stats s)\<lparr>bytes_sent := bytes_sent (stats s) + unat (block_size s)\<rparr>\<rparr>"
  have ack: "on_ack ?b s = ack_advance ?b ?s0"
    using assms(3) rng cum by (simp add: on_ack_def)
  obtain d n where adv: "ack_advance ?b ?s0 = (Ret_True, ?s0\<lparr>window_begin := ?b + 1, dispatcher := d,
      pending_jobs := n, is_timer_active := (?b + 1 \<noteq> next_data_packet_to_send ?s0),
      stats := (stats ?s0)\<lparr>packets_acked := packets_acked (stats ?s0) + 1\<rparr>, current_retransmission := 0,
      should_close := (last_packet ?s0 \<noteq> - 1 \<and> uint ?b = last_packet ?s0)\<rparr>)"
    by (rule ack_advance_nominal [of ?s0 ?b]) (use assms(4,9) in simp_all)
  define s1 where "s1 = ?s0\<lparr>window_begin := ?b + 1, dispatcher := d,
      pending_jobs := n, is_timer_active := (?b + 1 \<noteq> next_data_packet_to_send ?s0),
      stats := (stats ?s0)\<lparr>packets_acked := packets_acked (stats ?s0) + 1\<rparr>, current_retransmission := 0,
      should_close := (last_packet ?s0 \<noteq> - 1 \<and> uint ?b = last_packet ?s0)\<rparr>"
  have f1: "window_begin s1 = ?b + 1" "is_timer_active s1" "next_data_packet_to_send s1 = ?b"
    "mode s1 = TFTP_MODE_OCTET" "block_size s1 = block_size s" "last_block_size s1 = 0" "sys s1 = []"
    "ring_ready s1" "slots_sized s1" "\<not> is_adaptive_timeout_active s1" "last_packet s1 = - 1"
    "current_retransmission s1 = 0" "retries s1 = retries s" "opts s1 = opts s"
    "request_type s1 = SESSION_READ_REQUEST"
    using assms by (simp_all add: s1_def ring_ready_def slots_sized_def)
  let ?h = "tftp_data_packet_init ?b"
  have n: "nat (ev_result e) = unat (block_size s)" by (simp add: assms(13))
  have k: "current_slot s1 < length (data_packets s1)" "window_size s1 \<noteq> 0"
    using f1(8) sr.slot_less [OF f1(8), of ?b] f1(3) by (simp_all add: ring_ready_def current_slot_def slot_of_def)
  define s2 where "s2 = s1\<lparr>last_block_size := block_size s, data_packets := (data_packets s1)[current_slot s1 :=
        splice 0 ?h (data_packets s1 ! current_slot s1)]\<rparr>"
  have cs: "current_slot (s1\<lparr>last_block_size := x\<rparr>) = current_slot s1" for x by (simp add: current_slot_def)
  have cd: "create_data_packets (nat (ev_result e)) s1 = (Ret_True, s2)"
    unfolding create_data_packets_def Let_def n
    using k by (simp add: f1 s2_def write_slot_def cs)
  have len: "length ?h = 4" by (simp add: tftp_data_packet_init_def)
  have f2: "window_begin s2 = ?b + 1" "is_timer_active s2" "next_data_packet_to_send s2 = ?b"
    "block_size s2 = block_size s" "last_block_size s2 = block_size s" "sys s2 = []" "ring_ready s2"
    "\<not> is_adaptive_timeout_active s2" "current_retransmission s2 = 0" "retries s2 = retries s"
    "opts s2 = opts s" "request_type s2 = SESSION_READ_REQUEST"
    using f1 by (simp_all add: s2_def ring_ready_def)
  have "\<forall>p \<in> set (data_packets s2). length p = 4 + unat (block_size s)"
    using f1(5,9) len k(1)
    by (auto simp: s2_def slots_sized_def set_conv_nth nth_list_update split: if_splits)
  then have sz2: "slots_sized s2" using f1(5,9) f2(4,5) by (simp add: slots_sized_def)
  obtain x where x: "send_data_packet s2 = (Ret_True, s2\<lparr>out := out s2 @ [(client_address s2, x)]\<rparr>)"
    using send_data_packet_nominal [OF f2(6,7)] by blast
  define s3 where "s3 = s2\<lparr>out := out s2 @ [(client_address s2, x)],
      stats := (stats s2)\<lparr>packets_sent := packets_sent (stats s2) + 1\<rparr>, next_data_packet_to_send := ?b + 1\<rparr>"
  have "on_data_available_send s2 = (Ret_True, s3)"
    by (simp add: on_data_available_send_def assign_def x f2 s3_def)
  then have data: "on_data_available e s1 = (Ret_True, s3)"
    by (simp add: on_data_available_def f1 assms(12) cd)
  have f3: "is_timer_active s3" "window_begin s3 = next_data_packet_to_send s3" "ring_ready s3"
    "slots_sized s3" "sys s3 = []"
    using f2 sz2 by (simp_all add: s3_def ring_ready_def slots_sized_def)
  have none: "retransmit i t = None" if "window_begin t = next_data_packet_to_send t" "ring_ready t"
    "slots_sized t" "sys t = []" for i t
    using retransmit_empty_window [of i t] that by (cases "retransmit i t") auto
  let ?t0 = "backoff (s3\<lparr>current_retransmission := current_retransmission s3 + 1,
             total_retransmissions := total_retransmissions s3 + 1\<rparr>)"
  obtain d3 where d3: "submit_timeout ?t0
      = (Ret_True, ?t0\<lparr>dispatcher := d3, pending_jobs := pending_jobs ?t0 + 1, is_timer_active := True\<rparr>)"
    by (rule submit_timeout_nominal [of ?t0]) (use f3(5) in simp)
  let ?t = "?t0\<lparr>dispatcher := d3, pending_jobs := pending_jobs ?t0 + 1, is_timer_active := True\<rparr>"
  have "\<not> retries s3 \<le> current_retransmission s3"
    using assms(10) f2(9,10) by (simp add: s3_def not_le)
  note nr = if_not_P [OF this]
  have "\<not> (valid_options_required (opts ?t) \<and> \<not> options_acknowledged (opts ?t))"
    using assms(3) f2(11) by (simp add: s3_def awaiting_options_ack_def)
  note wr = if_not_P [OF this]
  have "request_type ?t \<noteq> SESSION_WRITE_REQUEST" using f2(12) by (simp add: s3_def)
  note rd = if_not_P [OF this]
  have "on_timeout s3 = retransmit_window ?t"
    unfolding on_timeout_def nr chain.simps assign_def prod.case ret.case d3 wr rd
    by (cases "retransmit_window ?t"; cases "fst (retransmit_window ?t)") auto
  also have "\<dots> = (Fault, ?t)"
    using f3 none [of ?t "window_begin ?t"] by (simp add: retransmit_window_def ring_ready_def slots_sized_def)
  finally show ?thesis
    using ack adv data f3(1,2) none [OF f3(2,3,4,5)] unfolding s1_def [symmetric]
    by (intro exI [of _ s1] exI [of _ s3] exI [of _ ?t] conjI) simp_all
qed

text \<open>A read session with one slot of eight bytes, before anything is sent and with one packet sent.\<close>

definition read_example :: session where
  "read_example = blank_session\<lparr>block_size := 8, data_packets := [tftp_data_packet_init 1 @ ''01234567'']\<rparr>"

definition sent_example :: session where
  "sent_example = read_example\<lparr>next_data_packet_to_send := 2, client_address := example_peer\<rparr>"

lemma example_fields:
  "request_type read_example = SESSION_READ_REQUEST" "mode read_example = TFTP_MODE_OCTET"
  "\<not> awaiting_options_ack read_example" "\<not> is_adaptive_timeout_active read_example"
  "window_begin read_example = 1" "next_data_packet_to_send read_example = 1"
  "last_packet read_example = - 1" "ring_ready read_example" "slots_sized read_example"
  "sys read_example = []" "0 < retries read_example" "current_retransmission read_example = 0"
  "last_block_size read_example = 0" "block_size read_example = 8" "out read_example = []"
  "retries read_example = 3" "window_size read_example = 1"
  by (simp_all add: read_example_def blank_session_def awaiting_options_ack_def empty_session_options_def
      ring_ready_def slots_sized_def tftp_data_packet_init_def)

theorem early_ack_hangs_the_worker_witness:
  "\<exists>s1 s2. on_ack 1 read_example = (Ret_True, s1)
     \<and> on_data_available \<lparr>ev_id = 0, is_success = True, ev_result = 8\<rparr> s1 = (Ret_True, s2)
     \<and> is_timer_active s2 \<and> retransmit (window_begin s2) s2 = None"
proof -
  let ?e = "\<lparr>ev_id = 0, is_success = True, ev_result = 8\<rparr>"
  have w: "window_begin read_example = next_data_packet_to_send read_example" by (simp add: example_fields)
  have "is_success ?e" "ev_result ?e = uint (block_size read_example)" by (simp_all add: example_fields)
  from early_ack_hangs_the_worker [OF example_fields(1-4) w example_fields(7-11,13) this]
  show ?thesis unfolding example_fields(6) by blast
qed

theorem timeout_resends_window_witness:
  "\<exists>t. on_timeout sent_example = (Ret_True, t)
     \<and> out t = [(example_peer, tftp_data_packet_init 1 @ ''01234567'')]"
proof -
  have f: "request_type sent_example = SESSION_READ_REQUEST" "\<not> awaiting_options_ack sent_example"
    "current_retransmission sent_example < retries sent_example"
    "next_data_packet_to_send sent_example \<noteq> window_begin sent_example"
    "ring_ready sent_example" "slots_sized sent_example" "sys sent_example = []"
    "out sent_example = []"
    using example_fields by (simp_all add: sent_example_def awaiting_options_ack_def ring_ready_def slots_sized_def)
  have "outstanding sent_example = 1"
    by (simp add: outstanding_def sent_example_def example_fields)
  moreover have "window_datagram sent_example 0 = (example_peer, tftp_data_packet_init 1 @ ''01234567'')"
    by (simp add: window_datagram_def sent_example_def example_fields slot_of_def slot_bytes_def packet_slot_def)
      (simp add: read_example_def tftp_data_packet_init_def)
  ultimately show ?thesis
    using timeout_resends_window [OF f(1-7)] f(8) by auto
qed

section \<open>Giving up\<close>

text \<open>
  C40: When the retransmissions are exhausted the session gives up: it cancels its receive, tells the
  client how often it has retransmitted (and that the last acknowledgement is missing, if all has
  been sent) in an ERROR packet, and closes.
\<close>

theorem timeout_gives_up:
  assumes "retries s \<le> current_retransmission s" and "sys s = []"
  shows "\<exists>t. on_timeout s = (Ret_True, t) \<and> should_close t
    \<and> out t = out s @ [(client_address s, error_packet not_defined
        (''timeout after '' @ show_dec (unat (current_retransmission s)) @ '' retransmits.''
         @ (if last_packet s \<noteq> - 1 then '' Missed last ack.'' else '''')))]
    \<and> in_flight (event_id (session_id s) EVENT_PACKET_RECEIVED_REMOVED) (dispatcher t)
        = in_flight (event_id (session_id s) EVENT_PACKET_RECEIVED_REMOVED) (dispatcher s) + 1"
proof -
  let ?s = "s\<lparr>should_close := True\<rparr>"
  have "recv_async_cancel ?s = (Ret_True, ?s\<lparr>dispatcher := snd (submit_request True
      (Some (ev EVENT_PACKET_RECEIVED_REMOVED ?s)) (Req_Cancel (ev EVENT_PACKET_RECEIVED ?s)) (dispatcher ?s)),
      pending_jobs := pending_jobs ?s + 1\<rparr>)"
    unfolding recv_async_cancel_def
    by (rule submit_nominal) (simp_all add: assms(2) dispatcher_submit_cancel_def)
  then show ?thesis
    using assms
    by (simp add: on_timeout_def set_max_retransmissions_error_def error_packet_init_def malloc_or_fail_def
        sys_call_def assign_def set_error_def send_error_packet_def send_or_fail_def sendto_nominal ev_def)
qed

theorem timeout_gives_up_witness:
  "\<exists>t. on_timeout (read_example\<lparr>current_retransmission := 3\<rparr>) = (Ret_True, t) \<and> should_close t
     \<and> map snd (out t) = [error_packet 0 ''timeout after 3 retransmits.'']"
proof -
  let ?s = "read_example\<lparr>current_retransmission := 3\<rparr>"
  have "retries ?s \<le> current_retransmission ?s" "sys ?s = []" by (simp_all add: example_fields)
  moreover have "show_dec 3 = ''3''" by code_simp
  ultimately show ?thesis
    using timeout_gives_up [of ?s] by (auto simp: example_fields)
qed

end
