(* ===== verification/Tftp_File_Blocks.thy ===== *)
theory Tftp_File_Blocks
  imports Tftp_Packet_Ops Tftp_Inet
begin

text \<open>
  The abstract sender of a file: the file is cut into chunks of the block size, the last one shorter
  than the others and possibly empty, and chunk \<open>j\<close> travels in the DATA packet with block number
  \<open>j + 1\<close> modulo \<open>2^16\<close>.  The server session and both directions of the client are related to it.
\<close>

section \<open>The specification\<close>

definition chunk :: "byte list \<Rightarrow> nat \<Rightarrow> nat \<Rightarrow> byte list" where
  "chunk f bs j = take bs (drop (j * bs) f)"

definition data_datagram :: "byte list \<Rightarrow> nat \<Rightarrow> nat \<Rightarrow> byte list" where
  "data_datagram f bs j = tftp_data_packet_init (word_of_nat (j + 1)) @ chunk f bs j"

definition is_data_packet :: "byte list \<Rightarrow> bool" where
  "is_data_packet p \<longleftrightarrow> tftp_get_opcode_unsafe p = Some (opcode_value TFTP_OPCODE_DATA)"

lemma length_data_header: "length (tftp_data_packet_init b) = 4"
  by (simp add: tftp_data_packet_init_def)

definition sends_file :: "byte list \<Rightarrow> nat \<Rightarrow> nat \<Rightarrow> (sockaddr \<times> byte list) list \<Rightarrow> bool" where
  "sends_file f bs k o' \<longleftrightarrow>
     (\<forall>x \<in> set o'. is_data_packet (snd x) \<longrightarrow> (\<exists>j<k. snd x = data_datagram f bs j))"

definition all_sent :: "byte list \<Rightarrow> nat \<Rightarrow> nat \<Rightarrow> (sockaddr \<times> byte list) list \<Rightarrow> bool" where
  "all_sent f bs k o' \<longleftrightarrow> (\<forall>j<k. data_datagram f bs j \<in> snd ` set o')"

lemma all_sent_more: "all_sent f bs k x \<Longrightarrow> all_sent f bs k (x @ y)"
  by (auto simp: all_sent_def)

lemma length_chunk: "length (chunk f bs j) = min bs (length f - j * bs)"
  by (simp add: chunk_def min.commute)

lemma sends_file_append: "sends_file f bs k (x @ y) \<longleftrightarrow> sends_file f bs k x \<and> sends_file f bs k y"
  by (auto simp: sends_file_def)

lemma sends_file_mono: "sends_file f bs k x \<Longrightarrow> k \<le> k' \<Longrightarrow> sends_file f bs k' x"
  unfolding sends_file_def by (meson less_le_trans)

lemma not_data_error [simp]: "\<not> is_data_packet (error_packet c m)"
  by (simp add: is_data_packet_def error_packet_def)

lemma not_data_ack [simp]: "\<not> is_data_packet (tftp_ack_packet_init b)"
  by (simp add: is_data_packet_def tftp_ack_packet_init_def)

lemma concat_chunks: "0 < bs \<Longrightarrow> concat (map (chunk f bs) [0..<n]) = take (n * bs) f"
proof (induction n)
  case 0
  then show ?case by simp
next
  case (Suc n)
  have "take (Suc n * bs) f = take (n * bs + bs) f" by (simp add: add.commute)
  also have "\<dots> = take (n * bs) f @ take bs (drop (n * bs) f)" by (rule take_add)
  finally have "take (Suc n * bs) f = take (n * bs) f @ take bs (drop (n * bs) f)" .
  then show ?case using Suc by (simp add: chunk_def)
qed

text \<open>The chunks are the file, cut so that exactly the last one is shorter than the block size.\<close>

lemma chunks_make_file:
  assumes "0 < bs"
  shows "concat (map (chunk f bs) [0..<length f div bs + 1]) = f"
    and "j < length f div bs \<Longrightarrow> length (chunk f bs j) = bs"
    and "length (chunk f bs (length f div bs)) < bs"
proof -
  have m: "length f = length f div bs * bs + length f mod bs" "length f mod bs < bs"
    using assms by simp_all
  have "length f \<le> (length f div bs + 1) * bs" using m by (simp only: add_mult_distrib)
  then show "concat (map (chunk f bs) [0..<length f div bs + 1]) = f"
    unfolding concat_chunks [OF assms] by simp
  show "length (chunk f bs (length f div bs)) < bs"
    using m by (simp add: length_chunk minus_div_mult_eq_mod)
  assume "j < length f div bs"
  then have "(j + 1) * bs \<le> length f div bs * bs" by (intro mult_le_mono1) simp
  then have "j * bs + bs \<le> length f div bs * bs" by simp
  also have "\<dots> \<le> length f" by (rule div_times_less_eq_dividend)
  finally have "j * bs + bs \<le> length f" .
  then show "length (chunk f bs j) = bs" by (simp add: length_chunk)
qed

end
