(* ===== verification/Tftp_Read_Invariant.thy ===== *)
theory Tftp_Read_Invariant
  imports Tftp_Session_Read Tftp_File_Blocks
begin

text \<open>
  Reading a file in octet mode: what the DATA packets of a read session carry.

  The specification is the file cut into chunks of the block size: block \<open>j + 1\<close> carries chunk \<open>j\<close>,
  for all blocks up to the first one that is shorter than the block size.  The invariant
  \<open>read_inv\<close> relates a session to two numbers that the code does not have: how many blocks it has
  sent (\<open>k\<close>) and how many of them have been acknowledged (\<open>a\<close>); the 16-bit counters of the session
  are these numbers modulo \<open>2^16\<close>.
\<close>

section \<open>Operations that leave the transfer alone\<close>

text \<open>What the invariant reads of a session, apart from the requests in flight and the output.\<close>

definition read_view where
  "read_view s = (request_type s, mode s, window_size s, block_size s, window_begin s,
     next_data_packet_to_send s, last_packet s, last_block_size s, incomplete_read s,
     data_packets s, open_file s, oack_packet s, opts s,
     is_timer_active s, should_close s)"

definition quiet :: "session \<Rightarrow> session \<Rightarrow> bool" where
  "quiet s t \<longleftrightarrow> read_view t = read_view s
     \<and> (\<exists>o'. out t = out s @ o' \<and> (\<forall>x \<in> set o'. \<not> is_data_packet (snd x)))"

lemma quiet_refl: "quiet s s"
  by (simp add: quiet_def)

lemma quiet_trans: "quiet s t \<Longrightarrow> quiet t u \<Longrightarrow> quiet s u"
  by (auto simp: quiet_def)

interpretation quietly: op_effect quiet
  by unfold_locales (fact quiet_refl, fact quiet_trans)

named_theorems quiet_intros \<open>operations that leave the transfer alone\<close>

declare quietly.does_chain [quiet_intros] quietly.does_assign [quiet_intros]
  quietly.does_return [quiet_intros]

lemma quiet_same: "read_view t = read_view s \<Longrightarrow> out t = out s \<Longrightarrow> quiet s t"
  by (simp add: quiet_def)

lemma quiet_updates [simp]:
  "quiet s (set_error c m s)" "quiet s (s\<lparr>stats := x\<rparr>)" "quiet s (s\<lparr>error_packet_bytes := y\<rparr>)"
  "quiet s (s\<lparr>sys := z\<rparr>)" "quiet s (s\<lparr>pending_jobs := n\<rparr>)" "quiet s (s\<lparr>dispatcher := d\<rparr>)"
  "quiet s (s\<lparr>dispatcher := d, pending_jobs := n\<rparr>)" "quiet s (pending_jobs_dec s)"
  by (simp_all add: quiet_same read_view_def set_error_def pending_jobs_dec_def)

lemma quiet_sys_call: "sys_call n s = (r, t) \<Longrightarrow> quiet s t"
  by (auto simp: sys_call_def quiet_same read_view_def split: list.splits)

lemma quiet_clock: "clock_gettime s = (now, t) \<Longrightarrow> quiet s t"
  by (auto simp: clock_gettime_def quiet_same read_view_def split: list.splits)

lemma quiet_send [quiet_intros]: "\<not> is_data_packet p \<Longrightarrow> quietly.does (send_or_fail d p)"
proof (rule quietly.doesI)
  fix s assume p: "\<not> is_data_packet p"
  obtain r t where c: "sys_call (int (length p)) s = (r, t)" by fastforce
  have q: "quiet s t" by (rule quiet_sys_call [OF c])
  moreover have "quiet t (t\<lparr>out := out t @ [(d, p)]\<rparr>)"
    using p by (simp add: quiet_def read_view_def)
  ultimately show "quiet s (snd (send_or_fail d p s))"
    by (auto simp: send_or_fail_def sendto_def c intro: quiet_trans)
qed

lemma quiet_malloc [quiet_intros]: "quietly.does malloc_or_fail"
  by (rule quietly.doesI) (auto simp: malloc_or_fail_def split: prod.splits dest: quiet_sys_call)

lemma quiet_submit [quiet_intros]: "quietly.does (submit r)"
proof (rule quietly.doesI)
  fix s
  obtain x t where c: "sys_call 0 s = (x, t)" by fastforce
  have "quiet s t" by (rule quiet_sys_call [OF c])
  then show "quiet s (snd (submit r s))"
    by (auto simp: submit_def c split: prod.splits intro: quiet_trans)
qed

lemma quiet_recv_async [quiet_intros]: "quietly.does recv_async" "quietly.does recv_async_cancel"
  unfolding quietly.does_def recv_async_def recv_async_cancel_def
  using quiet_submit by (auto simp: quietly.does_def)

lemma quiet_error_packet: "quietly.does (chain [error_packet_init, send_error_packet d])"
proof (rule quietly.doesI)
  fix s :: session
  let ?s = "s\<lparr>error_packet_bytes := None\<rparr>"
  obtain r t where m: "malloc_or_fail ?s = (r, t)" by fastforce
  have q: "quiet s t"
    using quietly.doesD [OF quiet_malloc m] quiet_updates(3) quiet_trans by blast
  let ?p = "error_packet (error_number (stats t)) (error_message (stats t))"
  let ?t = "t\<lparr>error_packet_bytes := Some ?p\<rparr>"
  have "quiet ?t (snd (send_or_fail d ?p ?t))"
    using quiet_send [of ?p d] by (simp add: quietly.does_def)
  then have "quiet s (snd (send_or_fail d ?p ?t))"
    using q quiet_updates(3) quiet_trans by metis
  then show "quiet s (snd (chain [error_packet_init, send_error_packet d] s))"
    using q by (cases r)
      (auto simp: error_packet_init_def m assign_def send_error_packet_def split: prod.splits ret.splits)
qed

lemma quiet_report_error [quiet_intros]: "quietly.does (report_error c m d)"
proof -
  have "quietly.does (chain ([assign (set_error c m)] @ [error_packet_init, send_error_packet d]))"
    by (intro quietly.does_append quiet_error_packet)
      (auto intro!: quietly.does_chain quietly.does_assign simp del: chain.simps)
  then show ?thesis by (simp add: report_error_def del: chain.simps)
qed

lemma quiet_give_up:
  "quietly.does (chain [recv_async_cancel, set_max_retransmissions_error, error_packet_init,
                        send_error_packet d])"
proof -
  have "quietly.does set_max_retransmissions_error"
    unfolding set_max_retransmissions_error_def by (auto intro!: quiet_intros)
  then have "quietly.does (chain ([recv_async_cancel, set_max_retransmissions_error]
      @ [error_packet_init, send_error_packet d]))"
    by (intro quietly.does_append quiet_error_packet)
      (auto intro!: quietly.does_chain quiet_recv_async simp del: chain.simps)
  then show ?thesis by (simp del: chain.simps)
qed

lemma quiet_report_client_error [quiet_intros]: "quietly.does (report_client_error n)"
proof (rule quietly.doesI)
  fix s
  have c: "quietly.does (chain [malloc_or_fail, assign (set_error code m)])" for code m
    by (auto intro!: quiet_intros)
  show "quiet s (snd (report_client_error n s))"
    using c by (auto simp: report_client_error_def Let_def quietly.does_def quiet_refl
        simp del: chain.simps split: option.splits)
qed

lemma quiet_adaptive [simp]: "quiet s (adaptive_on_ack b s)" "quiet s (start_adaptive_timer b s)"
  "quiet s (backoff s)"
proof -
  have a: "quiet t (t\<lparr>adaptive := x, event_timeout := y\<rparr>)" "quiet t (t\<lparr>adaptive := x\<rparr>)" for t x y
    by (simp_all add: quiet_same read_view_def)
  show "quiet s (adaptive_on_ack b s)" "quiet s (start_adaptive_timer b s)"
    using a quiet_trans [OF quiet_clock]
    by (auto simp: adaptive_on_ack_def start_adaptive_timer_def Let_def quiet_refl split: prod.splits)
  show "quiet s (backoff s)" using a by (simp add: backoff_def Let_def quiet_refl)
qed

lemma quiet_timeout:
  "submit_timeout s = (Ret_True, t) \<Longrightarrow> quiet (s\<lparr>is_timer_active := True\<rparr>) t"
  "submit_cancel_timeout s = (Ret_True, t) \<Longrightarrow> quiet (s\<lparr>is_timer_active := False\<rparr>) t"
proof -
  have q: "quiet (s\<lparr>is_timer_active := b\<rparr>) (t\<lparr>is_timer_active := b\<rparr>)" if "quiet s t" for s t b
    using that by (simp add: quiet_def read_view_def)
  have sub: "submit r s = (x, t) \<Longrightarrow> quiet s t" for r s x t
    by (rule quietly.doesD [OF quiet_submit])
  show "submit_timeout s = (Ret_True, t) \<Longrightarrow> quiet (s\<lparr>is_timer_active := True\<rparr>) t"
    unfolding submit_timeout_def
    by (erule chain2_TrueE) (auto simp: assign_def dest: sub intro: q)
  show "submit_cancel_timeout s = (Ret_True, t) \<Longrightarrow> quiet (s\<lparr>is_timer_active := False\<rparr>) t"
    unfolding submit_cancel_timeout_def
    by (erule chain2_TrueE) (auto simp: assign_def dest: sub intro: q)
qed

section \<open>The invariant\<close>

text \<open>The first \<open>n\<close> unacknowledged packets, from chunk \<open>a\<close> on, are in their slots.\<close>

definition window_held :: "byte list \<Rightarrow> nat \<Rightarrow> nat \<Rightarrow> session \<Rightarrow> bool" where
  "window_held f a n s \<longleftrightarrow> (\<exists>pk. sr.holds_window s (word_of_nat (a + 1)) n pk
     \<and> (\<forall>j. a \<le> j \<longrightarrow> j < a + n \<longrightarrow>
          take (4 + length (chunk f (unat (block_size s)) j)) (pk (word_of_nat (j + 1)))
            = data_datagram f (unat (block_size s)) j))"

definition ring_suffices :: "byte list \<Rightarrow> session \<Rightarrow> bool" where
  "ring_suffices f s \<longleftrightarrow> unat (window_size s) dvd 65536
     \<or> length f div unat (block_size s) + 1 + unat (window_size s) \<le> 65536"

text \<open>How far the reading of the file has got: all chunks, or \<open>k\<close> of them.\<close>

definition sent_all :: "byte list \<Rightarrow> nat \<Rightarrow> session \<Rightarrow> bool" where
  "sent_all f k s \<longleftrightarrow> k = length f div unat (block_size s) + 1
     \<and> last_packet s = uint (word_of_nat k :: u16)
     \<and> unat (last_block_size s) = length (chunk f (unat (block_size s)) (k - 1))"

definition read_core :: "byte list \<Rightarrow> nat \<Rightarrow> nat \<Rightarrow> session \<Rightarrow> bool" where
  "read_core f k a s \<longleftrightarrow>
     request_type s = SESSION_READ_REQUEST \<and> mode s = TFTP_MODE_OCTET
     \<and> ring_ready s \<and> ring_suffices f s
     \<and> 0 < unat (block_size s) \<and> unat (block_size s) < 65532
     \<and> (\<forall>p \<in> set (data_packets s). length p = 4 + unat (block_size s))
     \<and> window_begin s = word_of_nat (a + 1) \<and> next_data_packet_to_send s = word_of_nat (k + 1)
     \<and> a \<le> k \<and> k - a \<le> unat (window_size s)
     \<and> window_held f a (k - a) s
     \<and> (if last_packet s = - 1 then k * unat (block_size s) \<le> length f else sent_all f k s)
     \<and> (\<exists>fo. open_file s = Some fo \<and> contents fo = f)
     \<and> (\<forall>p. oack_packet s = Some p \<longrightarrow> \<not> is_data_packet p)
     \<and> sends_file f (unat (block_size s)) k (out s) \<and> all_sent f (unat (block_size s)) k (out s)"

text \<open>\<open>n\<close> bytes of chunk \<open>k\<close> have been read into the slot of the next packet.\<close>

definition partly_read :: "byte list \<Rightarrow> nat \<Rightarrow> nat \<Rightarrow> session \<Rightarrow> bool" where
  "partly_read f k n s \<longleftrightarrow>
     (\<exists>fo. open_file s = Some fo \<and> file_offset fo = k * unat (block_size s) + n)
     \<and> n \<le> length (chunk f (unat (block_size s)) k)
     \<and> take n (drop 4 (slot_bytes s (current_slot s))) = take n (chunk f (unat (block_size s)) k)"

text \<open>A read is in flight: for the rest of the chunk, into the slot of the next packet.\<close>

definition reading :: "byte list \<Rightarrow> nat \<Rightarrow> nat \<Rightarrow> session \<Rightarrow> bool" where
  "reading f k a s \<longleftrightarrow>
     last_packet s = - 1 \<and> \<not> incomplete_read s \<and> \<not> awaiting_options_ack s
     \<and> k - a < unat (window_size s)
     \<and> partly_read f k (unat (last_block_size s)) s
     \<and> (\<forall>x \<in> set (ring (dispatcher s)).
          fst x = Some (event_id (session_id s) EVENT_DATA_AVAILABLE) \<longrightarrow>
          snd x = Req_Read (current_slot s) (unat (last_block_size s))
                    (unat (block_size s) - unat (last_block_size s)))"

definition timer_ok :: "nat \<Rightarrow> nat \<Rightarrow> session \<Rightarrow> bool" where
  "timer_ok k a s \<longleftrightarrow>
     (if awaiting_options_ack s then k = 0 \<and> is_timer_active s else is_timer_active s = (a < k))
     \<and> (last_packet s \<noteq> - 1 \<longrightarrow> a < k)"

text \<open>Before the end of a handler a read may be due; after it, none is.\<close>

definition read_due :: "byte list \<Rightarrow> nat \<Rightarrow> nat \<Rightarrow> session \<Rightarrow> bool" where
  "read_due f k a s \<longleftrightarrow>
     (if is_fetching_data s then reading f k a s
      else should_close s \<or> last_packet s \<noteq> - 1
        \<or> (if incomplete_read s
           then partly_read f k (unat (last_block_size s)) s \<and> k - a < unat (window_size s)
                \<and> \<not> awaiting_options_ack s
           else partly_read f k 0 s))"

definition no_read_due :: "byte list \<Rightarrow> nat \<Rightarrow> nat \<Rightarrow> session \<Rightarrow> bool" where
  "no_read_due f k a s \<longleftrightarrow>
     (if is_fetching_data s then reading f k a s
      else should_close s \<or> last_packet s \<noteq> - 1
        \<or> (partly_read f k 0 s \<and> \<not> incomplete_read s
           \<and> (awaiting_options_ack s \<or> k - a = unat (window_size s))))"

definition no_start :: "session \<Rightarrow> bool" where
  "no_start s \<longleftrightarrow> in_flight (event_id (session_id s) EVENT_START) (dispatcher s) = 0"

definition read_inv :: "byte list \<Rightarrow> session \<Rightarrow> bool" where
  "read_inv f s \<longleftrightarrow> no_start s \<and> (\<exists>k a. read_core f k a s \<and> no_read_due f k a s
     \<and> (should_close s \<or> timer_ok k a s))"

text \<open>Between the dispatch of an event and the end of its handler.\<close>

definition read_mid :: "byte list \<Rightarrow> nat \<Rightarrow> nat \<Rightarrow> session \<Rightarrow> bool" where
  "read_mid f k a s \<longleftrightarrow> read_core f k a s \<and> read_due f k a s \<and> (should_close s \<or> timer_ok k a s)"

section \<open>Block numbers\<close>

lemma of_nat_diff16: "j \<le> i \<Longrightarrow> (word_of_nat i :: u16) - word_of_nat j = word_of_nat (i - j)"
  by (simp add: of_nat_diff)

lemma offset_in_window: "a \<le> j \<Longrightarrow> j - a < 65536 \<Longrightarrow>
  unat ((word_of_nat (j + 1) :: u16) - word_of_nat (a + 1)) = j - a"
  by (simp only: of_nat_diff16 add_le_cancel_right add_diff_cancel_right unat_of_nat16)

lemma window_word:
  assumes "unat ((i :: u16) - word_of_nat (a + 1)) = d"
  shows "i = word_of_nat (a + d + 1)"
proof -
  have "i - word_of_nat (a + 1) = word_of_nat d"
    using assms by (metis unat_u16_less unat_of_nat16 word_unat_eq_iff)
  then have "i = word_of_nat d + word_of_nat (a + 1)" by (simp add: algebra_simps)
  then show ?thesis by (simp add: algebra_simps)
qed

lemma core_small: "read_core f k a s \<Longrightarrow> k - a < 65536"
  unfolding read_core_def using unat_u16_less [of "window_size s"] by linarith

lemma core_outstanding: "read_core f k a s \<Longrightarrow> outstanding s = k - a"
  using core_small [of f k a s] offset_in_window [of a k]
  unfolding read_core_def outstanding_def by simp

lemma core_empty_window: "read_core f k a s \<Longrightarrow> window_begin s = next_data_packet_to_send s \<longleftrightarrow> a = k"
  using core_outstanding [of f k a s] outstanding_pos [of s]
  by (auto simp: read_core_def outstanding_def)

lemma core_wrap_free:
  assumes c: "read_core f k a s"
  shows "wrap_free (window_size s) (word_of_nat (a + 1))"
proof -
  let ?bs = "unat (block_size s)"
  have bs: "0 < ?bs" and a: "a \<le> k" and r: "ring_suffices f s"
    and l: "if last_packet s = - 1 then k * ?bs \<le> length f else sent_all f k s"
    using c by (simp_all add: read_core_def)
  have "k \<le> length f div ?bs + 1"
  proof (cases "last_packet s = - 1")
    case True
    with l have "k * ?bs div ?bs \<le> length f div ?bs" by (intro div_le_mono) simp
    then show ?thesis using bs by simp
  next
    case False
    with l show ?thesis by (simp add: sent_all_def)
  qed
  moreover have "unat (word_of_nat (a + 1) - 1 :: u16) \<le> a"
    by (simp add: unsigned_of_nat take_bit_nat_less_eq_self)
  ultimately show ?thesis using r a by (auto simp: wrap_free_def ring_suffices_def)
qed

lemma core_slot_distinct:
  assumes c: "read_core f k a s" and "k - a < unat (window_size s)"
    and "unat (i - word_of_nat (a + 1)) < k - a"
  shows "slot_of s i \<noteq> slot_of s (word_of_nat (k + 1))"
proof
  assume eq: "slot_of s i = slot_of s (word_of_nat (k + 1))"
  have k: "unat ((word_of_nat (k + 1) :: u16) - word_of_nat (a + 1)) = k - a"
    using c core_small [OF c] by (intro offset_in_window) (simp_all add: read_core_def)
  have "i = word_of_nat (k + 1)"
    by (rule sr.slot_inject [OF _ core_wrap_free [OF c]])
      (use c assms(2,3) k eq in \<open>simp_all add: read_core_def\<close>)
  with k assms(3) show False by simp
qed

section \<open>What the invariant depends on\<close>

lemma view_fields:
  assumes "read_view t = read_view s"
  shows "request_type t = request_type s" "mode t = mode s" "window_size t = window_size s"
    "block_size t = block_size s" "window_begin t = window_begin s"
    "next_data_packet_to_send t = next_data_packet_to_send s" "last_packet t = last_packet s"
    "last_block_size t = last_block_size s" "incomplete_read t = incomplete_read s"
    "data_packets t = data_packets s" "open_file t = open_file s" "oack_packet t = oack_packet s"
    "opts t = opts s" "is_timer_active t = is_timer_active s" "should_close t = should_close s"
  using assms by (simp_all add: read_view_def)

lemma core_cong:
  assumes "request_type t = request_type s" "mode t = mode s" "window_size t = window_size s"
    "block_size t = block_size s" "window_begin t = window_begin s"
    "next_data_packet_to_send t = next_data_packet_to_send s" "last_packet t = last_packet s"
    "last_block_size t = last_block_size s" "data_packets t = data_packets s" "open_file t = open_file s"
    "oack_packet t = oack_packet s" "out t = out s @ o'" "sends_file f (unat (block_size s)) k o'"
    and "read_core f k a s"
  shows "read_core f k a t"
proof -
  have "window_held f a (k - a) s = window_held f a (k - a) t"
    by (simp add: window_held_def sr.holds_window_def slot_bytes_def slot_of_def assms(3,4,9))
  moreover have "sent_all f k t = sent_all f k s" "ring_suffices f t = ring_suffices f s"
    by (simp_all add: sent_all_def ring_suffices_def assms(3,4,7,8))
  ultimately show ?thesis
    using assms(14) by (simp add: read_core_def ring_ready_def sends_file_append all_sent_more assms(1-13))
qed

lemma core_quiet: "quiet s t \<Longrightarrow> read_core f k a s \<Longrightarrow> read_core f k a t"
proof -
  assume q: "quiet s t" and c: "read_core f k a s"
  have v: "read_view t = read_view s" using q by (simp add: quiet_def)
  from q obtain o' where o': "out t = out s @ o'" "\<forall>x \<in> set o'. \<not> is_data_packet (snd x)"
    by (auto simp: quiet_def)
  then have "sends_file f (unat (block_size s)) k o'" by (simp add: sends_file_def)
  from core_cong [OF view_fields(1-8,10-12) [OF v] o'(1) this c] show ?thesis .
qed

lemma partly_cong:
  "block_size t = block_size s \<Longrightarrow> open_file t = open_file s \<Longrightarrow> data_packets t = data_packets s
   \<Longrightarrow> window_size t = window_size s \<Longrightarrow> next_data_packet_to_send t = next_data_packet_to_send s
   \<Longrightarrow> partly_read f k n t = partly_read f k n s"
  by (simp add: partly_read_def slot_bytes_def current_slot_def)

definition no_more_reads :: "session \<Rightarrow> session \<Rightarrow> bool" where
  "no_more_reads s t \<longleftrightarrow> session_id t = session_id s \<and> is_fetching_data t = is_fetching_data s
     \<and> (\<forall>x \<in> set (ring (dispatcher t)) - set (ring (dispatcher s)).
          fst x \<noteq> Some (event_id (session_id s) EVENT_DATA_AVAILABLE))"

lemma appended_no_more_reads:
  assumes "appended E s t" and "EVENT_DATA_AVAILABLE \<notin> E"
  shows "no_more_reads s t"
proof -
  obtain new where new: "ring (dispatcher t) = ring (dispatcher s) @ new"
    and ids: "\<forall>x \<in> set new. \<exists>e \<in> E. fst x = Some (event_id (session_id s) e) \<and> request_fits e (snd x)"
    using assms(1) by (auto simp: appended_def)
  have "fst x \<noteq> Some (event_id (session_id s) EVENT_DATA_AVAILABLE)" if "x \<in> set new" for x
    using ids that assms(2) by (metis event_id_inject option.inject)
  then show ?thesis using assms(1) new by (auto simp: no_more_reads_def appended_def)
qed

lemma reading_quiet:
  assumes v: "read_view t = read_view s" and r: "no_more_reads s t" and "reading f k a s"
  shows "reading f k a t"
proof -
  note f = view_fields [OF v]
  have c: "current_slot t = current_slot s" by (simp add: current_slot_def f)
  have p: "partly_read f k n t = partly_read f k n s" for n by (rule partly_cong) (simp_all add: f)
  show ?thesis
    using assms(3) r by (auto simp: reading_def awaiting_options_ack_def f c p no_more_reads_def)
qed

lemma due_quiet:
  assumes v: "read_view t = read_view s" and r: "no_more_reads s t" and "read_due f k a s"
  shows "read_due f k a t"
proof -
  note f = view_fields [OF v]
  have p: "partly_read f k n t = partly_read f k n s" for n by (rule partly_cong) (simp_all add: f)
  have "is_fetching_data t = is_fetching_data s" using r by (simp add: no_more_reads_def)
  then show ?thesis
    using assms(3) reading_quiet [OF v r, of f k a]
    by (auto simp: read_due_def awaiting_options_ack_def f p split: if_splits)
qed

lemma timer_quiet: "read_view t = read_view s \<Longrightarrow> timer_ok k a s \<Longrightarrow> timer_ok k a t"
  using view_fields [of t s] by (simp add: timer_ok_def awaiting_options_ack_def)

lemma mid_quiet:
  "quiet s t \<Longrightarrow> no_more_reads s t \<Longrightarrow> read_mid f k a s \<Longrightarrow> read_mid f k a t"
  unfolding read_mid_def
  using core_quiet [of s t f k a] due_quiet [of t s f k a] timer_quiet [of t s k a] view_fields(15) [of t s]
  by (auto simp: quiet_def)

lemma mid_op:
  "quietly.does g \<Longrightarrow> submits E g \<Longrightarrow> EVENT_DATA_AVAILABLE \<notin> E \<Longrightarrow> g s = (r, t) \<Longrightarrow>
   read_mid f k a s \<Longrightarrow> read_mid f k a t"
  by (rule mid_quiet [OF quietly.doesD appended_no_more_reads [OF submitsD]])

lemma mid_closed: "read_mid f k a s \<Longrightarrow> read_mid f k a (s\<lparr>should_close := True\<rparr>)"
proof -
  assume m: "read_mid f k a s"
  have "read_core f k a (s\<lparr>should_close := True\<rparr>)"
    by (rule core_cong [of _ s "[]"]) (use m in \<open>simp_all add: read_mid_def sends_file_def\<close>)
  moreover have "reading f k a (s\<lparr>should_close := True\<rparr>) = reading f k a s"
    by (simp add: reading_def partly_read_def current_slot_def slot_bytes_def awaiting_options_ack_def)
  ultimately show ?thesis using m by (simp add: read_mid_def read_due_def)
qed

section \<open>Retransmission sends chunks of the file\<close>

lemma held_datagram:
  assumes c: "read_core f k a s" and d: "unat (i - window_begin s) < k - a"
    and info: "get_data_packet_info s i = Some (p, n)"
  shows "\<exists>j<k. take n p = data_datagram f (unat (block_size s)) j"
proof -
  let ?bs = "unat (block_size s)"
  have wb: "window_begin s = word_of_nat (a + 1)" and ak: "a \<le> k" using c by (simp_all add: read_core_def)
  define j where "j = a + unat (i - window_begin s)"
  have j: "a \<le> j" "j < k" "i = word_of_nat (j + 1)"
    using d window_word [of i a] by (simp_all add: j_def wb)
  obtain pk where h: "sr.holds_window s (word_of_nat (a + 1)) (k - a) pk"
    and pk: "take (4 + length (chunk f ?bs j)) (pk i) = data_datagram f ?bs j"
    using c j ak by (auto simp: read_core_def window_held_def)
  have p: "p = pk i"
    using info sr.holds_lookup [OF h, of i] d wb
    by (auto simp: get_data_packet_info_def slot_of_def slot_bytes_def Let_def split: if_splits)
  have n: "n = unat (4 + (if uint i = last_packet s then last_block_size s else block_size s))"
    using info by (simp add: get_data_packet_info_def Let_def split: if_splits)
  have bs: "0 < ?bs" "?bs < 65532" using c by (simp_all add: read_core_def)
  have l: "if last_packet s = - 1 then k * ?bs \<le> length f else sent_all f k s"
    using c by (simp add: read_core_def)
  have "n = 4 + length (chunk f ?bs j)"
  proof (cases "uint i = last_packet s")
    case True
    then have "last_packet s \<noteq> - 1" by (metis uint16_not_minus_one)
    with l have sa: "sent_all f k s" by simp
    then have "(word_of_nat (j + 1) :: u16) = word_of_nat k"
      using True j(3) by (auto simp: sent_all_def word_uint_eq_iff)
    moreover have "unat ((word_of_nat k :: u16) - word_of_nat (j + 1)) = k - (j + 1)"
      using offset_in_window [of j "k - 1"] j core_small [OF c] by simp
    ultimately have jk: "j = k - 1" using j(2) by simp
    have "unat (last_block_size s) = length (chunk f ?bs (k - 1))" using sa by (simp add: sent_all_def)
    moreover from this have "unat (last_block_size s) < 65532" using bs(2) by (simp add: length_chunk)
    ultimately show ?thesis using True jk n by (simp add: unat_four_plus)
  next
    case False
    have "(j + 1) * ?bs \<le> length f"
    proof (cases "last_packet s = - 1")
      case True
      moreover have "(j + 1) * ?bs \<le> k * ?bs" using j(2) by (intro mult_le_mono1) simp
      ultimately show ?thesis using l by simp
    next
      case sent: False
      with l have sa: "sent_all f k s" by simp
      then have "j + 1 \<noteq> k" using False j(3) by (auto simp: sent_all_def)
      then have "j + 1 \<le> length f div ?bs" using j(2) sa by (simp add: sent_all_def)
      then have "(j + 1) * ?bs \<le> (length f div ?bs) * ?bs" by (rule mult_le_mono1)
      then show ?thesis using div_times_less_eq_dividend [of "length f" ?bs] by linarith
    qed
    then have "length (chunk f ?bs j) = ?bs" by (simp add: length_chunk)
    with n False bs(2) show ?thesis by (simp add: unat_four_plus)
  qed
  with p pk j(2) show ?thesis by auto
qed

lemma retransmit_core:
  "retransmit i s = Some y \<Longrightarrow> read_core f k a s \<Longrightarrow> a < k \<Longrightarrow>
   read_core f k a (snd y) \<and> read_view (snd y) = read_view s"
proof (induction rule: retransmit_induct)
  case (step rt i s y)
  show ?case
  proof (cases "is_in_range i (window_begin s) (next_data_packet_to_send s - 1)")
    case False
    then show ?thesis using step.hyps step.prems by auto
  next
    case rng: True
    show ?thesis
    proof (cases "get_data_packet_info s i")
      case None
      then show ?thesis using step.hyps step.prems rng by auto
    next
      case (Some q)
      obtain p n where q: "q = (p, n)" by fastforce
      obtain r t where st: "sendto (client_address s) (take n p) s = (r, t)" by fastforce
      have ne: "next_data_packet_to_send s \<noteq> window_begin s"
        using core_empty_window [OF step.prems(1)] step.prems(2) by auto
      have d: "unat (i - window_begin s) < k - a"
        using rng in_outstanding [OF ne, of i] core_outstanding [OF step.prems(1)]
        by (simp add: outstanding_def)
      have good: "sends_file f (unat (block_size s)) k [(client_address s, take n p)]"
        using held_datagram [OF step.prems(1) d Some [unfolded q]] by (simp add: sends_file_def)
      obtain z where t: "t = s\<lparr>sys := z, out := out s\<rparr> \<or> t = s\<lparr>sys := z, out := out s @ [(client_address s, take n p)]\<rparr>"
      proof -
        have "t = s\<lparr>sys := sys t, out := out s\<rparr> \<or> t = s\<lparr>sys := sys t, out := out s @ [(client_address s, take n p)]\<rparr>"
          using st by (cases "sys s") (auto simp: sendto_def sys_call_def split: if_splits)
        then show thesis by (rule that)
      qed
      have "\<exists>o'. out t = out s @ o' \<and> sends_file f (unat (block_size s)) k o'"
        using t good by (auto simp: sends_file_def)
      moreover have v: "read_view t = read_view s" using t by (auto simp: read_view_def)
      ultimately have ct: "read_core f k a t"
        using core_cong [OF view_fields(1-8,10-12) [OF v]] step.prems(1) by blast
      have y: "y = (Ret_False, t) \<or> y = (Ret_True, t) \<or> rt (i + 1) t = Some y"
        using step.hyps rng Some st by (auto simp: q split: if_splits)
      have "rt (i + 1) t = Some y \<Longrightarrow> read_core f k a (snd y) \<and> read_view (snd y) = read_view s"
        using step.IH [of "i + 1" t y] ct step.prems(2) v by simp
      then show ?thesis using y ct v by auto
    qed
  qed
qed

section \<open>Timeouts\<close>

lemma mid_view:
  "read_core f k a t \<Longrightarrow> read_view t = read_view s \<Longrightarrow> no_more_reads s t \<Longrightarrow> read_mid f k a s \<Longrightarrow> read_mid f k a t"
  unfolding read_mid_def
  using due_quiet [of t s f k a] timer_quiet [of t s k a] view_fields(15) [of t s] by auto

lemma no_more_reads_cong:
  "no_more_reads s t \<Longrightarrow> session_id s' = session_id s \<Longrightarrow> is_fetching_data s' = is_fetching_data s
   \<Longrightarrow> dispatcher s' = dispatcher s \<Longrightarrow> no_more_reads s' t"
  by (simp add: no_more_reads_def)

lemma quiet_oack: "read_core f k a s \<Longrightarrow> quiet s (snd (send_oack_packet s))"
  using quiet_send by (auto simp: send_oack_packet_def read_core_def quietly.does_def quiet_refl split: option.splits)

lemma mid_on_timeout:
  assumes m: "read_mid f k a s" and sc: "\<not> should_close s" and ta: "is_timer_active s"
    and run: "on_timeout s = (Ret_True, t)"
  shows "read_mid f k a t"
proof -
  have "submits {EVENT_TIMEOUT, EVENT_PACKET_RECEIVED_REMOVED} on_timeout"
    by (rule submits_on_timeout) simp_all
  then have "appended {EVENT_TIMEOUT, EVENT_PACKET_RECEIVED_REMOVED} s t" using run by (rule submitsD)
  then have nr: "no_more_reads s t" by (rule appended_no_more_reads) simp
  show ?thesis
  proof (cases "retries s \<le> current_retransmission s")
    case True
    let ?s = "s\<lparr>should_close := True\<rparr>"
    have "chain [recv_async_cancel, set_max_retransmissions_error, error_packet_init,
                  send_error_packet (client_address s)] ?s = (Ret_True, t)"
      using run True by (simp add: on_timeout_def del: chain.simps)
    then have "quiet ?s t" by (rule quietly.doesD [OF quiet_give_up])
    moreover have "no_more_reads ?s t" by (rule no_more_reads_cong [OF nr]) simp_all
    ultimately show ?thesis by (rule mid_quiet) (rule mid_closed [OF m])
  next
    case False
    let ?s0 = "s\<lparr>current_retransmission := current_retransmission s + 1,
             total_retransmissions := total_retransmissions s + 1\<rparr>"
    let ?g = "\<lambda>s. if valid_options_required (opts s) \<and> \<not> options_acknowledged (opts s)
                   then send_oack_packet s
                   else if request_type s = SESSION_WRITE_REQUEST
                   then send_or_fail (client_address s)
                          (tftp_ack_packet_init (expected_sequence_number s - 1)) s
                   else retransmit_window s"
    have "chain [assign backoff, submit_timeout, ?g] ?s0 = (Ret_True, t)"
      using run False by (simp add: on_timeout_def del: chain.simps)
    then obtain v where v: "submit_timeout (backoff ?s0) = (Ret_True, v)" and g: "?g v = (Ret_True, t)"
      by (elim chain_TrueE) (auto simp: assign_def)
    have q0: "quiet s ?s0" by (simp add: quiet_same read_view_def)
    have q1: "quiet s (backoff ?s0)" by (rule quiet_trans [OF q0 quiet_adaptive(3)])
    have "quiet (backoff ?s0) ((backoff ?s0)\<lparr>is_timer_active := True\<rparr>)"
      using q1 ta by (simp add: quiet_def read_view_def)
    from quiet_trans [OF quiet_trans [OF q1 this] quiet_timeout(1) [OF v]] have q: "quiet s v" .
    then have vv: "read_view v = read_view s" by (simp add: quiet_def)
    have cv: "read_core f k a v" by (rule core_quiet [OF q]) (use m in \<open>simp add: read_mid_def\<close>)
    note fv = view_fields [OF vv]
    show ?thesis
    proof (cases "awaiting_options_ack s")
      case True
      then have "send_oack_packet v = (Ret_True, t)"
        using g by (simp add: awaiting_options_ack_def fv)
      then have "quiet v t" using quiet_oack [OF cv] by simp
      then show ?thesis using quiet_trans [OF q] mid_quiet [OF _ nr m] by blast
    next
      case False
      then have "retransmit_window v = (Ret_True, t)"
        using g cv by (auto simp: awaiting_options_ack_def fv read_core_def)
      then obtain y where y: "retransmit (window_begin v) v = Some y" "snd y = t"
        by (auto simp: retransmit_window_def split: option.splits)
      have "a < k" using m sc ta False by (simp add: read_mid_def timer_ok_def)
      from retransmit_core [OF y(1) cv this] show ?thesis
        using mid_view [OF _ _ nr m] vv y(2) by simp
    qed
  qed
qed

section \<open>Acknowledgements\<close>

lemma core_advance:
  assumes c: "read_core f k a s" and a': "a \<le> a'" "a' \<le> k"
  shows "read_core f k a' (s\<lparr>window_begin := word_of_nat (a' + 1)\<rparr>)"
proof -
  let ?t = "s\<lparr>window_begin := word_of_nat (a' + 1)\<rparr>"
  obtain pk where h: "sr.holds_window s (word_of_nat (a + 1)) (k - a) pk"
    and pk: "\<And>j. a \<le> j \<Longrightarrow> j < a + (k - a) \<Longrightarrow> take (4 + length (chunk f (unat (block_size s)) j)) (pk (word_of_nat (j + 1)))
            = data_datagram f (unat (block_size s)) j"
    using c by (auto simp: read_core_def window_held_def)
  have "unat ((word_of_nat (a' + 1) :: u16) - word_of_nat (a + 1)) = a' - a"
    using a' core_small [OF c] by (intro offset_in_window) simp_all
  from sr.holds_advance [OF h this] have "sr.holds_window s (word_of_nat (a' + 1)) (k - a') pk"
    using a' core_small [OF c] by simp
  then have "sr.holds_window ?t (word_of_nat (a' + 1)) (k - a') pk"
    by (simp add: sr.holds_window_def slot_bytes_def slot_of_def)
  then have "window_held f a' (k - a') ?t"
    using pk a' by (auto simp: window_held_def)
  moreover have "ring_suffices f ?t = ring_suffices f s" "sent_all f k ?t = sent_all f k s"
    by (simp_all add: ring_suffices_def sent_all_def)
  ultimately show ?thesis
    using c a' by (auto simp: read_core_def ring_ready_def)
qed

lemma reading_mono: "reading f k a s \<Longrightarrow> a \<le> a' \<Longrightarrow> reading f k a' s"
  by (auto simp: reading_def)

lemma due_mono: "read_due f k a s \<Longrightarrow> a \<le> a' \<Longrightarrow> read_due f k a' s"
  using reading_mono [of f k a s a'] by (auto simp: read_due_def split: if_splits)

text \<open>Neither the counters of a session nor its timer matter for a read that is due.\<close>

lemma due_cong:
  assumes "last_packet t = last_packet s" "incomplete_read t = incomplete_read s"
    "awaiting_options_ack t = awaiting_options_ack s" "window_size t = window_size s"
    "last_block_size t = last_block_size s" "block_size t = block_size s" "open_file t = open_file s"
    "data_packets t = data_packets s" "next_data_packet_to_send t = next_data_packet_to_send s"
    and "no_more_reads s t" and "read_due f k a s" and "should_close s \<longrightarrow> should_close t"
  shows "read_due f k a t"
proof -
  have p: "partly_read f k n t = partly_read f k n s" for n
    by (rule partly_cong) (simp_all add: assms)
  have r: "reading f k a t" if "reading f k a s"
    using that assms(10) p by (auto simp: reading_def current_slot_def assms(1-9) no_more_reads_def)
  have "is_fetching_data t = is_fetching_data s" using assms(10) by (simp add: no_more_reads_def)
  then show ?thesis using assms(11,12) r p by (auto simp: read_due_def assms(1-9) split: if_splits)
qed

lemma mid_ack_advance:
  assumes c: "read_core f k a s" and d: "read_due f k a s" and sc: "\<not> should_close s"
    and w: "\<not> awaiting_options_ack s" and a': "a \<le> a'" "a' \<le> k"
    and run: "ack_advance (word_of_nat a') s = (Ret_True, t)"
  shows "read_mid f k a' t"
proof -
  let ?s1 = "s\<lparr>window_begin := word_of_nat (a' + 1)\<rparr>"
  let ?b = "word_of_nat a' :: u16"
  have "submits {EVENT_TIMEOUT, EVENT_TIMEOUT_REMOVED} (ack_advance ?b)"
    by (rule submits_ack_advance) simp_all
  from submitsD [OF this run] have nr: "no_more_reads s t"
    by (rule appended_no_more_reads) simp
  have wb: "?b + 1 = word_of_nat (a' + 1)" by simp
  from run obtain u v where u: "submit_cancel_timeout (adaptive_on_ack ?b ?s1) = (Ret_True, u)"
    and v: "(if window_begin u \<noteq> next_data_packet_to_send u then submit_timeout u else (Ret_True, u)) = (Ret_True, v)"
    and t: "t = v\<lparr>stats := (stats v)\<lparr>packets_acked := packets_acked (stats v) + 1\<rparr>,
                   current_retransmission := 0,
                   should_close := last_packet v \<noteq> - 1 \<and> uint ?b = last_packet v\<rparr>"
    unfolding ack_advance_def by (elim chain_TrueE) (auto simp: assign_def wb)
  have q: "quiet (?s1\<lparr>is_timer_active := False\<rparr>) u"
  proof -
    have "quiet (?s1\<lparr>is_timer_active := False\<rparr>) ((adaptive_on_ack ?b ?s1)\<lparr>is_timer_active := False\<rparr>)"
      using quiet_adaptive(1) [of ?s1 ?b] by (simp add: quiet_def read_view_def)
    then show ?thesis using quiet_timeout(2) [OF u] by (rule quiet_trans)
  qed
  then have "read_view u = read_view (?s1\<lparr>is_timer_active := False\<rparr>)" by (simp add: quiet_def)
  note fu = view_fields [OF this]
  have c1: "read_core f k a' (?s1\<lparr>is_timer_active := False\<rparr>)"
    by (rule core_cong [OF _ _ _ _ _ _ _ _ _ _ _ _ _ core_advance [OF c a'], of _ "[]"])
      (simp_all add: sends_file_def)
  have cu: "read_core f k a' u" by (rule core_quiet [OF q c1])
  have ne: "window_begin u \<noteq> next_data_packet_to_send u \<longleftrightarrow> a' < k"
    using core_empty_window [OF cu] a' by auto
  have qv: "quiet (u\<lparr>is_timer_active := a' < k\<rparr>) v"
  proof (cases "a' < k")
    case True
    then show ?thesis using v ne quiet_timeout(1) [of u v] by simp
  next
    case False
    then show ?thesis using v ne fu(14) by (simp add: quiet_def read_view_def)
  qed
  then have "read_view v = read_view (u\<lparr>is_timer_active := a' < k\<rparr>)" by (simp add: quiet_def)
  note fv = view_fields [OF this]
  have cv: "read_core f k a' v"
  proof (rule core_quiet [OF qv])
    show "read_core f k a' (u\<lparr>is_timer_active := a' < k\<rparr>)"
      by (rule core_cong [OF _ _ _ _ _ _ _ _ _ _ _ _ _ cu, of _ "[]"]) (simp_all add: sends_file_def)
  qed
  have ct: "read_core f k a' t"
    by (rule core_cong [OF _ _ _ _ _ _ _ _ _ _ _ _ _ cv, of _ "[]"]) (simp_all add: t sends_file_def)
  have opt: "opts t = opts s" "last_packet t = last_packet s" "is_timer_active t = (a' < k)"
    "should_close t \<longleftrightarrow> last_packet s \<noteq> - 1 \<and> uint ?b = last_packet s"
    by (simp_all add: t fv fu)
  have dt: "read_due f k a' t"
    by (rule due_mono [OF _ a'(1)], rule due_cong [OF _ _ _ _ _ _ _ _ _ nr d])
      (simp_all add: t fv fu awaiting_options_ack_def sc)
  have "timer_ok k a' t" if "\<not> should_close t"
  proof -
    have "a' < k" if l: "last_packet s \<noteq> - 1"
    proof (rule ccontr)
      assume "\<not> a' < k"
      then have "a' = k" using a' by simp
      moreover have "sent_all f k s" using c l by (simp add: read_core_def)
      ultimately show False using opt(4) l \<open>\<not> should_close t\<close> by (simp add: sent_all_def)
    qed
    moreover have "\<not> awaiting_options_ack t" using w opt(1) by (simp add: awaiting_options_ack_def)
    ultimately show ?thesis using opt(2,3) by (simp add: timer_ok_def)
  qed
  then show ?thesis using ct dt by (auto simp: read_mid_def)
qed

text \<open>
  The acknowledgement test accepts every block number when no packet is outstanding; the invariant
  needs the peer not to make use of that: then it acknowledges only what was acknowledged last.
\<close>

definition fair_ack :: "u16 \<Rightarrow> session \<Rightarrow> bool" where
  "fair_ack block s \<longleftrightarrow>
     (window_begin s = next_data_packet_to_send s \<longrightarrow> block = window_begin s - 1)"

lemma mid_on_ack:
  assumes m: "read_mid f k a s" and sc: "\<not> should_close s" and fair: "fair_ack block s"
    and run: "on_ack block s = (Ret_True, t)"
  shows "\<exists>a'. read_mid f k a' t"
proof -
  have c: "read_core f k a s" and d: "read_due f k a s" and tm: "timer_ok k a s"
    using m sc by (simp_all add: read_mid_def)
  have ak: "a \<le> k" and wb: "window_begin s = word_of_nat (a + 1)" using c by (simp_all add: read_core_def)
  have acc: "block = word_of_nat a" if "a = k"
  proof -
    have "block = window_begin s - 1" using fair that core_empty_window [OF c] by (simp add: fair_ack_def)
    also have "\<dots> = word_of_nat a" unfolding wb by simp
    finally show ?thesis .
  qed
  show ?thesis
  proof (cases "awaiting_options_ack s")
    case True
    let ?s = "acknowledge_options s"
    have k: "k = 0" "a = 0" using tm ak True by (simp_all add: timer_ok_def)
    then have "on_ack block s = ack_advance (word_of_nat 0) ?s"
      using acc True by (simp add: on_ack_def)
    moreover have "read_core f k a ?s"
      by (rule core_cong [OF _ _ _ _ _ _ _ _ _ _ _ _ _ c, of _ "[]"])
        (simp_all add: acknowledge_options_def sends_file_def)
    moreover have "read_due f k a ?s"
      using d True by (auto simp: read_due_def reading_def acknowledge_options_def partly_read_def
          slot_bytes_def current_slot_def split: if_splits)
    moreover have "\<not> awaiting_options_ack ?s" "\<not> should_close ?s"
      using sc by (simp_all add: awaiting_options_ack_def acknowledge_options_def)
    ultimately show ?thesis
      using run k mid_ack_advance [of f k a ?s 0 t] by auto
  next
    case w: False
    show ?thesis
    proof (cases "is_in_range block (window_begin s) (next_data_packet_to_send s - 1)")
      case False
      then show ?thesis using run w m by (auto simp: on_ack_def)
    next
      case rng: True
      obtain a' where a': "a \<le> a'" "a' \<le> k" "block = word_of_nat a'"
      proof (cases "a = k")
        case True
        then show thesis using that [of a] acc by simp
      next
        case False
        then have "next_data_packet_to_send s \<noteq> window_begin s" using core_empty_window [OF c] by auto
        from rng [unfolded in_outstanding [OF this]]
        have lt: "unat (block - word_of_nat (a + 1)) < k - a"
          using core_outstanding [OF c] by (simp add: outstanding_def wb)
        from window_word [OF refl] have "block = word_of_nat (a + unat (block - word_of_nat (a + 1)) + 1)" .
        then show thesis using that [of "a + unat (block - word_of_nat (a + 1)) + 1"] lt ak by simp
      qed
      from run w rng obtain n where
        adv: "ack_advance block (s\<lparr>stats := (stats s)\<lparr>bytes_sent := bytes_sent (stats s) + n\<rparr>\<rparr>) = (Ret_True, t)"
        by (auto simp: on_ack_def split: option.splits)
      let ?s = "s\<lparr>stats := (stats s)\<lparr>bytes_sent := bytes_sent (stats s) + n\<rparr>\<rparr>"
      have "read_core f k a ?s"
        by (rule core_cong [OF _ _ _ _ _ _ _ _ _ _ _ _ _ c, of _ "[]"]) (simp_all add: sends_file_def)
      moreover have "read_due f k a ?s"
        by (rule due_cong [OF _ _ _ _ _ _ _ _ _ _ d])
          (simp_all add: awaiting_options_ack_def no_more_reads_def)
      moreover have "\<not> awaiting_options_ack ?s" "\<not> should_close ?s"
        using sc w by (simp_all add: awaiting_options_ack_def)
      ultimately show ?thesis
        using mid_ack_advance [of f k a ?s a' t] adv a' by auto
    qed
  qed
qed

section \<open>Packets\<close>

lemma mid_unexpected:
  assumes m: "read_mid f k a s" and run: "unexpected_opcode s = (r, t)"
  shows "read_mid f k a t"
proof -
  let ?s = "s\<lparr>should_close := True\<rparr>"
  obtain c g p where g: "report_error c g p ?s = (r, t)"
    using run unfolding unexpected_opcode_def by blast
  show ?thesis
    by (rule mid_op [OF quiet_report_error submits_report_error _ g mid_closed [OF m], of "{}"]) simp
qed

lemma mid_on_packet:
  assumes m: "read_mid f k a s" and sc: "\<not> should_close s"
    and fair: "\<And>block rest. dec16 (recv_buffer s) = Some (opcode_value TFTP_OPCODE_ACK, rest) \<Longrightarrow>
      map_option fst (dec16 rest) = Some block \<Longrightarrow> fair_ack block s"
    and run: "on_packet n s = (Ret_True, t)"
  shows "\<exists>a'. read_mid f k a' t"
proof -
  obtain opcode rest block payload where d: "dec16 (recv_buffer s) = Some (opcode, rest)"
    "dec16 rest = Some (block, payload)"
    using run by (auto simp: on_packet_def split: option.splits)
  have rd: "request_type s = SESSION_READ_REQUEST" using m by (simp add: read_mid_def read_core_def)
  consider "opcode_of opcode = Some TFTP_OPCODE_ERROR" | "opcode_of opcode = Some TFTP_OPCODE_ACK"
    | "opcode_of opcode \<noteq> Some TFTP_OPCODE_ERROR" "opcode_of opcode \<noteq> Some TFTP_OPCODE_ACK" by blast
  then show ?thesis
  proof cases
    case 1
    then have "report_client_error n (s\<lparr>should_close := True\<rparr>) = (Ret_True, t)"
      using run by (simp add: on_packet_def d)
    then have "read_mid f k a t"
      using mid_op [OF quiet_report_client_error submits_report_client_error _ _ mid_closed [OF m], of "{}"] by simp
    then show ?thesis ..
  next
    case 2
    then have "on_ack block s = (Ret_True, t)" using run rd by (simp add: on_packet_def d)
    moreover have "fair_ack block s" using fair [of rest block] 2 d by (simp add: opcode_of_Some)
    ultimately show ?thesis using mid_on_ack [OF m sc] by blast
  next
    case 3
    then have "unexpected_opcode s = (Ret_True, t)" using run rd by (simp add: on_packet_def d)
    then show ?thesis using mid_unexpected [OF m] by blast
  qed
qed

lemma mid_on_packet_received:
  assumes m: "read_mid f k a s" and sc: "\<not> should_close s"
    and fair: "\<And>block rest. 4 \<le> ev_result e \<Longrightarrow>
      sockaddr_equals (last_message_address s) (client_address s) \<Longrightarrow> dec16 (recv_buffer s) = Some (opcode_value TFTP_OPCODE_ACK, rest) \<Longrightarrow>
      map_option fst (dec16 rest) = Some block \<Longrightarrow> fair_ack block s"
    and run: "on_packet_received e s = (Ret_True, t)"
  shows "\<exists>a'. read_mid f k a' t"
proof -
  have tid: "read_mid f k a u"
    if "chain [report_error c g p, assign (\<lambda>s. s\<lparr>stats := (stats s)\<lparr>error_occurred := False\<rparr>\<rparr>)] s = (r, u)"
    for c g p r u
  proof -
    have "quietly.does (chain [report_error c g p, assign (\<lambda>s. s\<lparr>stats := (stats s)\<lparr>error_occurred := False\<rparr>\<rparr>)])"
      "submits {} (chain [report_error c g p, assign (\<lambda>s. s\<lparr>stats := (stats s)\<lparr>error_occurred := False\<rparr>\<rparr>)])"
      by (auto intro!: quiet_intros submits_intros simp del: chain.simps)
    from mid_op [OF this _ that m] show ?thesis by simp
  qed
  show ?thesis
  proof (cases "ev_result e < 4 \<or> set_address_family (last_message_address s) = None")
    case True
    then show ?thesis using run m by (auto simp: on_packet_received_def simp del: chain.simps split: if_splits)
  next
    case False
    then consider "on_packet (nat (ev_result e)) s = (Ret_True, t)"
        "sockaddr_equals (last_message_address s) (client_address s)"
      | "chain [report_error (error_code_value TFTP_ERROR_UNKNOWN_TRANSFER_ID) ''Unknown transfer ID.''
                    (last_message_address s),
                  assign (\<lambda>s. s\<lparr>stats := (stats s)\<lparr>error_occurred := False\<rparr>\<rparr>)] s = (Ret_True, t)"
      using run by (auto simp: on_packet_received_def simp del: chain.simps split: if_splits)
    then show ?thesis
    proof cases
      case 1
      then show ?thesis using mid_on_packet [OF m sc _ 1(1)] fair False by auto
    next
      case 2
      from tid [OF this] show ?thesis ..
    qed
  qed
qed

end
