(* ===== verification/Tftp_Read_Data.thy ===== *)
theory Tftp_Read_Data
  imports Tftp_Read_Invariant
begin

text \<open>
  Reading a file in octet mode: the arrival of data.  A completed read puts bytes behind those that
  are already in the slot of the next packet; when the chunk is complete its header is written and
  the packet is sent; then the next read is submitted if the window has room.
\<close>

section \<open>Data arrives\<close>

lemma core_put:
  assumes c: "read_core f k a s" and lt: "k - a < unat (window_size s)"
    and len: "length p = 4 + unat (block_size s)"
    and dt: "t = s\<lparr>data_packets := (data_packets s)[current_slot s := p], last_block_size := n,
                    open_file := o', incomplete_read := b\<rparr>"
    and lp: "last_packet s = - 1" and ofl: "\<exists>fo. o' = Some fo \<and> contents fo = f"
  shows "read_core f k a t"
proof -
  have cs: "current_slot s = slot_of s (word_of_nat (k + 1))"
    using c by (simp add: current_slot_def slot_of_def read_core_def)
  obtain pk where h: "sr.holds_window s (word_of_nat (a + 1)) (k - a) pk"
    and pk: "\<forall>j. a \<le> j \<longrightarrow> j < a + (k - a) \<longrightarrow>
      take (4 + length (chunk f (unat (block_size s)) j)) (pk (word_of_nat (j + 1)))
            = data_datagram f (unat (block_size s)) j"
    using c by (auto simp: read_core_def window_held_def)
  have "sr.holds_window t (word_of_nat (a + 1)) (k - a) pk"
    unfolding sr.holds_window_def
  proof (intro allI impI)
    fix i :: u16 assume i: "unat (i - word_of_nat (a + 1)) < k - a"
    have "slot_of s i \<noteq> current_slot s" unfolding cs by (rule core_slot_distinct [OF c lt i])
    then have "slot_bytes t (slot_of t i) = slot_bytes s (slot_of s i)"
      by (simp add: dt slot_bytes_def slot_of_def)
    then show "slot_bytes t (slot_of t i) = pk i" using sr.holds_lookup [OF h i] by simp
  qed
  then have w: "window_held f a (k - a) t" using pk by (auto simp: window_held_def dt)
  have l: "\<forall>q \<in> set (data_packets t). length q = 4 + unat (block_size s)"
    using c len by (auto simp: read_core_def dt dest!: set_update_subset_insert [THEN subsetD])
  have "ring_suffices f t = ring_suffices f s" by (simp add: ring_suffices_def dt)
  then show ?thesis
    using c w l ofl lp by (auto simp: read_core_def ring_ready_def dt)
qed

text \<open>The state of a handler when \<open>n\<close> bytes have just arrived.\<close>

definition arrived :: "byte list \<Rightarrow> nat \<Rightarrow> nat \<Rightarrow> nat \<Rightarrow> session \<Rightarrow> bool" where
  "arrived f k a n s \<longleftrightarrow> read_core f k a s \<and> last_packet s = - 1 \<and> \<not> incomplete_read s
     \<and> \<not> awaiting_options_ack s \<and> \<not> is_fetching_data s \<and> k - a < unat (window_size s)
     \<and> unat (last_block_size s) + n \<le> unat (block_size s)
     \<and> partly_read f k (unat (last_block_size s) + n) s
     \<and> (n = 0 \<longrightarrow> unat (last_block_size s) = unat (block_size s)
          \<or> length f \<le> k * unat (block_size s) + unat (last_block_size s))
     \<and> (should_close s \<or> timer_ok k a s)"

lemma take_drop_splice_prefix:
  assumes "4 + i + length bs \<le> length mem"
  shows "take (i + length bs) (drop 4 (splice (4 + i) bs mem)) = take i (drop 4 mem) @ bs"
proof -
  have l: "length (take i (drop 4 mem)) = i" using assms by simp
  have "drop 4 (splice (4 + i) bs mem) = take i (drop 4 mem) @ bs @ drop (4 + i + length bs) mem"
    using assms by (simp add: splice_def drop_take)
  then show ?thesis using l by simp
qed

lemma take_chunk_more:
  assumes "x = take m (drop (k * bs + i) f)" and "i + m \<le> bs"
  shows "take (i + length x) (chunk f bs k) = take i (chunk f bs k) @ x"
    and "i \<le> length (chunk f bs k) \<Longrightarrow> i + length x \<le> length (chunk f bs k)"
proof -
  have lx: "length x = min m (length f - (k * bs + i))" by (simp add: assms(1) min.commute)
  then have i: "i + length x \<le> bs" using assms(2) by simp
  have "take (i + length x) (chunk f bs k) = take (i + length x) (drop (k * bs) f)"
    using i by (simp add: chunk_def min_def)
  also have "\<dots> = take i (drop (k * bs) f) @ take (length x) (drop (k * bs + i) f)"
    by (simp add: take_add add.commute)
  also have "take (length x) (drop (k * bs + i) f) = x"
    using lx by (simp add: assms(1) min_def)
  also have "take i (drop (k * bs) f) = take i (chunk f bs k)"
    using i by (simp add: chunk_def min_def)
  finally show "take (i + length x) (chunk f bs k) = take i (chunk f bs k) @ x" .
  show "i \<le> length (chunk f bs k) \<Longrightarrow> i + length x \<le> length (chunk f bs k)"
    using i lx by (auto simp: length_chunk)
qed

lemma read_completes:
  assumes c: "read_core f k a s" and r: "reading f k a s" and tm: "should_close s \<or> timer_ok k a s"
    and compl: "complete (Req_Read (current_slot s) (unat (last_block_size s))
                    (unat (block_size s) - unat (last_block_size s))) (C_Read m) s = Some (res, s1)"
    and t: "t = s1\<lparr>dispatcher := d, pending_jobs := pj, is_fetching_data := False\<rparr>"
  shows "0 \<le> res" and "arrived f k a (nat res) t"
proof -
  let ?bs = "unat (block_size s)" and ?i = "unat (last_block_size s)" and ?cs = "current_slot s"
  have rd: "last_packet s = - 1" "\<not> incomplete_read s" "\<not> awaiting_options_ack s"
    "k - a < unat (window_size s)" and p: "partly_read f k ?i s"
    using r by (simp_all add: reading_def)
  obtain fo where fo: "open_file s = Some fo" "contents fo = f" "file_offset fo = k * ?bs + ?i"
    using p c by (auto simp: partly_read_def read_core_def)
  have il: "?i \<le> length (chunk f ?bs k)"
    and ip: "take ?i (drop 4 (slot_bytes s ?cs)) = take ?i (chunk f ?bs k)"
    using p by (simp_all add: partly_read_def)
  then have ib: "?i \<le> ?bs" by (simp add: length_chunk)
  define x where "x = take m (drop (k * ?bs + ?i) f)"
  from compl fo have m: "?cs < length (data_packets s)" "m \<le> ?bs - ?i" "0 < m \<or> ?bs - ?i = 0"
    and res: "res = int (length x)"
    and s1: "s1 = s\<lparr>data_packets := (data_packets s)[?cs := splice (4 + ?i) x (data_packets s ! ?cs)],
                    open_file := Some (fo\<lparr>file_offset := file_offset fo + length x\<rparr>)\<rparr>"
    by (auto simp: file_read_def Let_def x_def split: if_splits)
  show "0 \<le> res" using res by simp
  have xm: "length x \<le> m" by (simp add: x_def)
  have lens: "length (data_packets s ! ?cs) = 4 + ?bs" using c m(1) by (simp add: read_core_def)
  have fits: "4 + ?i + length x \<le> length (data_packets s ! ?cs)" using lens m(2) xm ib by linarith
  let ?s2 = "s\<lparr>data_packets := (data_packets s)[?cs := splice (4 + ?i) x (data_packets s ! ?cs)],
                last_block_size := last_block_size s,
                open_file := Some (fo\<lparr>file_offset := file_offset fo + length x\<rparr>), incomplete_read := False\<rparr>"
  have c2: "read_core f k a ?s2"
    by (rule core_put [OF c rd(4) _ refl rd(1)]) (use lens fits fo(2) in simp_all)
  have ct: "read_core f k a t"
    by (rule core_cong [OF _ _ _ _ _ _ _ _ _ _ _ _ _ c2, of _ "[]"])
      (simp_all add: t s1 sends_file_def)
  have im: "?i + m \<le> ?bs" using m(2) ib by linarith
  note more = take_chunk_more [OF x_def im]
  have "take (?i + length x) (drop 4 (slot_bytes t (current_slot t))) = take (?i + length x) (chunk f ?bs k)"
  proof -
    have "slot_bytes t (current_slot t) = splice (4 + ?i) x (data_packets s ! ?cs)"
      using m(1) by (simp add: t s1 slot_bytes_def current_slot_def)
    moreover have "take (?i + length x) (drop 4 (splice (4 + ?i) x (data_packets s ! ?cs)))
        = take ?i (drop 4 (data_packets s ! ?cs)) @ x"
      by (rule take_drop_splice_prefix [OF fits])
    ultimately show ?thesis using more(1) ip by (simp add: slot_bytes_def)
  qed
  then have pt: "partly_read f k (?i + length x) t"
    using more(2) [OF il] fo(3) by (simp add: partly_read_def t s1)
  have "length x = 0 \<longrightarrow> ?i = ?bs \<or> length f \<le> k * ?bs + ?i"
    using m(2,3) ib by (auto simp: x_def)
  moreover have "should_close t \<or> timer_ok k a t"
    using tm by (auto simp: t s1 timer_ok_def awaiting_options_ack_def)
  ultimately show "arrived f k a (nat res) t"
    using ct rd pt m(2) xm ib
    by (simp add: arrived_def res t s1 awaiting_options_ack_def)
qed

lemma eof_chunk:
  assumes "arrived f k a n s" and "\<not> (n < unat (block_size s) \<and> \<not> end_of_file s n)"
  shows "unat (last_block_size s) + n = length (chunk f (unat (block_size s)) k)"
proof -
  let ?bs = "unat (block_size s)" and ?i = "unat (last_block_size s)"
  obtain fo where fo: "open_file s = Some fo" "contents fo = f" "file_offset fo = k * ?bs + (?i + n)"
    and le: "?i + n \<le> length (chunk f ?bs k)" and b: "?i + n \<le> ?bs" and kl: "k * ?bs \<le> length f"
    and z: "n = 0 \<longrightarrow> ?i = ?bs \<or> length f \<le> k * ?bs + ?i"
    using assms(1) by (auto simp: arrived_def partly_read_def read_core_def)
  consider "?bs \<le> n" | "file_offset fo = length f" | "n = 0"
    using assms(2) fo by (auto simp: end_of_file_def split: if_splits)
  then show ?thesis
    using fo(3) le b kl z by cases (auto simp: length_chunk)
qed

lemma create_incomplete:
  assumes a: "arrived f k a n s" and run: "create_data_packets n s = (Ret_False, t)"
  shows "read_mid f k a t"
proof -
  have c: "read_core f k a s" and f: "last_packet s = - 1" "\<not> awaiting_options_ack s" "\<not> is_fetching_data s"
    "k - a < unat (window_size s)" "unat (last_block_size s) + n \<le> unat (block_size s)"
    "partly_read f k (unat (last_block_size s) + n) s" and tm: "should_close s \<or> timer_ok k a s"
    using a by (simp_all add: arrived_def)
  let ?n = "last_block_size s + word_of_nat n"
  have bs: "unat (block_size s) < 65532" using c by (simp add: read_core_def)
  have u: "unat ?n = unat (last_block_size s) + n"
    using f(5) bs by (simp add: unat_add16 unat_of_nat16)
  have t: "t = s\<lparr>last_block_size := ?n, incomplete_read := True\<rparr>"
    using run by (auto simp: create_data_packets_def Let_def write_slot_def split: if_splits)
  have cs: "current_slot t = current_slot s" by (simp add: t current_slot_def)
  have p: "partly_read f k (unat ?n) t"
    using f(6) by (simp add: u partly_read_def slot_bytes_def cs) (simp add: t)
  have "ring_suffices f t = ring_suffices f s" "window_held f a (k - a) t = window_held f a (k - a) s"
    by (simp_all add: t ring_suffices_def window_held_def sr.holds_window_def slot_bytes_def slot_of_def)
  then have "read_core f k a t" using c f(1) by (simp add: read_core_def ring_ready_def t)
  then show ?thesis
    using p f tm by (auto simp: read_mid_def read_due_def t timer_ok_def awaiting_options_ack_def)
qed

text \<open>The state of the handler when the next packet is complete.\<close>

definition next_packet_ready :: "byte list \<Rightarrow> nat \<Rightarrow> nat \<Rightarrow> session \<Rightarrow> bool" where
  "next_packet_ready f k a s \<longleftrightarrow> read_core f k a s \<and> last_packet s = - 1 \<and> \<not> incomplete_read s
     \<and> \<not> awaiting_options_ack s \<and> \<not> is_fetching_data s \<and> k - a < unat (window_size s)
     \<and> unat (last_block_size s) = length (chunk f (unat (block_size s)) k)
     \<and> (\<exists>fo. open_file s = Some fo
          \<and> file_offset fo = k * unat (block_size s) + length (chunk f (unat (block_size s)) k))
     \<and> take (4 + length (chunk f (unat (block_size s)) k)) (slot_bytes s (current_slot s))
        = data_datagram f (unat (block_size s)) k
     \<and> (should_close s \<or> timer_ok k a s)"

declare length_data_header [simp]

lemma create_complete:
  assumes a: "arrived f k a n s" and run: "create_data_packets n s = (Ret_True, t)"
  shows "next_packet_ready f k a t"
proof -
  let ?bs = "unat (block_size s)"
  have c: "read_core f k a s" and f: "last_packet s = - 1" "\<not> awaiting_options_ack s" "\<not> is_fetching_data s"
    "k - a < unat (window_size s)" "unat (last_block_size s) + n \<le> ?bs" "\<not> incomplete_read s"
    and p: "partly_read f k (unat (last_block_size s) + n) s" and tm: "should_close s \<or> timer_ok k a s"
    using a by (simp_all add: arrived_def)
  let ?n = "last_block_size s + word_of_nat n" and ?cs = "current_slot s"
  have bs: "?bs < 65532" and nxt: "next_data_packet_to_send s = word_of_nat (k + 1)"
    using c by (simp_all add: read_core_def)
  have u: "unat ?n = unat (last_block_size s) + n"
    using f(5) bs by (simp add: unat_add16 unat_of_nat16)
  have cs': "current_slot (s\<lparr>last_block_size := x\<rparr>) = ?cs" for x by (simp add: current_slot_def)
  have e': "end_of_file (s\<lparr>last_block_size := x\<rparr>) n = end_of_file s n" for x
    by (simp add: end_of_file_def split: option.splits)
  have all: "\<not> (n < ?bs \<and> \<not> end_of_file s n)" and k: "?cs < length (data_packets s)"
    and t: "t = s\<lparr>data_packets := (data_packets s)[?cs := splice 0 (tftp_data_packet_init (next_data_packet_to_send s))
                 (data_packets s ! ?cs)], last_block_size := ?n\<rparr>"
    using run by (auto simp: create_data_packets_def Let_def write_slot_def cs' e' split: if_splits)
  have len: "unat (last_block_size s) + n = length (chunk f ?bs k)" by (rule eof_chunk [OF a all])
  have lens: "length (data_packets s ! ?cs) = 4 + ?bs" using c k by (simp add: read_core_def)
  obtain fo where fo: "open_file s = Some fo" "contents fo = f"
    "file_offset fo = k * ?bs + length (chunk f ?bs k)"
    using p c len by (auto simp: partly_read_def read_core_def)
  let ?s2 = "s\<lparr>data_packets := (data_packets s)[?cs := splice 0 (tftp_data_packet_init (next_data_packet_to_send s))
                 (data_packets s ! ?cs)], last_block_size := ?n, open_file := open_file s,
               incomplete_read := False\<rparr>"
  have "read_core f k a ?s2"
    by (rule core_put [OF c f(4) _ refl f(1)]) (use lens fo in simp_all)
  moreover have "?s2 = t" using f(6) by (simp add: t)
  ultimately have ct: "read_core f k a t" by simp
  have "slot_bytes t (current_slot t)
      = splice 0 (tftp_data_packet_init (next_data_packet_to_send s)) (data_packets s ! ?cs)"
    using k by (simp add: t slot_bytes_def current_slot_def)
  moreover have "take (4 + length (chunk f ?bs k))
        (splice 0 (tftp_data_packet_init (next_data_packet_to_send s)) (data_packets s ! ?cs))
      = tftp_data_packet_init (next_data_packet_to_send s)
        @ take (length (chunk f ?bs k)) (drop 4 (data_packets s ! ?cs))"
    by (simp add: splice_def)
  moreover have "take (length (chunk f ?bs k)) (drop 4 (data_packets s ! ?cs)) = chunk f ?bs k"
    using p by (simp add: partly_read_def len slot_bytes_def)
  ultimately have "take (4 + length (chunk f ?bs k)) (slot_bytes t (current_slot t)) = data_datagram f ?bs k"
    by (simp add: data_datagram_def nxt)
  moreover have "should_close t \<or> timer_ok k a t"
    using tm by (auto simp: t timer_ok_def awaiting_options_ack_def)
  ultimately show ?thesis
    using ct f fo u len by (simp add: next_packet_ready_def t awaiting_options_ack_def)
qed

lemma held_extend:
  assumes c: "read_core f k a s" and lt: "k - a < unat (window_size s)"
    and p: "take (4 + length (chunk f (unat (block_size s)) k)) (slot_bytes s (current_slot s))
        = data_datagram f (unat (block_size s)) k"
  shows "window_held f a (Suc k - a) s"
proof -
  let ?bs = "unat (block_size s)" and ?j = "word_of_nat (k + 1) :: u16"
  have ak: "a \<le> k" and rr: "ring_ready s" and nxt: "next_data_packet_to_send s = ?j"
    using c by (simp_all add: read_core_def)
  have cs: "current_slot s = slot_of s ?j" by (simp add: current_slot_def slot_of_def nxt)
  obtain pk where h: "sr.holds_window s (word_of_nat (a + 1)) (k - a) pk"
    and pk: "\<And>j. a \<le> j \<Longrightarrow> j < a + (k - a) \<Longrightarrow> take (4 + length (chunk f ?bs j)) (pk (word_of_nat (j + 1)))
            = data_datagram f ?bs j"
    using c by (auto simp: read_core_def window_held_def)
  have d: "unat (?j - word_of_nat (a + 1)) = k - a"
    using ak core_small [OF c] by (intro offset_in_window)
  let ?p = "slot_bytes s (slot_of s ?j)"
  have "sr.holds_window (store_slot s (slot_of s ?j) ?p) (word_of_nat (a + 1)) (Suc (k - a)) (pk(?j := ?p))"
    by (rule sr.holds_put [OF rr core_wrap_free [OF c] h lt d])
  moreover have "store_slot s (slot_of s ?j) ?p = s"
    by (simp add: store_slot_def slot_bytes_def)
  ultimately have h': "sr.holds_window s (word_of_nat (a + 1)) (Suc (k - a)) (pk(?j := ?p))" by simp
  have "take (4 + length (chunk f ?bs j)) ((pk(?j := ?p)) (word_of_nat (j + 1))) = data_datagram f ?bs j"
    if j: "a \<le> j" "j < a + Suc (k - a)" for j
  proof (cases "j = k")
    case True
    then show ?thesis using p by (simp add: cs)
  next
    case False
    then have jk: "j < k" using j ak by linarith
    have "unat ((word_of_nat (j + 1) :: u16) - word_of_nat (a + 1)) = j - a"
      using j jk core_small [OF c] by (intro offset_in_window) linarith+
    then have "(word_of_nat (j + 1) :: u16) \<noteq> ?j" using d jk j by auto
    then show ?thesis using pk [of j] j jk ak by simp
  qed
  then show ?thesis
    unfolding window_held_def Suc_diff_le [OF ak] using h' by blast
qed

text \<open>Sending the packet: one more chunk is outstanding.\<close>

lemma send_next:
  assumes n: "next_packet_ready f k a s"
    and run: "on_data_available_send s = (Ret_True, t)"
  shows "read_mid f (Suc k) a t"
proof -
  let ?bs = "unat (block_size s)" and ?l = "length (chunk f (unat (block_size s)) k)"
  let ?next = "next_data_packet_to_send s"
  define v where "v = (if is_adaptive_timeout_active s \<and> \<not> timer_active (adaptive s)
                        then start_adaptive_timer ?next s else s)"
  from run obtain w x where w: "send_data_packet v = (Ret_True, w)"
    and x: "(if window_begin w = next_data_packet_to_send w
             then submit_timeout (w\<lparr>stats := (stats w)\<lparr>packets_sent := packets_sent (stats w) + 1\<rparr>,
                     last_packet := (if last_block_size w < block_size w then uint (next_data_packet_to_send w)
                                     else last_packet w)\<rparr>)
             else (Ret_True, w\<lparr>stats := (stats w)\<lparr>packets_sent := packets_sent (stats w) + 1\<rparr>,
                     last_packet := (if last_block_size w < block_size w then uint (next_data_packet_to_send w)
                                     else last_packet w)\<rparr>)) = (Ret_True, x)"
    and t: "t = x\<lparr>next_data_packet_to_send := next_data_packet_to_send x + 1\<rparr>"
    unfolding on_data_available_send_def v_def
    by (elim chain_TrueE) (auto simp: assign_def split: if_splits)
  let ?w' = "w\<lparr>stats := (stats w)\<lparr>packets_sent := packets_sent (stats w) + 1\<rparr>,
                     last_packet := (if last_block_size w < block_size w then uint (next_data_packet_to_send w)
                                     else last_packet w)\<rparr>"
  have qv: "quiet s v" by (simp add: v_def quiet_refl)
  have jv: "same_jobs s v" by (simp add: v_def)
  then have rv: "read_view v = read_view s" using qv by (simp add: quiet_def)
  note fv = view_fields [OF rv]
  have c: "read_core f k a s" and lp: "last_packet s = - 1" and inc: "\<not> incomplete_read s"
    and aw: "\<not> awaiting_options_ack s" and fd: "\<not> is_fetching_data s" and lt: "k - a < unat (window_size s)"
    and lbs: "unat (last_block_size s) = ?l"
    and off: "\<exists>fo. open_file s = Some fo \<and> file_offset fo = k * ?bs + ?l"
    and slot: "take (4 + ?l) (slot_bytes s (current_slot s)) = data_datagram f ?bs k"
    and tm: "should_close s \<or> timer_ok k a s"
    using n by (simp_all add: next_packet_ready_def)
  have cv: "read_core f k a v" by (rule core_quiet [OF qv c])
  have ak: "a \<le> k" and kl: "k * ?bs \<le> length f" and bs: "0 < ?bs" "?bs < 65532"
    and nxt: "?next = word_of_nat (k + 1)" and wb: "window_begin s = word_of_nat (a + 1)"
    and ofl: "\<exists>fo. open_file s = Some fo \<and> contents fo = f"
    using c lp by (simp_all add: read_core_def)
  have dp: "data_packets v = data_packets s" by (simp add: fv)
  have st: "send_or_fail (client_address v) (data_datagram f ?bs k) v = (Ret_True, w)"
    using w slot lbs by (simp add: send_data_packet_def get_data_packet_info_def Let_def fv slot_bytes_def
        current_slot_def split: if_splits)
  then obtain z where wz: "w = v\<lparr>sys := z, out := out v @ [(client_address v, data_datagram f ?bs k)]\<rparr>"
  proof -
    have "w = v\<lparr>sys := sys w, out := out v @ [(client_address v, data_datagram f ?bs k)]\<rparr>"
      using st by (cases "sys v") (auto simp: send_or_fail_def sendto_def sys_call_def split: if_splits)
    then show thesis by (rule that)
  qed
  have ew: "window_begin w = next_data_packet_to_send w \<longleftrightarrow> a = k"
    using core_empty_window [OF cv] by (simp add: wz)
  have qx: "quiet (?w'\<lparr>is_timer_active := (a = k \<or> is_timer_active s)\<rparr>) x"
  proof (cases "a = k")
    case True
    then show ?thesis using x ew quiet_timeout(1) [of ?w' x] by simp
  next
    case False
    then have "x = ?w'" using x ew by simp
    moreover have "?w'\<lparr>is_timer_active := is_timer_active s\<rparr> = ?w'" by (simp add: wz fv)
    ultimately show ?thesis using False quiet_refl by simp
  qed
  then have "read_view x = read_view (?w'\<lparr>is_timer_active := (a = k \<or> is_timer_active s)\<rparr>)"
    by (simp add: quiet_def)
  note fx = view_fields [OF this]
  have ft: "request_type t = request_type s" "mode t = mode s" "window_size t = window_size s"
    "block_size t = block_size s" "window_begin t = window_begin s"
    "next_data_packet_to_send t = word_of_nat (Suc k + 1)" "last_block_size t = last_block_size s"
    "incomplete_read t = incomplete_read s" "data_packets t = data_packets s" "open_file t = open_file s"
    "oack_packet t = oack_packet s" "opts t = opts s" "should_close t = should_close s"
    "is_timer_active t = (a = k \<or> is_timer_active s)"
    "last_packet t = (if ?l < ?bs then uint ?next else - 1)"
    using lbs lp by (simp_all add: t fx wz fv nxt word_less_nat_alt)
  obtain o' where o': "out x = out ?w' @ o'" "\<forall>y \<in> set o'. \<not> is_data_packet (snd y)"
    using qx by (auto simp: quiet_def)
  obtain ov where ov: "out v = out s @ ov" "\<forall>y \<in> set ov. \<not> is_data_packet (snd y)"
    using qv by (auto simp: quiet_def)
  have "sends_file f ?bs (Suc k) (out s)"
    by (rule sends_file_mono [of _ _ k]) (use c in \<open>simp_all add: read_core_def\<close>)
  moreover have "sends_file f ?bs (Suc k) ov" "sends_file f ?bs (Suc k) o'"
    using ov(2) o'(2) by (simp_all add: sends_file_def)
  moreover have "sends_file f ?bs (Suc k) [(client_address v, data_datagram f ?bs k)]"
    by (auto simp: sends_file_def)
  moreover have "out t = out s @ ov @ [(client_address v, data_datagram f ?bs k)] @ o'"
    using o'(1) ov(1) by (simp add: t wz)
  ultimately have out: "sends_file f ?bs (Suc k) (out t)" by (simp only: sends_file_append simp_thms)
  have sent: "all_sent f ?bs (Suc k) (out t)"
    using c \<open>out t = _\<close> by (auto simp: read_core_def all_sent_def less_Suc_eq)
  have "window_held f a (Suc k - a) s" by (rule held_extend [OF c lt slot])
  then have held: "window_held f a (Suc k - a) t"
    by (simp add: window_held_def sr.holds_window_def slot_bytes_def slot_of_def ft)
  have lpt: "if last_packet t = - 1 then Suc k * unat (block_size t) \<le> length f else sent_all f (Suc k) t"
  proof (cases "?l < ?bs")
    case True
    then have "length f - k * ?bs < ?bs" by (simp add: length_chunk)
    then have "length f div ?bs = k"
      using kl bs by (intro div_nat_eqI) (simp_all add: algebra_simps)
    then show ?thesis using True lbs ft nxt by (simp add: sent_all_def)
  next
    case False
    then have "?bs \<le> length f - k * ?bs" using bs by (simp add: length_chunk)
    then have "Suc k * ?bs \<le> length f" using kl by simp
    with False show ?thesis using ft by simp
  qed
  have "ring_suffices f t = ring_suffices f s" by (simp add: ring_suffices_def ft)
  then have ct: "read_core f (Suc k) a t"
    unfolding read_core_def
    by (intro conjI lpt held)
      (use c lt out ofl ak sent in \<open>simp_all add: read_core_def ring_ready_def ft Suc_diff_le del: of_nat_Suc\<close>)
  have fdt: "\<not> is_fetching_data t"
  proof -
    have "submits {EVENT_TIMEOUT} on_data_available_send" by (rule submits_data_available_send) simp
    from appended_fetching [OF submitsD [OF this run]] fd show ?thesis by simp
  qed
  have "partly_read f (Suc k) 0 t" if "\<not> ?l < ?bs"
  proof -
    have "?l = ?bs" using that by (simp add: length_chunk)
    then show ?thesis using off ft by (auto simp: partly_read_def)
  qed
  then have dt: "read_due f (Suc k) a t"
    using fdt ft inc by (auto simp: read_due_def)
  have "timer_ok (Suc k) a t" if "\<not> should_close s"
    using that tm aw ak ft by (auto simp: timer_ok_def awaiting_options_ack_def)
  then show ?thesis using ct dt ft by (auto simp: read_mid_def)
qed

lemma mid_data_available:
  assumes a: "is_success e \<Longrightarrow> arrived f k a (nat (ev_result e)) s"
    and m: "\<not> is_success e \<Longrightarrow> read_mid f k a (s\<lparr>should_close := True\<rparr>)"
    and mo: "mode s = TFTP_MODE_OCTET"
    and run: "on_data_available e s = (Ret_True, t)"
  shows "\<exists>k'. read_mid f k' a t"
proof (cases "is_success e")
  case False
  then have g: "report_error not_defined ''Error while reading from source'' (client_address s)
      (s\<lparr>should_close := True\<rparr>) = (Ret_True, t)"
    using run mo by (simp add: on_data_available_def)
  have "read_mid f k a t"
    by (rule mid_op [OF quiet_report_error submits_report_error _ g m [OF False], of "{}"]) simp
  then show ?thesis ..
next
  case True
  obtain r u where cu: "create_data_packets (nat (ev_result e)) s = (r, u)" by fastforce
  show ?thesis
  proof (cases r)
    case Ret_True
    then have "on_data_available_send u = (Ret_True, t)"
      using run mo True cu by (simp add: on_data_available_def)
    then show ?thesis
      using send_next create_complete [OF a [OF True]] cu Ret_True by blast
  next
    case Ret_False
    then have "t = u" using run mo True cu by (simp add: on_data_available_def)
    then show ?thesis using create_incomplete [OF a [OF True]] cu Ret_False by blast
  next
    case Fault
    then show ?thesis using run mo True cu by (simp add: on_data_available_def)
  qed
qed

section \<open>Asking for the next chunk\<close>

lemma should_fetch_iff:
  assumes c: "read_core f k a s"
  shows "should_fetch_data s \<longleftrightarrow> \<not> is_fetching_data s \<and> \<not> should_close s
     \<and> \<not> awaiting_options_ack s \<and> last_packet s = - 1 \<and> k - a < unat (window_size s)"
proof -
  have "window_size s \<noteq> 0" using c by (simp add: read_core_def ring_ready_def)
  then have "is_in_range (next_data_packet_to_send s) (window_begin s) (window_begin s + window_size s - 1)
      \<longleftrightarrow> k - a < unat (window_size s)"
    using core_outstanding [OF c] by (simp add: in_window outstanding_def)
  then show ?thesis using c by (simp add: should_fetch_data_def read_core_def)
qed

lemma in_flight_zero_iff: "in_flight i d = 0 \<longleftrightarrow> (\<forall>x \<in> set (ring d). fst x \<noteq> Some i)"
  by (auto simp: in_flight_def filter_empty_conv)

lemma mid_fetch:
  assumes m: "read_mid f k a s"
    and nodata: "\<not> is_fetching_data s \<Longrightarrow>
      in_flight (event_id (session_id s) EVENT_DATA_AVAILABLE) (dispatcher s) = 0"
    and run: "fetch_data s = (Ret_True, t)"
  shows "read_core f k a t \<and> no_read_due f k a t \<and> (should_close t \<or> timer_ok k a t)"
proof (cases "should_fetch_data s")
  case False
  have c: "read_core f k a s" using m by (simp add: read_mid_def)
  have "k - a \<le> unat (window_size s)" using c by (simp add: read_core_def)
  then have "no_read_due f k a s"
    using m False should_fetch_iff [OF c] by (auto simp: read_mid_def read_due_def no_read_due_def split: if_splits)
  then show ?thesis using run False m by (simp add: fetch_data_def read_mid_def)
next
  case True
  have c: "read_core f k a s" and d: "read_due f k a s" and tm: "should_close s \<or> timer_ok k a s"
    using m by (simp_all add: read_mid_def)
  have f: "\<not> is_fetching_data s" "\<not> should_close s" "\<not> awaiting_options_ack s" "last_packet s = - 1"
    "k - a < unat (window_size s)"
    using True should_fetch_iff [OF c] by simp_all
  define l where "l = (if incomplete_read s then last_block_size s else 0)"
  let ?u = "s\<lparr>is_fetching_data := True, last_block_size := l, incomplete_read := False\<rparr>"
  let ?id = "event_id (session_id s) EVENT_DATA_AVAILABLE"
  have ws: "window_size s \<noteq> 0" "mode s = TFTP_MODE_OCTET"
    using c by (simp_all add: read_core_def ring_ready_def)
  have p: "partly_read f k (unat l) s"
    using d f by (simp add: read_due_def l_def split: if_splits)
  then have le: "unat l \<le> unat (block_size s)" by (simp add: partly_read_def length_chunk)
  have "unat (block_size s) < 2 ^ 64" using unat_u16_less [of "block_size s"] by simp
  note n = size_sub_le [OF le this]
  have m: "(unat (block_size s) - unat l) mod 4294967296 = unat (block_size s) - unat l"
    using unat_u16_less [of "block_size s"] by simp
  have run': "submit (\<lambda>ok. dispatcher_submit_read ok (ev EVENT_DATA_AVAILABLE ?u) (current_slot ?u)
      (unat l) (size_sub (unat (block_size s)) (unat l))) ?u = (Ret_True, t)"
    using run True ws by (cases "incomplete_read s") (simp_all add: fetch_data_def fetch_data_octet_async_def Let_def l_def)
  obtain z where t: "t = ?u\<lparr>sys := z, pending_jobs := pending_jobs s + 1,
      dispatcher := snd (dispatcher_submit_read True ?id (current_slot s) (unat l)
                          (unat (block_size s) - unat l) (dispatcher s))\<rparr>"
  proof -
    have "t = ?u\<lparr>sys := sys t, pending_jobs := pending_jobs s + 1,
      dispatcher := snd (dispatcher_submit_read True ?id (current_slot s) (unat l)
                          (unat (block_size s) - unat l) (dispatcher s))\<rparr>"
      using run' by (cases "sys s") (auto simp: submit_def sys_call_def dispatcher_submit_read_def
          submit_request_def n ev_def current_slot_def split: if_splits)
    then show thesis by (rule that)
  qed
  have ct: "read_core f k a t"
  proof -
    have "ring_suffices f t = ring_suffices f s" "window_held f a (k - a) t = window_held f a (k - a) s"
      by (simp_all add: t ring_suffices_def window_held_def sr.holds_window_def slot_bytes_def slot_of_def)
    then show ?thesis using c f(4) by (simp add: read_core_def ring_ready_def t)
  qed
  have cs: "current_slot t = current_slot s" by (simp add: t current_slot_def)
  have pt: "partly_read f k (unat (last_block_size t)) t"
    using p by (simp add: partly_read_def cs slot_bytes_def) (simp add: t)
  have "\<forall>x \<in> set (ring (dispatcher s)). fst x \<noteq> Some ?id"
    using nodata [OF f(1)] by (simp add: in_flight_zero_iff)
  then have "\<forall>x \<in> set (ring (dispatcher t)). fst x = Some (event_id (session_id t) EVENT_DATA_AVAILABLE) \<longrightarrow>
      snd x = Req_Read (current_slot t) (unat (last_block_size t)) (unat (block_size t) - unat (last_block_size t))"
    by (auto simp: cs) (auto simp: t dispatcher_submit_read_def submit_request_def m)
  then have "reading f k a t"
    using pt f by (simp add: reading_def awaiting_options_ack_def) (simp add: t)
  moreover have "timer_ok k a t" using tm f by (simp add: timer_ok_def awaiting_options_ack_def t)
  moreover have "is_fetching_data t" by (simp add: t)
  ultimately show ?thesis using ct by (simp add: no_read_due_def)
qed

end
