(* ===== verification/Tftp_Read_Transfer.thy ===== *)
theory Tftp_Read_Transfer
  imports Tftp_Read_Data
begin

text \<open>
  Reading a file in octet mode: whole transfers.  The invariant of \<open>Tftp_Read_Invariant\<close> holds after
  the start event and is kept by every event, for every order of completions; the theorems at the
  end say what follows for the datagrams a read session sends.
\<close>

section \<open>One step of the event loop\<close>

text \<open>
  The acknowledgement a datagram from the client carries, if it is one, is fair; nothing is assumed
  about other datagrams, other completions and their order.
\<close>

definition fair_step :: "nat \<Rightarrow> completion \<Rightarrow> session \<Rightarrow> bool" where
  "fair_step i c s \<longleftrightarrow> (\<forall>res s1 block rest.
     fst (ring (dispatcher s) ! i) = Some (event_id (session_id s) EVENT_PACKET_RECEIVED)
     \<and> complete (snd (ring (dispatcher s) ! i)) c s = Some (res, s1) \<and> 4 \<le> res
     \<and> sockaddr_equals (last_message_address s1) (client_address s)
     \<and> dec16 (recv_buffer s1) = Some (opcode_value TFTP_OPCODE_ACK, rest)
     \<and> map_option fst (dec16 rest) = Some block \<longrightarrow> fair_ack block s)"

lemma complete_not_read:
  assumes "request_fits ev' req" and "ev' \<noteq> EVENT_DATA_AVAILABLE" and "complete req c s = Some (res, s1)"
  shows "read_view s1 = read_view s \<and> out s1 = out s \<and> client_address s1 = client_address s"
  using assms by (cases "(req, c, s)" rule: complete.cases; cases ev')
    (auto simp: read_view_def split: if_splits)

lemma no_read_due_due: "no_read_due f k a s \<Longrightarrow> read_due f k a s"
  by (auto simp: no_read_due_def read_due_def split: if_splits)

lemma read_inv_mid:
  assumes "read_inv f s"
  obtains k a where "read_mid f k a s"
proof -
  from assms obtain k a where "read_core f k a s" "no_read_due f k a s" "should_close s \<or> timer_ok k a s"
    unfolding read_inv_def by blast
  then show thesis using no_read_due_due that unfolding read_mid_def by blast
qed

lemma fetching_inv:
  assumes "read_inv f s" and "is_fetching_data s"
  obtains k a where "read_core f k a s" "reading f k a s" "should_close s \<or> timer_ok k a s"
  using assms by (auto simp: read_inv_def no_read_due_def)

text \<open>The handler of an event other than the arrival of data, before the next read.\<close>

lemma mid_dispatch:
  assumes m: "read_mid f k a u" and ev': "ev' \<noteq> EVENT_DATA_AVAILABLE" "ev' \<noteq> EVENT_START"
    and fair: "\<And>block rest. ev' = EVENT_PACKET_RECEIVED \<Longrightarrow> is_success e \<Longrightarrow> 4 \<le> ev_result e \<Longrightarrow>
      sockaddr_equals (last_message_address u) (client_address u) \<Longrightarrow>
      dec16 (recv_buffer u) = Some (opcode_value TFTP_OPCODE_ACK, rest) \<Longrightarrow>
      map_option fst (dec16 rest) = Some block \<Longrightarrow> fair_ack block u"
    and run: "dispatch_event ev' e u = (Ret_True, v)"
  shows "\<exists>a'. read_mid f k a' v"
proof -
  let ?u = "pending_jobs_dec u"
  have mu: "read_mid f k a ?u"
    by (rule mid_quiet [OF quiet_updates(8) _ m]) (simp add: no_more_reads_def pending_jobs_dec_def)
  have fr: "should_close ?u = should_close u" "is_timer_active ?u = is_timer_active u"
    "recv_buffer ?u = recv_buffer u" "last_message_address ?u = last_message_address u"
    "client_address ?u = client_address u" "fair_ack b ?u = fair_ack b u" for b
    by (simp_all add: pending_jobs_dec_def fair_ack_def)
  show ?thesis
  proof (cases ev')
    case EVENT_TIMEOUT
    then have "v = ?u \<or> (\<not> should_close u \<and> is_timer_active u \<and> on_timeout ?u = (Ret_True, v))"
      using run fr by (auto simp: Let_def split: if_splits)
    then show ?thesis using mu mid_on_timeout [OF mu] fr by auto
  next
    case EVENT_PACKET_RECEIVED
    show ?thesis
    proof (cases "v = ?u")
      case True
      then show ?thesis using mu by blast
    next
      case False
      then have sc: "\<not> should_close ?u" and c: "chain [on_packet_received e,
          \<lambda>s. if should_close s then (Ret_True, s) else recv_async s] ?u = (Ret_True, v)"
        using run EVENT_PACKET_RECEIVED fr by (auto simp: Let_def simp del: chain.simps split: if_splits)
      obtain w where w: "on_packet_received e ?u = (Ret_True, w)"
        and v: "(if should_close w then (Ret_True, w) else recv_async w) = (Ret_True, v)"
        using c by (rule chain2_TrueE)
      have su: "is_success e" using w by (auto simp: on_packet_received_def split: if_splits)
      obtain a' where mw: "read_mid f k a' w"
        using mid_on_packet_received [OF mu sc _ w] fair [OF EVENT_PACKET_RECEIVED su] fr by auto
      have "read_mid f k a' v"
      proof (cases "should_close w")
        case True
        then show ?thesis using v mw by simp
      next
        case False
        then have "recv_async w = (Ret_True, v)" using v by simp
        from mid_op [OF quiet_recv_async(1) submits_recv_async _ this mw, of "{EVENT_PACKET_RECEIVED}"]
        show ?thesis by simp
      qed
      then show ?thesis ..
    qed
  qed (use run mu ev' in \<open>auto simp: Let_def split: if_splits\<close>)
qed

lemma mid_dispatch_data:
  assumes inv: "read_core f k a s" "reading f k a s" "should_close s \<or> timer_ok k a s"
    and req: "complete (Req_Read (current_slot s) (unat (last_block_size s))
                    (unat (block_size s) - unat (last_block_size s))) c s = Some (res, s1)"
    and e: "is_success e = (0 \<le> res)" "0 \<le> res \<Longrightarrow> ev_result e = res"
    and run: "on_data_available e ((pending_jobs_dec (s1\<lparr>dispatcher := d\<rparr>))\<lparr>is_fetching_data := False\<rparr>) = (Ret_True, v)"
  shows "\<exists>k'. read_mid f k' a v"
proof (rule mid_data_available [OF _ _ _ run])
  let ?u = "(pending_jobs_dec (s1\<lparr>dispatcher := d\<rparr>))\<lparr>is_fetching_data := False\<rparr>"
  have u: "?u = s1\<lparr>dispatcher := d, pending_jobs := pending_jobs s1 - 1, is_fetching_data := False\<rparr>"
    by (simp add: pending_jobs_dec_def)
  show "mode ?u = TFTP_MODE_OCTET"
    using req inv(1) by (cases c) (auto simp: u read_core_def file_read_def split: if_splits option.splits prod.splits)
  show "arrived f k a (nat (ev_result e)) ?u" if "is_success e"
  proof (cases c)
    case (C_Read m)
    then show ?thesis using read_completes [OF inv req [unfolded C_Read] u] e that by simp
  qed (use req e that in \<open>auto split: if_splits\<close>)
  show "read_mid f k a (?u\<lparr>should_close := True\<rparr>)" if "\<not> is_success e"
  proof -
    have s1: "s1 = s"
      using req e that by (cases c) (auto simp: file_read_def Let_def split: if_splits option.splits prod.splits)
    have "read_core f k a (?u\<lparr>should_close := True\<rparr>)"
      by (rule core_cong [OF _ _ _ _ _ _ _ _ _ _ _ _ _ inv(1), of _ "[]"])
        (simp_all add: pending_jobs_dec_def s1 sends_file_def)
    then show ?thesis by (simp add: read_mid_def read_due_def pending_jobs_dec_def)
  qed
qed

lemma step_inverts:
  assumes inv: "jobs_inv s" and step: "session_step i c s = Some (st, t)" and st: "st \<noteq> TFTP_SESSION_STATE_ERROR" "st \<noteq> Session_Fault"
  obtains ev' req res s1 e d v w where
    "ring (dispatcher s) ! i = (Some (event_id (session_id s) ev'), req)" "i < length (ring (dispatcher s))"
    "request_fits ev' req" "complete req c s = Some (res, s1)" "same_jobs s s1" "should_close s1 = should_close s"
    "is_success e = (0 \<le> res)" "0 \<le> res \<Longrightarrow> ev_result e = res" "res < 0 \<Longrightarrow> ev_result e = - res"
    "d = snd (dispatcher_wait_event i res (dispatcher s1))"
    "dispatch_event ev' e (s1\<lparr>dispatcher := d\<rparr>) = (Ret_True, v)" "fetch_data v = (Ret_True, w)"
    "(st, t) = (if should_close w \<and> pending_jobs w = 0 then (TFTP_SESSION_STATE_CLOSED, close_session w)
                else (TFTP_SESSION_STATE_IDLE, w))"
proof -
  from step obtain res s1 e d where k: "i < length (ring (dispatcher s))"
    and c: "complete (snd (ring (dispatcher s) ! i)) c s = Some (res, s1)"
    and w: "dispatcher_wait_event i res (dispatcher s1) = (Some e, d)"
    and sid: "event_session (ev_id e) = session_id s"
    and h: "tftp_session_handle_event e (s1\<lparr>dispatcher := d\<rparr>) = (st, t)"
    by (auto simp: session_step_def split: if_splits option.splits prod.splits)
  have j: "same_jobs s s1" "should_close s1 = should_close s" using complete_same_jobs [OF c] by simp_all
  then have d: "dispatcher s1 = dispatcher s" by (simp add: same_jobs_def)
  from w d have uid: "fst (ring (dispatcher s) ! i) = Some (ev_id e)"
    by (auto simp: dispatcher_wait_event_def split: if_splits)
  moreover have "ring (dispatcher s) ! i \<in> set (ring (dispatcher s))" using k by simp
  ultimately obtain ev' where ev': "ev_id e = event_id (session_id s) ev'"
    and fits: "request_fits ev' (snd (ring (dispatcher s) ! i))"
    using inv sid unfolding jobs_inv_def well_tagged_def Let_def by blast
  have g: "get_event (ev_id e) = Some ev'" by (simp add: ev' get_event_id)
  have e: "is_success e = (0 \<le> res)" "0 \<le> res \<Longrightarrow> ev_result e = res" "res < 0 \<Longrightarrow> ev_result e = - res"
    using w by (auto simp: dispatcher_wait_event_def split: if_splits)
  obtain r u where ch: "chain [dispatch_event ev' e, fetch_data] (s1\<lparr>dispatcher := d\<rparr>) = (r, u)" by fastforce
  have "(st, t) = (case r of Fault \<Rightarrow> (Session_Fault, u) | Ret_False \<Rightarrow> (TFTP_SESSION_STATE_ERROR, u)
      | Ret_True \<Rightarrow> if should_close u \<and> pending_jobs u = 0
               then (TFTP_SESSION_STATE_CLOSED, close_session u) else (TFTP_SESSION_STATE_IDLE, u))"
    using h unfolding tftp_session_handle_event_def g option.case ch
    by (cases r) simp_all
  with st have r: "r = Ret_True" and stt: "(st, t) = (if should_close u \<and> pending_jobs u = 0
               then (TFTP_SESSION_STATE_CLOSED, close_session u) else (TFTP_SESSION_STATE_IDLE, u))"
    by (cases r; simp)+
  obtain v where v: "dispatch_event ev' e (s1\<lparr>dispatcher := d\<rparr>) = (Ret_True, v)" "fetch_data v = (Ret_True, u)"
    using ch [unfolded r] by (rule chain2_TrueE)
  show thesis
  proof (rule that [OF _ k fits c j e _ v stt])
    show "ring (dispatcher s) ! i = (Some (event_id (session_id s) ev'), snd (ring (dispatcher s) ! i))"
      using uid ev' by (metis prod.collapse)
    show "d = snd (dispatcher_wait_event i res (dispatcher s1))" by (simp add: w)
  qed
qed

lemma read_step:
  assumes inv: "read_inv f s" and jobs: "jobs_inv s" and fair: "fair_step i c s"
    and step: "session_step i c s = Some (st, t)" and st: "st \<noteq> TFTP_SESSION_STATE_ERROR" "st \<noteq> Session_Fault"
  shows "\<exists>k a w. read_core f k a w \<and> no_read_due f k a w \<and> (should_close w \<or> timer_ok k a w) \<and> no_start w
    \<and> (if st = TFTP_SESSION_STATE_CLOSED then t = close_session w else t = w)"
proof -
  obtain ev' req res s1 e d v w where
    rng: "ring (dispatcher s) ! i = (Some (event_id (session_id s) ev'), req)" "i < length (ring (dispatcher s))"
    and fits: "request_fits ev' req" and c: "complete req c s = Some (res, s1)"
    and j: "same_jobs s s1" "should_close s1 = should_close s"
    and e: "is_success e = (0 \<le> res)" "0 \<le> res \<Longrightarrow> ev_result e = res"
    and d: "d = snd (dispatcher_wait_event i res (dispatcher s1))"
    and v: "dispatch_event ev' e (s1\<lparr>dispatcher := d\<rparr>) = (Ret_True, v)" and w: "fetch_data v = (Ret_True, w)"
    and stt: "(st, t) = (if should_close w \<and> pending_jobs w = 0 then (TFTP_SESSION_STATE_CLOSED, close_session w)
                else (TFTP_SESSION_STATE_IDLE, w))"
    by (rule step_inverts [OF jobs step st]) blast
  let ?u = "s1\<lparr>dispatcher := d\<rparr>"
  have id: "fst (ring (dispatcher s) ! i) = Some (event_id (session_id s) ev')" by (simp add: rng)
  have tk: "taken_inv ev' ?u" by (rule wait_taken_inv [OF jobs rng(2) id j d [symmetric]])
  have mem: "ring (dispatcher s) ! i \<in> set (ring (dispatcher s))" using rng(2) by simp
  have ns: "ev' \<noteq> EVENT_START"
    using inv mem rng(1) by (auto simp: read_inv_def no_start_def in_flight_zero_iff)
  have sub: "set (ring d) \<subseteq> set (ring (dispatcher s))"
    using d j(1) by (auto simp: dispatcher_wait_event_def same_jobs_def dest: in_set_takeD in_set_dropD)
  have app: "appended (UNIV - {EVENT_START, EVENT_DATA_AVAILABLE}) (event_taken ev' ?u) v"
    using dispatch_event_appended [of ev' ?u e] v by simp
  have mid: "\<exists>k a. read_mid f k a v"
  proof (cases "ev' = EVENT_DATA_AVAILABLE")
    case False
    obtain k a where m: "read_mid f k a s" by (rule read_inv_mid [OF inv])
    note nr = complete_not_read [OF fits False c]
    have "quiet s ?u" using nr by (auto simp: quiet_def read_view_def)
    moreover have "no_more_reads s ?u" using j(1) sub by (auto simp: no_more_reads_def same_jobs_def)
    ultimately have mu: "read_mid f k a ?u" using m by (rule mid_quiet)
    have fu: "fair_ack block ?u"
      if "ev' = EVENT_PACKET_RECEIVED" "is_success e" "4 \<le> ev_result e" "sockaddr_equals (last_message_address ?u) (client_address ?u)"
        "dec16 (recv_buffer ?u) = Some (opcode_value TFTP_OPCODE_ACK, rest)"
        "map_option fst (dec16 rest) = Some block" for block rest
    proof -
      have "fair_ack block s"
        using fair c rng(1) that nr e unfolding fair_step_def by (auto simp: event_id_inject)
      then show ?thesis using nr by (auto simp: fair_ack_def read_view_def)
    qed
    have "\<exists>a'. read_mid f k a' v"
      by (rule mid_dispatch [OF mu False ns _ v]) (rule fu)
    then show ?thesis by blast
  next
    case True
    have "in_flight (event_id (session_id s) EVENT_DATA_AVAILABLE) (dispatcher s) \<noteq> 0"
      using mem rng(1) True by (auto simp: in_flight_zero_iff intro!: bexI)
    then have "is_fetching_data s" using jobs by (auto simp: jobs_inv_def Let_def split: if_splits)
    then obtain k a where ka: "read_core f k a s" "reading f k a s" "should_close s \<or> timer_ok k a s"
      by (rule fetching_inv [OF inv])
    have "req = Req_Read (current_slot s) (unat (last_block_size s))
                    (unat (block_size s) - unat (last_block_size s))"
      using ka(2) mem rng(1) True by (auto simp: reading_def)
    from mid_dispatch_data [OF ka c [unfolded this] e, of d v] v True show ?thesis by auto
  qed
  then obtain k a where m: "read_mid f k a v" by blast
  have nd: "in_flight (event_id (session_id v) EVENT_DATA_AVAILABLE) (dispatcher v) = 0"
    if "\<not> is_fetching_data v"
  proof -
    have "session_id v = session_id ?u" using appended_session_id [OF app] by simp
    moreover have "is_fetching_data v = is_fetching_data (event_taken ev' ?u)"
      by (rule appended_fetching [OF app])
    moreover have "in_flight (event_id (session_id ?u) EVENT_DATA_AVAILABLE) (dispatcher v)
        = in_flight (event_id (session_id ?u) EVENT_DATA_AVAILABLE) (dispatcher ?u)"
      using appended_counts(2) [OF app, of EVENT_DATA_AVAILABLE] by simp
    ultimately show ?thesis using that tk by (simp add: taken_inv_def)
  qed
  have "no_start w"
  proof -
    have a1: "in_flight (event_id (session_id ?u) EVENT_START) (dispatcher v) = 0"
      using appended_counts(2) [OF app, of EVENT_START] tk by (simp add: taken_inv_def)
    have fa: "appended {EVENT_DATA_AVAILABLE} (v\<lparr>is_fetching_data := is_fetching_data v \<or> should_fetch_data v\<rparr>) w"
      using fetch_data_appended [of v] w by simp
    show ?thesis
      using appended_counts(2) [OF fa, of EVENT_START] appended_session_id [OF fa] a1
        appended_session_id [OF app] by (simp add: no_start_def)
  qed
  moreover have "if st = TFTP_SESSION_STATE_CLOSED then t = close_session w else t = w"
    using stt by (auto split: if_splits)
  ultimately show ?thesis using mid_fetch [OF m nd w] by blast
qed

section \<open>The start of a read\<close>

text \<open>What starting a session does not touch.\<close>

definition start_view where
  "start_view s = (window_begin s, next_data_packet_to_send s, last_packet s, incomplete_read s,
     is_timer_active s, oack_packet s, last_block_size s, out s, should_close s, expected_sequence_number s)"

definition same_start :: "session \<Rightarrow> session \<Rightarrow> bool" where
  "same_start s t \<longleftrightarrow> start_view t = start_view s"

interpretation starting: op_effect same_start
  by unfold_locales (simp_all add: same_start_def)

named_theorems start_intros \<open>operations of the start of a session\<close>

declare starting.does_chain [start_intros] starting.does_assign [start_intros]

lemma start_malloc [start_intros]: "starting.does malloc_or_fail"
  by (rule starting.doesI)
    (auto simp: malloc_or_fail_def sys_call_def same_start_def start_view_def split: list.splits prod.splits)

lemma start_sys_ok [start_intros]: "starting.does sys_ok"
  by (rule starting.doesI)
    (auto simp: sys_ok_def sys_call_def same_start_def start_view_def split: list.splits prod.splits)

lemma start_open_socket [start_intros]: "starting.does open_socket"
  by (rule starting.doesI)
    (auto simp: open_socket_def sys_call_def same_start_def start_view_def split: list.splits prod.splits)

lemma start_addresses [start_intros]: "starting.does session_connection_addresses"
  by (rule starting.doesI)
    (auto simp: session_connection_addresses_def same_start_def start_view_def Let_def split: option.splits)

lemma start_connection [start_intros]: "starting.does session_connection_init"
  unfolding session_connection_init_def
  by (auto intro!: start_intros simp: same_start_def start_view_def simp del: chain.simps)

lemma start_parse_options [start_intros]: "starting.does parse_session_options"
  by (rule starting.doesI)
    (auto simp: parse_session_options_def store_params_def same_start_def start_view_def Let_def split: option.splits)

lemma start_allocate [start_intros]: "starting.does allocate_buffers"
  unfolding allocate_buffers_def
  by (auto intro!: start_intros simp: same_start_def start_view_def simp del: chain.simps)

lemma malloc_frame: "malloc_or_fail s = (r, t) \<Longrightarrow> \<exists>y. t = s\<lparr>sys := y\<rparr>"
proof -
  assume "malloc_or_fail s = (r, t)"
  then have "t = s\<lparr>sys := sys t\<rparr>"
    by (cases "sys s") (auto simp: malloc_or_fail_def sys_call_def)
  then show ?thesis ..
qed

lemma allocated_buffers:
  assumes "allocate_buffers s = (Ret_True, t)"
  shows "data_packets t = replicate (unat (window_size t)) (replicate (4 + unat (block_size t)) NUL)
    \<and> 4 + unat (block_size t) \<le> length (recv_buffer t)"
  using assms unfolding allocate_buffers_def
  by (elim chain_TrueE) (auto simp: assign_def dest!: malloc_frame)

lemma start_report_open:
  "start_report_error s = (Ret_True, t) \<Longrightarrow> \<not> should_close t \<Longrightarrow> t = s"
  by (auto simp: start_report_error_def simp del: chain.simps split: if_splits elim!: chain_TrueE)
    (auto simp: assign_def)

lemma start_file_opened:
  assumes run: "start_file rt s = (Ret_True, t)" and o': "open_file s = None" "open_file t \<noteq> None"
    and sc: "\<not> should_close t"
  shows "start_view t = start_view s
    \<and> data_packets t = replicate (unat (window_size t)) (replicate (4 + unat (block_size t)) NUL)
    \<and> 4 + unat (block_size t) \<le> length (recv_buffer t)"
proof -
  obtain f where c: "chain [parse_session_options, allocate_buffers, start_report_error]
      (s\<lparr>file_descriptor := os_descriptor (os s), open_file := Some f\<rparr>) = (Ret_True, t)"
    using run o' by (auto simp: start_file_def set_error_def simp del: chain.simps
        split: option.splits file_result.splits)
  let ?s = "s\<lparr>file_descriptor := os_descriptor (os s), open_file := Some f\<rparr>"
  obtain u v where u: "parse_session_options ?s = (Ret_True, u)" and v: "allocate_buffers u = (Ret_True, v)"
    and r: "start_report_error v = (Ret_True, t)"
    using c by (elim chain_TrueE) auto
  have t: "t = v" by (rule start_report_open [OF r sc])
  have "start_view v = start_view ?s"
    using starting.doesD [OF start_parse_options u] starting.doesD [OF start_allocate v]
    by (simp add: same_start_def)
  then show ?thesis using allocated_buffers [OF v] by (simp add: t start_view_def)
qed

lemma start_options_opened:
  assumes run: "start_options s = (Ret_True, t)" and o': "open_file s = None" "open_file t \<noteq> None"
    and sc: "\<not> should_close t"
  shows "start_view t = start_view s
    \<and> data_packets t = replicate (unat (window_size t)) (replicate (4 + unat (block_size t)) NUL)
    \<and> 4 + unat (block_size t) \<le> length (recv_buffer t)"
proof -
  obtain rt s' where f: "start_file rt s' = (Ret_True, t)" and s': "open_file s' = None" "start_view s' = start_view s"
  proof -
    obtain ok so m err where q: "session_options_init (take (nat (bytes_recvd (request_args s)) - 2)
        (drop 2 (buffer (request_args s)))) = Some (ok, so, m, err)"
      using run by (auto simp: start_options_def split: option.splits)
    define w where "w = (case err of None \<Rightarrow> s\<lparr>opts := so, mode := m\<rparr>
      | Some (code, message) \<Rightarrow> set_error code message (s\<lparr>opts := so, mode := m\<rparr>))"
    have w: "open_file w = None" "start_view w = start_view s"
      using o' by (simp_all add: w_def set_error_def same_start_def start_view_def split: option.splits prod.splits)
    have "start_options s =
       (if \<not> ok then (Ret_True, w)
        else if options_str so \<noteq> None \<and> is_list_request_enabled (server_info w)
                     \<and> request_type w = SESSION_READ_REQUEST
        then case session_options_get_read_type so of
                 None \<Rightarrow> (Fault, w)
               | Some (so', read_type) \<Rightarrow> start_file read_type (w\<lparr>opts := so'\<rparr>)
        else start_file TFTP_READ_TYPE_FILE w)"
      unfolding start_options_def q w_def Let_def by simp
    moreover have "start_view (w\<lparr>opts := so'\<rparr>) = start_view w" for so' by (simp add: start_view_def)
    ultimately show thesis
      using run w o'(2) that by (auto split: if_splits option.splits)
  qed
  from start_file_opened [OF f s'(1) o'(2) sc] s'(2) show ?thesis by simp
qed

lemma start_opened:
  assumes run: "start s = (Ret_True, t)" and o': "open_file s = None" "open_file t \<noteq> None"
    and sc: "\<not> should_close t"
  shows "start_view t = start_view s
    \<and> data_packets t = replicate (unat (window_size t)) (replicate (4 + unat (block_size t)) NUL)
    \<and> 4 + unat (block_size t) \<le> length (recv_buffer t)"
proof -
  have "is_request_valid s" using run sc by (auto simp: start_def simp del: chain.simps split: if_splits)
  then have c: "chain [assign (request_type_update (\<lambda>_.
                 if tftp_get_opcode_unsafe (buffer (request_args s)) = Some (opcode_value TFTP_OPCODE_WRQ)
                 then SESSION_WRITE_REQUEST else SESSION_READ_REQUEST)),
               session_connection_init, assign (stats_update (\<lambda>_. tftp_session_stat_init)), start_options] s
      = (Ret_True, t)"
    using run by (simp add: start_def del: chain.simps)
  obtain x u where u: "session_connection_init (s\<lparr>request_type := x\<rparr>) = (Ret_True, u)"
    and v: "start_options (u\<lparr>stats := tftp_session_stat_init\<rparr>) = (Ret_True, t)"
    using c by (elim chain_TrueE) (auto simp: assign_def)
  have ou: "open_file u = None"
  proof -
    have "open_file u = open_file s"
      using u unfolding session_connection_init_def
      by (elim chain_TrueE) (auto simp: assign_def session_connection_addresses_def sys_ok_def open_socket_def sys_call_def Let_def
          split: if_splits option.splits list.splits prod.splits dest!: malloc_frame)
    then show ?thesis using o' by simp
  qed
  have su: "start_view u = start_view s"
    using starting.doesD [OF start_connection u] by (simp add: same_start_def start_view_def)
  have "open_file (u\<lparr>stats := tftp_session_stat_init\<rparr>) = None" using ou by simp
  from start_options_opened [OF v this o'(2) sc] su show ?thesis by (simp add: start_view_def)
qed

lemma oack_not_data: "oack_packet_bytes so = Some p \<Longrightarrow> \<not> is_data_packet p"
  by (auto simp: oack_packet_bytes_def is_data_packet_def)

lemma send_oack_view:
  assumes "send_oack x = (Ret_True, y)"
  obtains p where "quiet (x\<lparr>oack_packet := Some p, is_timer_active := True\<rparr>) y" "\<not> is_data_packet p"
proof -
  obtain x1 x2 where x1: "oack_packet_init x = (Ret_True, x1)"
    and x2: "submit_timeout (if is_adaptive_timeout_active x1 then start_adaptive_timer 0 x1 else x1) = (Ret_True, x2)"
    and y: "send_oack_packet x2 = (Ret_True, y)"
    using assms unfolding send_oack_def by (elim chain_TrueE) (auto simp: assign_def)
  obtain p where p: "oack_packet_bytes (opts x) = Some p"
    and c: "chain [malloc_or_fail, assign (oack_packet_update (\<lambda>_. Some p))] x = (Ret_True, x1)"
    using x1 by (auto simp: oack_packet_init_def simp del: chain.simps split: option.splits)
  obtain z where "malloc_or_fail x = (Ret_True, z)" and "x1 = z\<lparr>oack_packet := Some p\<rparr>"
    using c by (elim chain_TrueE) (auto simp: assign_def)
  then obtain w where x1: "x1 = x\<lparr>sys := w, oack_packet := Some p\<rparr>"
    using malloc_frame by fastforce
  let ?x1' = "if is_adaptive_timeout_active x1 then start_adaptive_timer 0 x1 else x1"
  have "quiet x1 ?x1'" by (simp add: quiet_refl)
  then have "quiet (x1\<lparr>is_timer_active := True\<rparr>) (?x1'\<lparr>is_timer_active := True\<rparr>)"
    by (simp add: quiet_def read_view_def)
  moreover have "quiet (x\<lparr>oack_packet := Some p, is_timer_active := True\<rparr>) (x1\<lparr>is_timer_active := True\<rparr>)"
    by (simp add: x1 quiet_same read_view_def)
  ultimately have q: "quiet (x\<lparr>oack_packet := Some p, is_timer_active := True\<rparr>) x2"
    using quiet_timeout(1) [OF x2] quiet_trans by blast
  then have "oack_packet x2 = Some p" by (simp add: quiet_def read_view_def)
  then have "quiet x2 y"
    using y quietly.doesD [OF quiet_send [OF oack_not_data [OF p]]] by (simp add: send_oack_packet_def)
  with q have "quiet (x\<lparr>oack_packet := Some p, is_timer_active := True\<rparr>) y" by (rule quiet_trans)
  then show thesis using oack_not_data [OF p] by (rule that)
qed

text \<open>
  A session is about to read the file \<open>f\<close> in octet mode; the numbers are in range.  \<open>reads_file\<close> adds
  that the slots of a window are distinct.
\<close>

definition octet_read :: "byte list \<Rightarrow> session \<Rightarrow> bool" where
  "octet_read f s \<longleftrightarrow> request_type s = SESSION_READ_REQUEST \<and> mode s = TFTP_MODE_OCTET
     \<and> window_size s \<noteq> 0 \<and> 0 < unat (block_size s) \<and> unat (block_size s) < 65532
     \<and> (\<exists>fo. open_file s = Some fo \<and> contents fo = f \<and> file_offset fo = 0)"

definition reads_file :: "byte list \<Rightarrow> session \<Rightarrow> bool" where
  "reads_file f s \<longleftrightarrow> octet_read f s \<and> ring_suffices f s"

lemma start_mid:
  assumes init: "window_begin u = 1" "next_data_packet_to_send u = 1" "last_packet u = - 1"
      "\<not> incomplete_read u" "\<not> is_timer_active u" "\<not> is_fetching_data u" "oack_packet u = None"
      "open_file u = None" "last_block_size u = 0"
    and quiet_before: "\<forall>x \<in> set (out u). \<not> is_data_packet (snd x)"
    and run: "handle_start u = (Ret_True, v)" and sc: "\<not> should_close v" and r: "reads_file f v"
  shows "read_mid f 0 0 v"
proof -
  let ?g = "\<lambda>s. if awaiting_options_ack s then send_oack s
                else if request_type s = SESSION_WRITE_REQUEST then send_first_ack s else (Ret_True, s)"
  obtain x where x: "start u = (Ret_True, x)"
    and c: "(if should_close x then (Ret_True, x) else chain [?g, recv_async] x) = (Ret_True, v)"
    using run unfolding handle_start_def by (rule chain2_TrueE)
  have scx: "\<not> should_close x" using c sc by auto
  then have "chain [?g, recv_async] x = (Ret_True, v)" using c by (simp del: chain.simps)
  then obtain y where g: "?g x = (Ret_True, y)" and rcv: "recv_async y = (Ret_True, v)"
    by (rule chain2_TrueE)
  have qy: "quiet y v" by (rule quietly.doesD [OF quiet_recv_async(1) rcv])
  have rtx: "request_type x \<noteq> SESSION_WRITE_REQUEST \<or> awaiting_options_ack x"
  proof (rule ccontr)
    assume "\<not> ?thesis"
    then have "send_first_ack x = (Ret_True, y)" and w: "request_type x = SESSION_WRITE_REQUEST" using g by auto
    then have "request_type y = SESSION_WRITE_REQUEST"
      by (cases "sys x") (auto simp: send_first_ack_def sendto_def sys_call_def split: if_splits)
    then show False using qy r by (simp add: quiet_def read_view_def reads_file_def octet_read_def)
  qed
  obtain p where q: "quiet (x\<lparr>oack_packet := p, is_timer_active := awaiting_options_ack x \<or> is_timer_active x\<rparr>) v"
    and p: "p = oack_packet x \<or> (\<exists>b. p = Some b \<and> \<not> is_data_packet b)"
  proof (cases "awaiting_options_ack x")
    case True
    then obtain b where "quiet (x\<lparr>oack_packet := Some b, is_timer_active := True\<rparr>) y" "\<not> is_data_packet b"
      using g send_oack_view by auto
    then show thesis using that [of "Some b"] True quiet_trans [OF _ qy] by auto
  next
    case False
    then have "y = x" using g rtx by auto
    then show thesis using that [of "oack_packet x"] qy False by simp
  qed
  have "read_view v = read_view (x\<lparr>oack_packet := p, is_timer_active := awaiting_options_ack x \<or> is_timer_active x\<rparr>)"
    using q by (simp add: quiet_def)
  note fv = view_fields [OF this]
  have ox: "open_file x \<noteq> None" using r fv by (auto simp: reads_file_def octet_read_def)
  note st = start_opened [OF x init(8) ox scx]
  then have fx: "window_begin x = 1" "next_data_packet_to_send x = 1" "last_packet x = - 1"
      "\<not> incomplete_read x" "\<not> is_timer_active x" "oack_packet x = None" "out x = out u"
    using init by (simp_all add: start_view_def)
  obtain o' where o': "out v = out x @ o'" "\<forall>z \<in> set o'. \<not> is_data_packet (snd z)"
    using q by (auto simp: quiet_def)
  have sf: "sends_file f (unat (block_size v)) 0 (out v)"
    using quiet_before o' fx by (auto simp: sends_file_def)
  have core: "read_core f 0 0 v"
    unfolding read_core_def all_sent_def
  proof (intro conjI)
    show "ring_ready v" using r st by (simp add: ring_ready_def reads_file_def octet_read_def fv)
    show "\<forall>q \<in> set (data_packets v). length q = 4 + unat (block_size v)" using st by (simp add: fv)
    show "window_held f 0 (0 - 0) v" by (simp add: window_held_def sr.holds_empty)
    show "\<forall>q. oack_packet v = Some q \<longrightarrow> \<not> is_data_packet q" using p fx by (auto simp: fv)
  qed (use r sf fx in \<open>auto simp: reads_file_def octet_read_def fv\<close>)
  have nf: "\<not> is_fetching_data v"
  proof -
    have "submits (UNIV - {EVENT_DATA_AVAILABLE}) handle_start" by (rule submits_handle_start) simp_all
    from appended_fetching [OF submitsD [OF this run]] init(6) show ?thesis by simp
  qed
  have "partly_read f 0 0 v" using r by (auto simp: partly_read_def reads_file_def octet_read_def)
  then have "read_due f 0 0 v" using nf fx by (simp add: read_due_def fv)
  moreover have "timer_ok 0 0 v"
    using fx by (auto simp: timer_ok_def fv awaiting_options_ack_def)
  ultimately show ?thesis using core by (simp add: read_mid_def)
qed

section \<open>Whole transfers\<close>

lemma fetch_frame:
  assumes "fetch_data s = (Ret_True, t)"
  shows "request_type t = request_type s \<and> mode t = mode s \<and> window_size t = window_size s
    \<and> block_size t = block_size s \<and> should_close t = should_close s
    \<and> (mode s = TFTP_MODE_OCTET \<longrightarrow> open_file t = open_file s)"
proof -
  let ?R = "\<lambda>s t. request_type t = request_type s \<and> mode t = mode s \<and> window_size t = window_size s
    \<and> block_size t = block_size s \<and> should_close t = should_close s"
  have sub: "?R s t \<and> open_file t = open_file s" if "submit r s = (x, t)" for r x and s t :: session
    using that by (auto simp: submit_def sys_call_def split: prod.splits list.splits if_splits)
  have octet: "?R s t \<and> open_file t = open_file s" if "fetch_data_octet_async s = (Ret_True, t)" for s t
    using that by (auto simp: fetch_data_octet_async_def Let_def split: if_splits dest: sub)
  have loop: "?R s t" if "netascii_loop acc s = (r, acc', t)" for acc r acc' s t
    by (rule netascii_loop_rel [where R = ?R, OF _ _ _ _ _ that])
      (auto simp: set_error_def read_byte_def sys_call_def split: option.splits prod.splits list.splits if_splits)
  have ascii: "?R s t" if r: "fetch_data_netascii_async s = (Ret_True, t)" for s t
  proof -
    obtain acc u where l: "netascii_loop [] s = (Ret_True, acc, u)"
      and c: "chain [write_slot (current_slot u) 0 (tftp_data_packet_init (next_data_packet_to_send u) @ acc),
                   assign (last_block_size_update (\<lambda>_. word_of_nat (length acc))),
                   \<lambda>s. submit (\<lambda>ok. dispatcher_submit ok (Some (ev EVENT_DATA_AVAILABLE s))) s] u = (Ret_True, t)"
      using r by (auto simp: fetch_data_netascii_async_def simp del: chain.simps split: if_splits prod.splits ret.splits)
    have "?R u t"
      using c by (elim chain_TrueE) (auto simp: assign_def write_slot_def dest!: sub split: if_splits)
    then show ?thesis using loop [OF l] by simp
  qed
  show ?thesis
    using assms octet [of "s\<lparr>is_fetching_data := True\<rparr>" t] ascii [of "s\<lparr>is_fetching_data := True\<rparr>" t]
    by (auto simp: fetch_data_def split: if_splits)
qed

definition read_started :: "byte list \<Rightarrow> session \<Rightarrow> bool" where
  "read_started f s \<longleftrightarrow> (\<exists>s0 i c. just_started s0 \<and> out s0 = [] \<and> admissible i c s0
     \<and> session_step i c s0 = Some (TFTP_SESSION_STATE_IDLE, s) \<and> \<not> should_close s \<and> reads_file f s)"

definition read_running :: "session \<Rightarrow> session \<Rightarrow> bool" where
  "read_running s t \<longleftrightarrow> (\<exists>i c. admissible i c s \<and> fair_step i c s
     \<and> session_step i c s = Some (TFTP_SESSION_STATE_IDLE, t))"

text \<open>The parts of these two, for statements that show their hypotheses.\<close>

definition read_opened :: "byte list \<Rightarrow> session \<Rightarrow> bool" where
  "read_opened f s \<longleftrightarrow> (\<exists>s0 i c. just_started s0 \<and> out s0 = [] \<and> admissible i c s0
     \<and> session_step i c s0 = Some (TFTP_SESSION_STATE_IDLE, s) \<and> \<not> should_close s \<and> octet_read f s)"

lemma read_started_opened: "read_started f s \<longleftrightarrow> read_opened f s \<and> ring_suffices f s"
  by (auto simp: read_started_def read_opened_def reads_file_def)

lemma just_started_fields:
  assumes "just_started s"
  shows "window_begin s = 1" "next_data_packet_to_send s = 1" "last_packet s = - 1"
    "\<not> incomplete_read s" "\<not> is_timer_active s" "\<not> is_fetching_data s" "oack_packet s = None"
    "open_file s = None" "last_block_size s = 0" "in_flight (event_id (session_id s) EVENT_START) (dispatcher s) = 1"
    "in_flight_of (session_id s) (dispatcher s) = 1" "expected_sequence_number s = 1"
proof -
  obtain info req d0 w where z: "in_flight_of (session_id s) d0 = 0"
    and s: "s = (tftp_session_init (session_id s) info
              (snd (dispatcher_submit True (Some (event_id (session_id s) EVENT_START)) d0)) w)
              \<lparr>request_args := req\<rparr>"
    using assms unfolding just_started_def by blast
  show "window_begin s = 1" "next_data_packet_to_send s = 1" "last_packet s = - 1"
    "\<not> incomplete_read s" "\<not> is_timer_active s" "\<not> is_fetching_data s" "oack_packet s = None"
    "open_file s = None" "last_block_size s = 0" "expected_sequence_number s = 1"
    by (subst s, simp add: tftp_session_init_def)+
  have "dispatcher s = snd (dispatcher_submit True (Some (event_id (session_id s) EVENT_START)) d0)"
    by (subst s, simp add: tftp_session_init_def)
  then show "in_flight (event_id (session_id s) EVENT_START) (dispatcher s) = 1"
    "in_flight_of (session_id s) (dispatcher s) = 1"
    by (simp_all add: dispatcher_submit_def z in_flight_of_zero event_session_id)
qed

text \<open>The first step of a session handles its start event.\<close>

lemma first_step:
  assumes j: "just_started s0" and adm: "admissible i c s0"
    and step: "session_step i c s0 = Some (TFTP_SESSION_STATE_IDLE, s)"
  obtains d v where "handle_start (s0\<lparr>dispatcher := d\<rparr>) = (Ret_True, v)" and "fetch_data v = (Ret_True, s)"
    and "taken_inv EVENT_START (s0\<lparr>dispatcher := d\<rparr>)" and "jobs_inv s" and "\<not> is_fetching_data v"
    and "in_flight (event_id (session_id v) EVENT_DATA_AVAILABLE) (dispatcher v) = 0" and "no_start s"
    and "in_flight_of (session_id s0) d = 0"
proof -
  note jf = just_started_fields [OF j]
  have jobs0: "jobs_inv s0" by (rule just_started_jobs_inv [OF j])
  have jobs: "jobs_inv s" by (rule session_step_jobs(1) [OF jobs0 adm step refl])
  obtain ev' req res s1 e d v w where
    rng: "ring (dispatcher s0) ! i = (Some (event_id (session_id s0) ev'), req)" "i < length (ring (dispatcher s0))"
    and fits: "request_fits ev' req" and c: "complete req c s0 = Some (res, s1)"
    and sj: "same_jobs s0 s1" "should_close s1 = should_close s0"
    and d: "d = snd (dispatcher_wait_event i res (dispatcher s1))"
    and v: "dispatch_event ev' e (s1\<lparr>dispatcher := d\<rparr>) = (Ret_True, v)" and w: "fetch_data v = (Ret_True, w)"
    and stt: "(TFTP_SESSION_STATE_IDLE, s) = (if should_close w \<and> pending_jobs w = 0
                then (TFTP_SESSION_STATE_CLOSED, close_session w) else (TFTP_SESSION_STATE_IDLE, w))"
    by (rule step_inverts [OF jobs0 step]) auto
  have sw: "s = w" using stt by (simp split: if_splits)
  have tk: "taken_inv ev' (s1\<lparr>dispatcher := d\<rparr>)"
    by (rule wait_taken_inv [OF jobs0 rng(2) _ sj d [symmetric]]) (simp add: rng)
  have ev': "ev' = EVENT_START"
  proof (rule ccontr)
    assume n: "ev' \<noteq> EVENT_START"
    have "in_flight (event_id (session_id s0) EVENT_START) (snd (dispatcher_wait_event i res (dispatcher s0)))
        = in_flight (event_id (session_id s0) EVENT_START) (dispatcher s0)"
      using in_flight_wait [OF rng(2), of _ "event_id (session_id s0) EVENT_START" res] rng(1) n
      by (simp add: event_id_inject)
    then show False using tk jf(10) d sj by (simp add: taken_inv_def same_jobs_def)
  qed
  have "req = Req_Nop" using fits ev' by (cases req) simp_all
  then have s1: "s1 = s0" using c by (cases c) (auto split: if_splits)
  let ?u = "s0\<lparr>dispatcher := d\<rparr>"
  have h: "handle_start ?u = (Ret_True, v)" using v ev' s1 by simp
  have app: "appended (UNIV - {EVENT_START, EVENT_DATA_AVAILABLE}) ?u v"
    using dispatch_event_appended [of ev' ?u e] v ev' s1 by (simp add: event_taken_def)
  have nf: "\<not> is_fetching_data v" using appended_fetching [OF app] jf(6) by simp
  have nd: "in_flight (event_id (session_id v) EVENT_DATA_AVAILABLE) (dispatcher v) = 0"
    using appended_counts(2) [OF app, of EVENT_DATA_AVAILABLE] appended_session_id [OF app] tk jf(6)
    by (simp add: taken_inv_def event_taken_def ev' s1)
  have fa: "appended {EVENT_DATA_AVAILABLE} (v\<lparr>is_fetching_data := is_fetching_data v \<or> should_fetch_data v\<rparr>) w"
    using fetch_data_appended [of v] w by simp
  have "in_flight (event_id (session_id ?u) EVENT_START) (dispatcher v) = 0"
    using appended_counts(2) [OF app, of EVENT_START] tk by (simp add: taken_inv_def s1)
  then have "no_start w"
    using appended_counts(2) [OF fa, of EVENT_START] appended_session_id [OF fa]
        appended_session_id [OF app] by (simp add: no_start_def)
  moreover have "in_flight_of (session_id s0) d = 0"
    using in_flight_of_wait [OF rng(2), of "event_id (session_id s0) ev'" "session_id s0" res] rng(1) jf(11)
    by (simp add: d s1 event_session_id)
  ultimately show thesis using that [OF h _ _ jobs nf nd] w tk ev' s1 sw by simp
qed

lemma read_started_inv:
  assumes "read_started f s"
  shows "jobs_inv s \<and> read_inv f s"
proof -
  obtain s0 i c where j: "just_started s0" and o0: "out s0 = []" and adm: "admissible i c s0"
    and step: "session_step i c s0 = Some (TFTP_SESSION_STATE_IDLE, s)" and sc: "\<not> should_close s"
    and rf: "reads_file f s"
    using assms unfolding read_started_def by blast
  obtain d v where h: "handle_start (s0\<lparr>dispatcher := d\<rparr>) = (Ret_True, v)" and w: "fetch_data v = (Ret_True, s)"
    and jobs: "jobs_inv s" and nd: "in_flight (event_id (session_id v) EVENT_DATA_AVAILABLE) (dispatcher v) = 0"
    and ns: "no_start s"
    by (rule first_step [OF j adm step]) blast
  note fr = fetch_frame [OF w]
  have mo: "mode v = TFTP_MODE_OCTET" using fr rf by (simp add: reads_file_def octet_read_def)
  have "reads_file f v" using rf fr mo by (simp add: reads_file_def octet_read_def ring_suffices_def)
  moreover have "\<not> should_close v" using fr sc by simp
  ultimately have m: "read_mid f 0 0 v"
    using start_mid [OF _ _ _ _ _ _ _ _ _ _ h] just_started_fields [OF j] o0 by simp
  then show ?thesis using mid_fetch [OF m nd w] ns jobs by (auto simp: read_inv_def)
qed

interpretation read_transfer: invariant_machine "read_started f" read_running
    "\<lambda>s. jobs_inv s \<and> read_inv f s"
proof unfold_locales
  show "jobs_inv s \<and> read_inv f s" if "read_started f s" for s
    using that by (rule read_started_inv)
next
  fix s t
  assume inv: "jobs_inv s \<and> read_inv f s" and "read_running s t"
  then obtain i c where r: "admissible i c s" "fair_step i c s" "session_step i c s = Some (TFTP_SESSION_STATE_IDLE, t)"
    unfolding read_running_def by blast
  have "jobs_inv t" by (rule session_step_jobs(1) [OF _ r(1,3) refl]) (use inv in simp)
  moreover have "read_inv f t"
  proof -
    have "read_inv f s" and "jobs_inv s" using inv by simp_all
    from read_step [OF this r(2,3)] show ?thesis unfolding read_inv_def by auto
  qed
  ultimately show "jobs_inv t \<and> read_inv f t" by simp
qed

lemma read_inv_reachable: "reachable_from (read_started f) read_running s \<Longrightarrow> read_inv f s"
  using read_transfer.reachable_inv by blast

lemma on_ack_closes:
  assumes run: "on_ack block s = (Ret_True, t)" and sc: "\<not> should_close s" "should_close t"
  shows "last_packet s \<noteq> - 1 \<and> uint block = last_packet s"
proof -
  have adv: "last_packet s' \<noteq> - 1 \<and> uint block = last_packet s'"
    if r: "ack_advance block s' = (Ret_True, t)" for s'
  proof -
    obtain u v where u: "submit_cancel_timeout (adaptive_on_ack block (s'\<lparr>window_begin := block + 1\<rparr>)) = (Ret_True, u)"
      and v: "(if window_begin u \<noteq> next_data_packet_to_send u then submit_timeout u else (Ret_True, u)) = (Ret_True, v)"
      and t: "should_close t \<longleftrightarrow> last_packet v \<noteq> - 1 \<and> uint block = last_packet v"
      using r unfolding ack_advance_def by (elim chain_TrueE) (auto simp: assign_def)
    have "last_packet u = last_packet s'"
      using quiet_timeout(2) [OF u] quiet_adaptive(1) [of "s'\<lparr>window_begin := block + 1\<rparr>" block]
      by (simp add: quiet_def read_view_def)
    moreover have "last_packet v = last_packet u"
      using v quiet_timeout(1) [of u v] by (auto simp: quiet_def read_view_def split: if_splits)
    ultimately show ?thesis using t sc(2) by simp
  qed
  show ?thesis
    using run sc adv [of "acknowledge_options s"] adv
    by (fastforce simp: on_ack_def acknowledge_options_def split: if_splits option.splits)
qed

end
