(* ===== verification/Tftp_Read_Start.thy ===== *)
theory Tftp_Read_Start
  imports Tftp_Read_Transfer
begin

text \<open>
  Read transfers from their request on.  The first group of lemmas follows a plain octet request
  without options through \<open>start\<close>, the first \<open>read\<close>, the DATA packet and its acknowledgement when
  every system call succeeds; the second group states what the invariant of
  \<open>Tftp_Read_Transfer\<close> means for every run of a read session.
\<close>

section \<open>The nominal start\<close>

lemma malloc_nominal: "sys s = [] \<Longrightarrow> malloc_or_fail s = (Ret_True, s)"
  by (simp add: malloc_or_fail_def sys_call_def)

lemma sys_ok_nominal: "sys s = [] \<Longrightarrow> sys_ok s = (Ret_True, s)"
  by (simp add: sys_ok_def sys_call_def)

lemma open_socket_nominal: "sys s = [] \<Longrightarrow> open_socket s = (Ret_True, s\<lparr>sockfd := 4\<rparr>)"
  by (simp add: open_socket_def sys_call_def)

lemma connection_nominal:
  assumes "sys s = []" and "\<not> is_orig_dest_addr_ipv4 (request_args s)"
  shows "session_connection_init s = (Ret_True, s\<lparr>recv_buffer := replicate (unat tftp_default_blksize) NUL,
    client_address := peer_addr (request_args s), sockfd := 4,
    last_message_address := peer_addr (request_args s)\<rparr>)"
proof -
  let ?b = "replicate (unat tftp_default_blksize) NUL"
  let ?s1 = "s\<lparr>recv_buffer := ?b\<rparr>"
  have a: "session_connection_addresses ?s1
      = (Ret_True, ?s1\<lparr>client_address := peer_addr (request_args s)\<rparr>)"
    using assms(2) by (simp add: session_connection_addresses_def Let_def)
  show ?thesis
    unfolding session_connection_init_def chain.simps malloc_nominal [OF assms(1)] assign_def prod.case ret.case a
    by (simp add: sys_ok_nominal open_socket_nominal assms(1) del: replicate.simps)
qed

lemma allocate_nominal:
  assumes "sys s = []" and "\<not> is_adaptive_timeout_active s"
  shows "\<exists>rb et. allocate_buffers s = (Ret_True, s\<lparr>data_packets :=
      replicate (unat (window_size s)) (replicate (4 + unat (block_size s)) NUL), recv_buffer := rb,
      event_timeout := et\<rparr>)"
  unfolding allocate_buffers_def chain.simps assign_def prod.case ret.case
  using assms by (simp add: malloc_nominal del: replicate.simps) blast

text \<open>The kind of a request, and the mode its file is opened in.\<close>

definition requested :: "session \<Rightarrow> session_request_type" where
  "requested s = (if tftp_get_opcode_unsafe (buffer (request_args s)) = Some (opcode_value TFTP_OPCODE_WRQ)
     then SESSION_WRITE_REQUEST else SESSION_READ_REQUEST)"

definition mode_for :: "session_request_type \<Rightarrow> session_file_mode" where
  "mode_for q = (if q = SESSION_READ_REQUEST then SESSION_FILE_MODE_READ else SESSION_FILE_MODE_WRITE)"

lemma start_file_nominal:
  assumes "sys s = []" and "\<not> is_adaptive_timeout_active s" and "options_str (opts s) = None"
    and "cstr_at (options_storage (opts s)) 0 = Some fn"
    and "session_file_init (os s) fn (root_dir (server_info s)) (mode_for (request_type s)) rt = File_Opened fo"
    and "\<not> error_occurred (stats s)"
  shows "\<exists>rb et. start_file rt s = (Ret_True, s\<lparr>file_descriptor := os_descriptor (os s), open_file := Some fo, data_packets :=
      replicate (unat (window_size s)) (replicate (4 + unat (block_size s)) NUL), recv_buffer := rb,
      event_timeout := et\<rparr>)"
proof -
  let ?s = "s\<lparr>file_descriptor := os_descriptor (os s), open_file := Some fo\<rparr>"
  have p: "parse_session_options ?s = (Ret_True, ?s)" using assms(3) by (simp add: parse_session_options_def)
  obtain rb et where al: "allocate_buffers ?s = (Ret_True, ?s\<lparr>data_packets :=
      replicate (unat (window_size s)) (replicate (4 + unat (block_size s)) NUL), recv_buffer := rb,
      event_timeout := et\<rparr>)"
    using allocate_nominal [of ?s] assms(1,2) by auto
  have "start_file rt s = chain [parse_session_options, allocate_buffers, start_report_error] ?s"
    using assms(4,5) by (simp add: start_file_def mode_for_def del: chain.simps)
  then show ?thesis
    unfolding chain.simps p prod.case ret.case al
    by (intro exI [of _ rb] exI [of _ et])
      (use assms(6) in \<open>simp add: start_report_error_def del: replicate.simps\<close>)
qed

text \<open>A valid request without options goes on to open its file.\<close>

lemma start_plain:
  assumes "sys s = []" and "\<not> is_orig_dest_addr_ipv4 (request_args s)" and "is_request_valid s"
    and "session_options_init (take (nat (bytes_recvd (request_args s)) - 2) (drop 2 (buffer (request_args s))))
       = Some (True, so, m, None)"
    and "options_str so = None"
  shows "start s = start_file TFTP_READ_TYPE_FILE (s\<lparr>request_type := requested s,
      recv_buffer := replicate (unat tftp_default_blksize) NUL, client_address := peer_addr (request_args s),
      sockfd := 4, last_message_address := peer_addr (request_args s), stats := tftp_session_stat_init,
      opts := so, mode := m\<rparr>)"
proof -
  let ?s1 = "s\<lparr>request_type := requested s\<rparr>"
  let ?s2 = "?s1\<lparr>recv_buffer := replicate (unat tftp_default_blksize) NUL,
    client_address := peer_addr (request_args s), sockfd := 4,
    last_message_address := peer_addr (request_args s)\<rparr>"
  let ?s4 = "?s2\<lparr>stats := tftp_session_stat_init, opts := so, mode := m\<rparr>"
  have c: "session_connection_init ?s1 = (Ret_True, ?s2)"
    by (rule connection_nominal [of ?s1, simplified]) (use assms(1,2) in simp_all)
  have o': "start_options (?s2\<lparr>stats := tftp_session_stat_init\<rparr>) = start_file TFTP_READ_TYPE_FILE ?s4"
    using assms(4,5) by (simp add: start_options_def Let_def del: replicate.simps)
  have last: "(case start_file rt x of (Ret_True, u) \<Rightarrow> (Ret_True, u) | (Ret_False, u) \<Rightarrow> (Ret_False, u)
      | (Fault, u) \<Rightarrow> (Fault, u)) = start_file rt x" for rt x
    by (cases "start_file rt x", cases "fst (start_file rt x)") auto
  have r: "request_type_update (\<lambda>_. if tftp_get_opcode_unsafe (buffer (request_args s)) = Some (opcode_value TFTP_OPCODE_WRQ)
                 then SESSION_WRITE_REQUEST else SESSION_READ_REQUEST) s = ?s1"
    by (simp add: requested_def)
  show ?thesis
    unfolding start_def if_not_P [OF not_not [THEN iffD2, OF assms(3)]] chain.simps assign_def prod.case ret.case r c o'
    by (rule last)
qed

lemma start_nominal:
  assumes "sys s = []" and "\<not> is_orig_dest_addr_ipv4 (request_args s)" and "is_request_valid s"
    and "session_options_init (take (nat (bytes_recvd (request_args s)) - 2) (drop 2 (buffer (request_args s))))
       = Some (True, so, m, None)"
    and "options_str so = None" and "cstr_at (options_storage so) 0 = Some fn"
    and "session_file_init (os s) fn (root_dir (server_info s)) (mode_for (requested s)) TFTP_READ_TYPE_FILE
       = File_Opened fo"
    and "\<not> is_adaptive_timeout_active s"
  obtains rb et where "start s = (Ret_True, s\<lparr>request_type := requested s,
      client_address := peer_addr (request_args s), sockfd := 4,
      last_message_address := peer_addr (request_args s), stats := tftp_session_stat_init,
      opts := so, mode := m, file_descriptor := os_descriptor (os s), open_file := Some fo, data_packets :=
      replicate (unat (window_size s)) (replicate (4 + unat (block_size s)) NUL), recv_buffer := rb,
      event_timeout := et\<rparr>)"
proof -
  let ?s4 = "s\<lparr>request_type := requested s, recv_buffer := replicate (unat tftp_default_blksize) NUL,
    client_address := peer_addr (request_args s), sockfd := 4,
    last_message_address := peer_addr (request_args s), stats := tftp_session_stat_init, opts := so, mode := m\<rparr>"
  have "\<exists>rb et. start_file TFTP_READ_TYPE_FILE ?s4 = (Ret_True, ?s4\<lparr>file_descriptor := os_descriptor (os ?s4), open_file := Some fo,
      data_packets := replicate (unat (window_size ?s4)) (replicate (4 + unat (block_size ?s4)) NUL),
      recv_buffer := rb, event_timeout := et\<rparr>)"
    by (rule start_file_nominal)
      (use assms in \<open>simp_all add: tftp_session_stat_init_def del: replicate.simps\<close>)
  then obtain rb et where f: "start_file TFTP_READ_TYPE_FILE ?s4 = (Ret_True, ?s4\<lparr>file_descriptor := os_descriptor (os ?s4), open_file := Some fo,
      data_packets := replicate (unat (window_size ?s4)) (replicate (4 + unat (block_size ?s4)) NUL),
      recv_buffer := rb, event_timeout := et\<rparr>)" by blast
  show thesis
    using f unfolding start_plain [OF assms(1-5), symmetric]
    by (intro that [of et rb]) (simp del: replicate.simps)
qed

lemma recv_async_nominal:
  assumes "sys s = []"
  obtains d where "recv_async s = (Ret_True, s\<lparr>dispatcher := d, pending_jobs := pending_jobs s + 1\<rparr>)"
proof -
  have "recv_async s = (Ret_True, s\<lparr>dispatcher := snd (submit_request True (Some (ev EVENT_PACKET_RECEIVED s))
      (Req_Recvmsg (length (recv_buffer s))) (dispatcher s)), pending_jobs := pending_jobs s + 1\<rparr>)"
    unfolding recv_async_def
    by (rule submit_nominal [OF assms]) (simp add: dispatcher_submit_recvmsg_def)
  then show thesis by (rule that)
qed

lemma fetch_octet_nominal:
  assumes "sys s = []" and "window_size s \<noteq> 0" and "\<not> incomplete_read s" and "mode s = TFTP_MODE_OCTET"
    and "should_fetch_data s"
  obtains d where "fetch_data s = (Ret_True, s\<lparr>is_fetching_data := True, last_block_size := 0,
      incomplete_read := False, dispatcher := d, pending_jobs := pending_jobs s + 1\<rparr>)"
    and "ring d = ring (dispatcher s) @ [(Some (event_id (session_id s) EVENT_DATA_AVAILABLE),
      Req_Read (current_slot s) 0 (size_sub (unat (block_size s)) 0 mod 2 ^ 32))]"
proof -
  let ?s = "s\<lparr>is_fetching_data := True, last_block_size := 0, incomplete_read := False\<rparr>"
  let ?d = "snd (submit_request True (Some (ev EVENT_DATA_AVAILABLE ?s))
      (Req_Read (current_slot ?s) 0 (size_sub (unat (block_size s)) 0 mod 2 ^ 32)) (dispatcher ?s))"
  have "fetch_data s = submit (\<lambda>ok. dispatcher_submit_read ok (ev EVENT_DATA_AVAILABLE ?s) (current_slot ?s)
                          0 (size_sub (unat (block_size s)) 0)) ?s"
    using assms by (simp add: fetch_data_def fetch_data_octet_async_def Let_def)
  also have "\<dots> = (Ret_True, ?s\<lparr>dispatcher := ?d, pending_jobs := pending_jobs ?s + 1\<rparr>)"
    by (rule submit_nominal) (simp_all add: assms(1) dispatcher_submit_read_def)
  finally show thesis
    by (intro that [of ?d]) (simp_all add: submit_request_def ev_def current_slot_def)
qed

lemma start_event_step:
  assumes "just_started s" and "i < length (ring (dispatcher s))"
    and "fst (ring (dispatcher s) ! i) = Some (event_id (session_id s) EVENT_START)"
    and h: "chain [handle_start, fetch_data] (s\<lparr>dispatcher := snd (dispatcher_wait_event i 0 (dispatcher s))\<rparr>)
      = (Ret_True, t)" and "\<not> should_close t"
  shows "session_step i (C_Result 0) s = Some (TFTP_SESSION_STATE_IDLE, t)"
proof -
  have "well_tagged s" using just_started_jobs_inv [OF assms(1)] by (simp add: jobs_inv_def Let_def)
  moreover have "ring (dispatcher s) ! i \<in> set (ring (dispatcher s))" using assms(2) by simp
  ultimately obtain e where "event_id (session_id s) EVENT_START = event_id (session_id s) e"
    and f: "request_fits e (snd (ring (dispatcher s) ! i))"
    using assms(3) event_session_id unfolding well_tagged_def by metis
  then have "request_fits EVENT_START (snd (ring (dispatcher s) ! i))" by (simp add: event_id_inject)
  then have r: "snd (ring (dispatcher s) ! i) = Req_Nop" by (cases "snd (ring (dispatcher s) ! i)") simp_all
  have w: "dispatcher_wait_event i 0 (dispatcher s)
      = (Some \<lparr>ev_id = event_id (session_id s) EVENT_START, is_success = True, ev_result = 0\<rparr>,
         snd (dispatcher_wait_event i 0 (dispatcher s)))"
    by (simp add: dispatcher_wait_event_def assms(3))
  have ch: "chain [dispatch_event EVENT_START e, fetch_data] u = chain [handle_start, fetch_data] u" for e u
    by simp
  show ?thesis
    unfolding session_step_def if_P [OF assms(2)] r complete.simps option.case prod.case
    by (subst w) (use h assms(5) in \<open>simp add: event_session_id tftp_session_handle_event_def get_event_id ch
        del: chain.simps dispatch_event.simps\<close>)
qed

text \<open>The state of a session that has just asked for the first block of the file it has opened.\<close>

definition awaits_first_block :: "file_object \<Rightarrow> session \<Rightarrow> bool" where
  "awaits_first_block fo s \<longleftrightarrow> request_type s = SESSION_READ_REQUEST \<and> mode s = TFTP_MODE_OCTET
     \<and> open_file s = Some fo \<and> block_size s = 512 \<and> window_size s = 1 \<and> window_begin s = 1
     \<and> next_data_packet_to_send s = 1 \<and> last_packet s = - 1 \<and> last_block_size s = 0
     \<and> data_packets s = [replicate 516 NUL] \<and> \<not> is_adaptive_timeout_active s
     \<and> \<not> awaiting_options_ack s \<and> \<not> should_close s \<and> is_fetching_data s \<and> out s = [] \<and> sys s = []
     \<and> ring (dispatcher s) \<noteq> []
     \<and> last (ring (dispatcher s)) = (Some (event_id (session_id s) EVENT_DATA_AVAILABLE), Req_Read 0 0 512)"

lemma plain_request_awaits_data:
  assumes "just_started s" and "i < length (ring (dispatcher s))"
    and "fst (ring (dispatcher s) ! i) = Some (event_id (session_id s) EVENT_START)"
    and "sys s = []" and "out s = []" and "\<not> is_orig_dest_addr_ipv4 (request_args s)"
    and "is_request_valid s"
    and "tftp_get_opcode_unsafe (buffer (request_args s)) = Some (opcode_value TFTP_OPCODE_RRQ)"
    and "session_options_init (take (nat (bytes_recvd (request_args s)) - 2) (drop 2 (buffer (request_args s))))
       = Some (True, so, TFTP_MODE_OCTET, None)"
    and "options_str so = None" and "\<not> valid_options_required so"
    and "cstr_at (options_storage so) 0 = Some fn"
    and "session_file_init (os s) fn (root_dir (server_info s)) SESSION_FILE_MODE_READ TFTP_READ_TYPE_FILE
       = File_Opened fo" and "file_offset fo = 0"
  shows "\<exists>t. session_step i (C_Result 0) s = Some (TFTP_SESSION_STATE_IDLE, t)
    \<and> awaits_first_block fo t \<and> client_address t = peer_addr (request_args s)"
proof -
  let ?d = "snd (dispatcher_wait_event i 0 (dispatcher s))"
  let ?u = "s\<lparr>dispatcher := ?d\<rparr>"
  have f: "block_size s = 512" "window_size s = 1" "\<not> is_adaptive_timeout_active s" "\<not> should_close s"
  proof -
    obtain info req d0 w where s: "s = (tftp_session_init (session_id s) info
              (snd (dispatcher_submit True (Some (event_id (session_id s) EVENT_START)) d0)) w)
              \<lparr>request_args := req\<rparr>"
      using assms(1) unfolding just_started_def by blast
    show "block_size s = 512" "window_size s = 1" "\<not> is_adaptive_timeout_active s" "\<not> should_close s"
      by (subst s, simp add: tftp_session_init_def tftp_default_blksize_def)+
  qed
  have "is_request_valid ?u = is_request_valid s" unfolding is_request_valid_def by simp
  then have v: "is_request_valid ?u" using assms(7) by simp
  have rq: "requested ?u = SESSION_READ_REQUEST" using assms(8) by (simp add: requested_def)
  obtain rb et where st: "start ?u = (Ret_True, ?u\<lparr>request_type := requested ?u,
      client_address := peer_addr (request_args ?u), sockfd := 4,
      last_message_address := peer_addr (request_args ?u), stats := tftp_session_stat_init,
      opts := so, mode := TFTP_MODE_OCTET, file_descriptor := os_descriptor (os ?u), open_file := Some fo, data_packets :=
      replicate (unat (window_size ?u)) (replicate (4 + unat (block_size ?u)) NUL), recv_buffer := rb,
      event_timeout := et\<rparr>)"
    by (rule start_nominal [of ?u so TFTP_MODE_OCTET fn fo])
      (use assms v f rq in \<open>simp_all add: mode_for_def del: replicate.simps\<close>)
  define x where "x = ?u\<lparr>request_type := SESSION_READ_REQUEST,
      client_address := peer_addr (request_args ?u), sockfd := 4,
      last_message_address := peer_addr (request_args ?u), stats := tftp_session_stat_init,
      opts := so, mode := TFTP_MODE_OCTET, file_descriptor := os_descriptor (os ?u), open_file := Some fo, data_packets :=
      replicate (unat (window_size ?u)) (replicate (4 + unat (block_size ?u)) NUL), recv_buffer := rb,
      event_timeout := et\<rparr>"
  have xf: "sys x = []" "\<not> should_close x" "\<not> awaiting_options_ack x" "request_type x = SESSION_READ_REQUEST"
    "mode x = TFTP_MODE_OCTET" "open_file x = Some fo" "block_size x = 512" "window_size x = 1"
    "out x = []" "window_begin x = 1" "next_data_packet_to_send x = 1" "last_packet x = - 1"
    "\<not> incomplete_read x" "\<not> is_fetching_data x" "data_packets x = [replicate 516 NUL]"
    "\<not> is_adaptive_timeout_active x"
    using assms(4,5,11) f just_started_fields [OF assms(1)]
    by (simp_all add: x_def awaiting_options_ack_def replicate_Suc [of 0] del: replicate.simps)
  obtain d1 where d1: "recv_async x = (Ret_True, x\<lparr>dispatcher := d1, pending_jobs := pending_jobs x + 1\<rparr>)"
    by (rule recv_async_nominal [OF xf(1)])
  let ?y = "x\<lparr>dispatcher := d1, pending_jobs := pending_jobs x + 1\<rparr>"
  have h: "handle_start ?u = (Ret_True, ?y)"
    unfolding handle_start_def chain.simps st [unfolded rq] prod.case ret.case x_def [symmetric]
    using xf by (simp add: d1)
  have "awaiting_options_ack ?y = awaiting_options_ack x" by (simp add: awaiting_options_ack_def)
  then have sf: "should_fetch_data ?y" using xf by (simp add: should_fetch_data_def is_in_range_def)
  obtain d2 where d2: "fetch_data ?y = (Ret_True, ?y\<lparr>is_fetching_data := True, last_block_size := 0,
      incomplete_read := False, dispatcher := d2, pending_jobs := pending_jobs ?y + 1\<rparr>)"
    and r2: "ring d2 = ring (dispatcher ?y) @ [(Some (event_id (session_id ?y) EVENT_DATA_AVAILABLE),
      Req_Read (current_slot ?y) 0 (size_sub (unat (block_size ?y)) 0 mod 2 ^ 32))]"
    by (rule fetch_octet_nominal [of ?y]) (use xf sf in simp_all)
  let ?t = "?y\<lparr>is_fetching_data := True, last_block_size := 0,
      incomplete_read := False, dispatcher := d2, pending_jobs := pending_jobs ?y + 1\<rparr>"
  have "chain [handle_start, fetch_data] ?u = (Ret_True, ?t)" by (simp add: h d2)
  moreover have "\<not> should_close ?t" using xf by simp
  ultimately have "session_step i (C_Result 0) s = Some (TFTP_SESSION_STATE_IDLE, ?t)"
    by (rule start_event_step [OF assms(1-3)])
  moreover have "awaits_first_block fo ?t"
    using xf r2 by (simp add: awaits_first_block_def current_slot_def packet_slot_def size_sub_def awaiting_options_ack_def)
  moreover have "client_address ?t = peer_addr (request_args s)" by (simp add: x_def)
  ultimately show ?thesis by (intro exI [of _ ?t]) simp
qed


lemma first_block_complete:
  assumes "awaits_first_block fo s" and "file_offset fo = 0" and "length (contents fo) < 512"
  shows "complete (Req_Read 0 0 512) (C_Read 512) s = Some (int (length (contents fo)),
      s\<lparr>data_packets := [splice 4 (contents fo) (replicate 516 NUL)],
        open_file := Some (fo\<lparr>file_offset := length (contents fo)\<rparr>)\<rparr>)"
  using assms by (simp add: awaits_first_block_def file_read_def Let_def)

lemma small_packet:
  assumes "length f < 512"
  shows "take (4 + unat (word_of_nat (length f) :: u16))
      (splice 0 (tftp_data_packet_init b) (splice 4 f (replicate 516 NUL))) = tftp_data_packet_init b @ f"
proof -
  have "unat (word_of_nat (length f) :: u16) = length f"
    using assms by (simp add: unat_of_nat take_bit_nat_eq_self)
  moreover have "length (tftp_data_packet_init b) = 4" by (simp add: tftp_data_packet_init_def)
  ultimately show ?thesis
    by (simp add: splice_def)
qed

text \<open>The only block of a file shorter than 512 bytes arrives and is sent.\<close>

lemma first_block_sent:
  assumes "awaits_first_block fo s" and "file_offset fo = 0" and "length (contents fo) < 512" and "seekable fo"
  obtains u where "session_step (length (ring (dispatcher s)) - 1) (C_Read 512) s = Some (TFTP_SESSION_STATE_IDLE, u)"
    and "out u = [(client_address s, tftp_data_packet_init 1 @ contents fo)]"
    and "window_begin u = 1" and "next_data_packet_to_send u = 2" and "last_packet u = 1"
    and "block_size u = 512" and "sys u = []" and "\<not> is_adaptive_timeout_active u" and "\<not> should_close u"
    and "\<not> awaiting_options_ack u" and "last_block_size u = word_of_nat (length (contents fo))"
    and "is_timer_active u"
proof -
  define f where "f = contents fo"
  define i where "i = length (ring (dispatcher s)) - 1"
  define d where "d = snd (dispatcher_wait_event i (int (length f)) (dispatcher s))"
  let ?e = "\<lparr>ev_id = event_id (session_id s) EVENT_DATA_AVAILABLE, is_success = True, ev_result = int (length f)\<rparr>"
  let ?fo = "fo\<lparr>file_offset := length f\<rparr>"
  let ?s1 = "s\<lparr>data_packets := [splice 4 f (replicate 516 NUL)], open_file := Some ?fo\<rparr>"
  let ?s2 = "(pending_jobs_dec (?s1\<lparr>dispatcher := d\<rparr>))\<lparr>is_fetching_data := False\<rparr>"
  let ?n = "word_of_nat (length f) :: u16"
  let ?p = "splice 0 (tftp_data_packet_init 1) (splice 4 f (replicate 516 NUL))"
  let ?s3 = "?s2\<lparr>last_block_size := ?n, data_packets := [?p]\<rparr>"
  have len: "length f < 512" using assms(3) by (simp add: f_def)
  have sf: "request_type s = SESSION_READ_REQUEST" "mode s = TFTP_MODE_OCTET"
    "open_file s = Some fo" "block_size s = 512" "window_size s = 1" "window_begin s = 1"
    "next_data_packet_to_send s = 1" "last_packet s = - 1" "last_block_size s = 0"
    "\<not> is_adaptive_timeout_active s"
    "\<not> awaiting_options_ack s" "\<not> should_close s" "out s = []" "sys s = []"
    using assms(1) by (simp_all add: awaits_first_block_def)
  have r: "i < length (ring (dispatcher s))"
    "ring (dispatcher s) ! i = (Some (event_id (session_id s) EVENT_DATA_AVAILABLE), Req_Read 0 0 512)"
    using assms(1) last_conv_nth [of "ring (dispatcher s)"] by (simp_all add: awaits_first_block_def i_def)
  have c: "create_data_packets (length f) ?s2 = (Ret_True, ?s3)"
    using assms(4) sf len
    by (simp add: create_data_packets_def end_of_file_def seekable_def write_slot_def current_slot_def packet_slot_def
        pending_jobs_dec_def f_def)
  have info: "get_data_packet_info ?s3 1 = Some (?p, 516)"
    using sf by (simp add: get_data_packet_info_def packet_slot_def pending_jobs_dec_def Let_def)
  let ?q = "(client_address s, tftp_data_packet_init 1 @ f)"
  let ?s4 = "?s3\<lparr>out := [?q], stats := (stats s)\<lparr>packets_sent := packets_sent (stats s) + 1\<rparr>, last_packet := 1\<rparr>"
  obtain d' where tm: "submit_timeout ?s4 = (Ret_True, ?s4\<lparr>dispatcher := d', pending_jobs := pending_jobs ?s4 + 1,
      is_timer_active := True\<rparr>)"
    by (rule submit_timeout_nominal [of ?s4]) (use sf in \<open>simp add: pending_jobs_dec_def\<close>)
  let ?u = "?s4\<lparr>dispatcher := d', pending_jobs := pending_jobs ?s4 + 1,
      is_timer_active := True, next_data_packet_to_send := 2\<rparr>"
  have snd: "send_data_packet ?s3 = (Ret_True, ?s3\<lparr>out := [?q]\<rparr>)"
    using sf info small_packet [OF len, of 1]
    by (simp add: send_data_packet_def send_or_fail_def pending_jobs_dec_def sendto_nominal)
  have "on_data_available_send ?s3 = (Ret_True, ?u)"
    unfolding on_data_available_send_def chain.simps assign_def prod.case ret.case
    using sf snd tm len
    by (simp add: pending_jobs_dec_def word_less_nat_alt unat_of_nat take_bit_nat_eq_self)
  then have "dispatch_event EVENT_DATA_AVAILABLE ?e (?s1\<lparr>dispatcher := d\<rparr>) = (Ret_True, ?u)"
    using c sf by (simp add: on_data_available_def pending_jobs_dec_def)
  moreover have "fetch_data ?u = (Ret_True, ?u)"
    by (simp add: fetch_data_def should_fetch_data_def pending_jobs_dec_def)
  ultimately have h: "chain [dispatch_event EVENT_DATA_AVAILABLE ?e, fetch_data] (?s1\<lparr>dispatcher := d\<rparr>)
      = (Ret_True, ?u)" by simp
  have w: "dispatcher_wait_event i (int (length f)) (dispatcher s) = (Some ?e, d)"
    by (simp add: dispatcher_wait_event_def r d_def)
  have "session_step i (C_Read 512) s = Some (tftp_session_handle_event ?e (?s1\<lparr>dispatcher := d\<rparr>))"
    unfolding session_step_def if_P [OF r(1)] r snd_conv
      first_block_complete [OF assms(1-3), folded f_def] option.case prod.case
    by (simp add: w event_session_id)
  also have "tftp_session_handle_event ?e (?s1\<lparr>dispatcher := d\<rparr>) = (TFTP_SESSION_STATE_IDLE, ?u)"
    unfolding tftp_session_handle_event_def
    using h sf by (simp add: get_event_id pending_jobs_dec_def del: chain.simps dispatch_event.simps)
  finally show thesis
    by (rule that [folded i_def])
      (use sf in \<open>simp_all add: pending_jobs_dec_def awaiting_options_ack_def f_def\<close>)
qed

text \<open>The acknowledgement of block 1 completes the transfer.\<close>

lemma first_block_acknowledged:
  assumes "window_begin u = 1" and "next_data_packet_to_send u = 2" and "last_packet u = 1"
    and "block_size u = 512" and "sys u = []" and "\<not> is_adaptive_timeout_active u"
    and "\<not> awaiting_options_ack u" and "unat (last_block_size u) < 512"
  obtains v where "on_ack 1 u = (Ret_True, v)" and "should_close v" and "out v = out u"
proof -
  obtain n where n: "get_cumulative_ackd_payload_size (block_size u) (window_begin u) (last_packet u)
                  (last_block_size u) 1 = Some n"
    using assms(1-4,8) by (auto simp: get_cumulative_ackd_payload_size_def Let_def)
  have "is_in_range 1 (window_begin u) (next_data_packet_to_send u - 1)"
    using assms(1,2) by (simp add: is_in_range_def)
  then have o': "on_ack 1 u = ack_advance 1 (u\<lparr>stats := (stats u)\<lparr>bytes_sent := bytes_sent (stats u) + n\<rparr>\<rparr>)"
    using n assms(7) by (simp add: on_ack_def)
  show thesis
    by (rule ack_advance_nominal [of "u\<lparr>stats := (stats u)\<lparr>bytes_sent := bytes_sent (stats u) + n\<rparr>\<rparr>" 1])
      (use assms o' in \<open>auto intro!: that\<close>)
qed

section \<open>A small download\<close>

text \<open>
  A client asks for a file of five bytes, in octet mode and without options.
\<close>

definition small_file :: file_object where
  "small_file = \<lparr>contents = ''hello'', file_offset = 0, kind = Regular_File\<rparr>"

definition download :: session where
  "download = (example_session (be16 1 @ zstr ''f'' @ zstr ''octet''))
     \<lparr>os := plain_os\<lparr>os_open := (\<lambda>p w. Inr small_file)\<rparr>\<rparr>"

lemma just_started_os: "just_started s \<Longrightarrow> just_started (s\<lparr>os := e\<rparr>)"
proof -
  assume "just_started s"
  then obtain info req d0 w where z: "in_flight_of (session_id s) d0 = 0"
    and s: "s = (tftp_session_init (session_id s) info
              (snd (dispatcher_submit True (Some (event_id (session_id s) EVENT_START)) d0)) w)
              \<lparr>request_args := req\<rparr>"
    unfolding just_started_def by blast
  have "s\<lparr>os := e\<rparr> = (tftp_session_init (session_id s) info
              (snd (dispatcher_submit True (Some (event_id (session_id s) EVENT_START)) d0)) (w\<lparr>os := e\<rparr>))
              \<lparr>request_args := req\<rparr>"
    by (subst s) (simp add: tftp_session_init_def)
  moreover have "session_id (s\<lparr>os := e\<rparr>) = session_id s" by simp
  ultimately show ?thesis using z unfolding just_started_def by metis
qed

lemma download_request:
  "request_args download = example_request (be16 1 @ zstr ''f'' @ zstr ''octet'')"
  "server_info download = example_info"
  by (simp_all add: download_def example_session_def blank_session_def)

lemma download_options:
  "\<exists>so. session_options_init (take (nat (bytes_recvd (request_args download)) - 2)
         (drop 2 (buffer (request_args download)))) = Some (True, so, TFTP_MODE_OCTET, None)
     \<and> options_str so = None \<and> \<not> valid_options_required so \<and> cstr_at (options_storage so) 0 = Some ''f''"
proof -
  let ?r = "session_options_init (take (nat (bytes_recvd (request_args download)) - 2)
         (drop 2 (buffer (request_args download))))"
  have "(case ?r of Some (ok, so, m, err) \<Rightarrow> ok \<and> m = TFTP_MODE_OCTET \<and> err = None \<and> options_str so = None
     \<and> \<not> valid_options_required so \<and> cstr_at (options_storage so) 0 = Some ''f'' | None \<Rightarrow> False)"
    unfolding download_request by code_simp
  then show ?thesis by (auto split: option.splits)
qed

lemma download_fields:
  "just_started download" "0 < length (ring (dispatcher download))"
  "fst (ring (dispatcher download) ! 0) = Some (event_id (session_id download) EVENT_START)"
  "sys download = []" "out download = []" "\<not> is_orig_dest_addr_ipv4 (request_args download)"
  "is_request_valid download"
  "tftp_get_opcode_unsafe (buffer (request_args download)) = Some (opcode_value TFTP_OPCODE_RRQ)"
  "session_file_init (os download) fn (root_dir (server_info download)) SESSION_FILE_MODE_READ TFTP_READ_TYPE_FILE
       = File_Opened small_file"
  "file_offset small_file = 0" "length (contents small_file) < 512" "seekable small_file"
  "contents small_file = ''hello''"
proof -
  show "just_started download" unfolding download_def by (intro just_started_os example_just_started)
  show "0 < length (ring (dispatcher download))"
    "fst (ring (dispatcher download) ! 0) = Some (event_id (session_id download) EVENT_START)"
    "sys download = []" "out download = []" 
    by (simp_all add: download_def example_session_def blank_session_def start_event_def dispatcher_submit_def
        submit_request_def dispatcher_init_def)
  show "\<not> is_orig_dest_addr_ipv4 (request_args download)"
    "tftp_get_opcode_unsafe (buffer (request_args download)) = Some (opcode_value TFTP_OPCODE_RRQ)"
    unfolding download_request by code_simp+
  show "is_request_valid download" unfolding is_request_valid_def download_request by code_simp
  show "session_file_init (os download) fn (root_dir (server_info download)) SESSION_FILE_MODE_READ TFTP_READ_TYPE_FILE
       = File_Opened small_file"
    by (simp add: download_def example_session_def blank_session_def example_info_def session_file_init_def plain_os_def)
  show "file_offset small_file = 0" "length (contents small_file) < 512" "seekable small_file"
    "contents small_file = ''hello''"
    by (simp_all add: small_file_def seekable_def)
qed

section \<open>The run of the small download\<close>

lemma plain_request_reading:
  assumes "just_started s" and "out s = []" and "session_step i (C_Result 0) s = Some (TFTP_SESSION_STATE_IDLE, t)"
    and "awaits_first_block fo t" and "file_offset fo = 0"
  shows "read_started (contents fo) t"
proof -
  have a: "admissible i (C_Result 0) s" by (simp add: admissible_def ECANCELED_def)
  have b: "\<not> should_close t" "reads_file (contents fo) t"
    using assms(4,5) by (simp_all add: awaits_first_block_def reads_file_def octet_read_def ring_suffices_def)
  show ?thesis unfolding read_started_def using assms(1-3) a b by blast
qed

lemma download_run:
  obtains t u v where "session_step 0 (C_Result 0) download = Some (TFTP_SESSION_STATE_IDLE, t)"
    and "awaits_first_block small_file t" and "client_address t = example_peer"
    and "reachable_from (read_started ''hello'') read_running t"
    and "reachable_from (read_started ''hello'') read_running u"
    and "out u = [(example_peer, tftp_data_packet_init 1 @ ''hello'')]" and "\<not> should_close u"
    and "is_timer_active u" and "block_size u = 512" and "\<not> awaiting_options_ack u"
    and "on_ack 1 u = (Ret_True, v)" and "should_close v" and "read_started ''hello'' t"
    and "session_step (length (ring (dispatcher t)) - 1) (C_Read 512) t = Some (TFTP_SESSION_STATE_IDLE, u)"
    and "fst (ring (dispatcher t) ! (length (ring (dispatcher t)) - 1)) = Some (event_id (session_id t) EVENT_DATA_AVAILABLE)"
    and "fair_step (length (ring (dispatcher t)) - 1) (C_Read 512) t"
proof -
  obtain so where so: "session_options_init (take (nat (bytes_recvd (request_args download)) - 2)
         (drop 2 (buffer (request_args download)))) = Some (True, so, TFTP_MODE_OCTET, None)"
    "options_str so = None" "\<not> valid_options_required so" "cstr_at (options_storage so) 0 = Some ''f''"
    using download_options by blast
  obtain t where t: "session_step 0 (C_Result 0) download = Some (TFTP_SESSION_STATE_IDLE, t)"
    "awaits_first_block small_file t" "client_address t = example_peer"
    using plain_request_awaits_data [OF download_fields(1-8) so download_fields(9,10)]
    by (auto simp: download_request example_request_def)
  have rt: "read_started ''hello'' t"
    using plain_request_reading [OF download_fields(1,5) t(1,2) download_fields(10)]
    by (simp add: download_fields)
  obtain u where u: "session_step (length (ring (dispatcher t)) - 1) (C_Read 512) t = Some (TFTP_SESSION_STATE_IDLE, u)"
    "out u = [(example_peer, tftp_data_packet_init 1 @ ''hello'')]"
    "window_begin u = 1" "next_data_packet_to_send u = 2" "last_packet u = 1" "block_size u = 512"
    "sys u = []" "\<not> is_adaptive_timeout_active u" "\<not> should_close u" "\<not> awaiting_options_ack u"
    "last_block_size u = word_of_nat (length ''hello'')" "is_timer_active u"
    by (rule first_block_sent [OF t(2) download_fields(10-12), unfolded t(3) download_fields(13)])
  have "ring (dispatcher t) \<noteq> []"
    "last (ring (dispatcher t)) = (Some (event_id (session_id t) EVENT_DATA_AVAILABLE), Req_Read 0 0 512)"
    using t(2) by (simp_all add: awaits_first_block_def)
  then have lt: "fst (ring (dispatcher t) ! (length (ring (dispatcher t)) - 1))
      = Some (event_id (session_id t) EVENT_DATA_AVAILABLE)"
    using last_conv_nth [of "ring (dispatcher t)"] by simp
  then have fs: "fair_step (length (ring (dispatcher t)) - 1) (C_Read 512) t"
    unfolding fair_step_def by (simp add: event_id_inject)
  then have run: "read_running t u" using lt
    unfolding read_running_def using u(1) by (intro exI conjI) (auto simp: admissible_def)
  obtain v where v: "on_ack 1 u = (Ret_True, v)" "should_close v"
    by (rule first_block_acknowledged [OF u(3-8) u(10)]) (simp_all add: u(11))
  have r: "reachable_from (read_started ''hello'') read_running t" by (rule reach_init [of "read_started ''hello''", OF rt])
  moreover have "reachable_from (read_started ''hello'') read_running u" by (rule reach_step [OF r run])
  ultimately show thesis using t u v rt lt fs by (intro that) simp_all
qed

lemma session_sends_blocks:
  assumes "reachable_from (read_started f) read_running s"
  shows "\<exists>k \<le> length f div unat (block_size s) + 1.
    sends_file f (unat (block_size s)) k (out s) \<and> all_sent f (unat (block_size s)) k (out s)"
proof -
  obtain k a where c: "read_core f k a s"
    using read_inv_reachable [OF assms] unfolding read_inv_def by blast
  have bs: "0 < unat (block_size s)" using c by (simp add: read_core_def)
  have "k \<le> length f div unat (block_size s) + 1"
  proof (cases "last_packet s = - 1")
    case True
    then have "k * unat (block_size s) div unat (block_size s) \<le> length f div unat (block_size s)"
      using c by (intro div_le_mono) (simp add: read_core_def)
    then show ?thesis using bs by simp
  next
    case False
    then show ?thesis using c by (simp add: read_core_def sent_all_def)
  qed
  moreover have "sends_file f (unat (block_size s)) k (out s)" "all_sent f (unat (block_size s)) k (out s)"
    using c by (simp_all add: read_core_def)
  ultimately show ?thesis by blast
qed

section \<open>What read sessions do\<close>

text \<open>
  C35: A plain request to read an existing file starts a transfer.  When the start event of a new job is
  handled, the request is a valid octet request without options, the file can be opened and every
  call succeeds, then the session is idle afterwards, has sent nothing yet and is reading the
  file from its beginning, with blocks of 512 bytes and a window of one.
\<close>

theorem plain_read_request_starts:
  assumes "just_started s" and "i < length (ring (dispatcher s))"
    and "fst (ring (dispatcher s) ! i) = Some (event_id (session_id s) EVENT_START)"
    and "sys s = []" and "out s = []" and "\<not> is_orig_dest_addr_ipv4 (request_args s)"
    and "is_request_valid s"
    and "tftp_get_opcode_unsafe (buffer (request_args s)) = Some (opcode_value TFTP_OPCODE_RRQ)"
    and "session_options_init (take (nat (bytes_recvd (request_args s)) - 2) (drop 2 (buffer (request_args s))))
       = Some (True, so, TFTP_MODE_OCTET, None)"
    and "options_str so = None" and "\<not> valid_options_required so"
    and "cstr_at (options_storage so) 0 = Some fn"
    and "session_file_init (os s) fn (root_dir (server_info s)) SESSION_FILE_MODE_READ TFTP_READ_TYPE_FILE
       = File_Opened fo" and "file_offset fo = 0"
  shows "\<exists>t. session_step i (C_Result 0) s = Some (TFTP_SESSION_STATE_IDLE, t)
    \<and> read_started (contents fo) t \<and> client_address t = peer_addr (request_args s)
    \<and> is_fetching_data t \<and> out t = [] \<and> block_size t = 512 \<and> window_size t = 1"
proof -
  obtain t where t: "session_step i (C_Result 0) s = Some (TFTP_SESSION_STATE_IDLE, t)"
    "awaits_first_block fo t" "client_address t = peer_addr (request_args s)"
    using plain_request_awaits_data [OF assms] by (elim exE conjE) (rule that)
  moreover have "read_started (contents fo) t"
    by (rule plain_request_reading [OF assms(1,5) t(1,2) assms(14)])
  ultimately show ?thesis by (auto simp: awaits_first_block_def)
qed

theorem plain_read_request_starts_witness:
  "\<exists>t. session_step 0 (C_Result 0) download = Some (TFTP_SESSION_STATE_IDLE, t)
    \<and> read_started ''hello'' t \<and> client_address t = example_peer"
proof -
  obtain so where so: "session_options_init (take (nat (bytes_recvd (request_args download)) - 2)
         (drop 2 (buffer (request_args download)))) = Some (True, so, TFTP_MODE_OCTET, None)"
    "options_str so = None" "\<not> valid_options_required so" "cstr_at (options_storage so) 0 = Some ''f''"
    using download_options by blast
  obtain t where t: "session_step 0 (C_Result 0) download = Some (TFTP_SESSION_STATE_IDLE, t)"
    "read_started (contents small_file) t" "client_address t = peer_addr (request_args download)"
    using plain_read_request_starts [OF download_fields(1-8) so download_fields(9,10)]
    by (elim exE conjE) (rule that)
  have "peer_addr (request_args download) = example_peer" unfolding download_request example_request_def by simp
  then show ?thesis using t unfolding download_fields(13) by (intro exI [of _ t] conjI) simp_all
qed

lemma read_runs:
  "reachable_from
      (\<lambda>s. read_opened f s \<and> (unat (window_size s) dvd 65536
         \<or> length f div unat (block_size s) + 1 + unat (window_size s) \<le> 65536))
      (\<lambda>s t. \<exists>i c. admissible i c s \<and> fair_step i c s
         \<and> session_step i c s = Some (TFTP_SESSION_STATE_IDLE, t)) s
   \<longleftrightarrow> reachable_from (read_started f) read_running s"
proof -
  have "read_started f = (\<lambda>s. read_opened f s \<and> (unat (window_size s) dvd 65536
      \<or> length f div unat (block_size s) + 1 + unat (window_size s) \<le> 65536))"
    by (intro ext) (simp add: read_started_opened ring_suffices_def)
  moreover have "read_running = (\<lambda>s t. \<exists>i c. admissible i c s \<and> fair_step i c s
      \<and> session_step i c s = Some (TFTP_SESSION_STATE_IDLE, t))"
    by (intro ext) (simp add: read_running_def)
  ultimately show ?thesis by simp
qed

text \<open>
  C32: What a read session sends.  In every state of every run of a read in octet mode that satisfies two
  conditions there is a number \<open>k\<close>, at most the number of blocks of the file, such that each DATA packet the
  session has sent, for the first time or again, is block \<open>j + 1\<close> (modulo \<open>2^16\<close>) with chunk \<open>j\<close> of the
  file for some \<open>j < k\<close>, and all \<open>k\<close> of these have been sent.  The conditions: the window size divides 65536
  or the blocks of the file and one window have different numbers (otherwise two blocks of a window that crosses
  the wrap may share a slot, and the wrong one is sent again); and an acknowledgement that arrives when nothing
  is outstanding is a repetition of the last one (\<open>fair_step\<close>).  Datagrams may be lost, duplicated and
  reordered, reads may be short, timers may fire at any time.
\<close>

theorem read_sends_the_file:
  assumes "reachable_from
      (\<lambda>s. read_opened f s \<and> (unat (window_size s) dvd 65536
         \<or> length f div unat (block_size s) + 1 + unat (window_size s) \<le> 65536))
      (\<lambda>s t. \<exists>i c. admissible i c s \<and> fair_step i c s
         \<and> session_step i c s = Some (TFTP_SESSION_STATE_IDLE, t)) s"
  shows "\<exists>k \<le> length f div unat (block_size s) + 1.
    (\<forall>x \<in> set (out s). is_data_packet (snd x) \<longrightarrow> (\<exists>j<k. snd x = data_datagram f (unat (block_size s)) j))
    \<and> (\<forall>j<k. data_datagram f (unat (block_size s)) j \<in> snd ` set (out s))"
  using session_sends_blocks [OF assms [unfolded read_runs]] unfolding sends_file_def all_sent_def .

theorem read_sends_the_file_witness:
  "\<exists>(u :: session) k. k \<le> Suc 0 \<and> out u = [(example_peer, tftp_data_packet_init 1 @ ''hello'')]
     \<and> (\<forall>j<k. data_datagram ''hello'' 512 j \<in> snd ` set (out u))"
proof -
  obtain u where r: "reachable_from (read_started ''hello'') read_running u" and b: "block_size u = 512"
    and o': "out u = [(example_peer, tftp_data_packet_init 1 @ ''hello'')]"
    by (rule download_run) simp
  obtain k where "k \<le> length ''hello'' div unat (512 :: u16) + 1"
    "\<forall>j<k. data_datagram ''hello'' (unat (512 :: u16)) j \<in> snd ` set (out u)"
    using read_sends_the_file [OF r [folded read_runs]] unfolding b by (elim exE conjE) (rule that)
  then show ?thesis using o' by (intro exI [of _ u] exI [of _ k] conjI) simp_all
qed

text \<open>
  C33: A read session closes on an acknowledgement only when the transfer is complete: the block
  acknowledged is the last one of the file, and every block has been sent.  The conditions are that the
  window size divides 65536 or the blocks and one window have different numbers (\<open>ring_suffices\<close>), and that an
  acknowledgement that arrives when nothing is outstanding repeats the last one (\<open>fair_step\<close>).
\<close>

theorem read_closes_when_complete:
  assumes "reachable_from (read_started f) read_running s" and "\<not> should_close s"
    and "on_ack block s = (Ret_True, t)" and "should_close t"
  shows "block = word_of_nat (length f div unat (block_size s) + 1)
    \<and> (\<forall>j \<le> length f div unat (block_size s).
         data_datagram f (unat (block_size s)) j \<in> snd ` set (out s))"
proof -
  obtain k a where c: "read_core f k a s"
    using read_inv_reachable [OF assms(1)] unfolding read_inv_def by blast
  have l: "last_packet s \<noteq> - 1" "uint block = last_packet s"
    using on_ack_closes [OF assms(3,2,4)] by simp_all
  then have s: "sent_all f k s" using c by (simp add: read_core_def)
  then have "block = word_of_nat k" using l by (simp add: sent_all_def word_uint_eq_iff)
  moreover have "k = length f div unat (block_size s) + 1" using s by (simp add: sent_all_def)
  moreover have "all_sent f (unat (block_size s)) k (out s)" using c by (simp add: read_core_def)
  ultimately show ?thesis by (auto simp: all_sent_def)
qed

theorem read_closes_when_complete_witness:
  "\<exists>u :: session. data_datagram ''hello'' 512 0 \<in> snd ` set (out u)"
proof -
  obtain u v where r: "reachable_from (read_started ''hello'') read_running u" "\<not> should_close u"
    "on_ack 1 u = (Ret_True, v)" "should_close v" and b: "block_size u = 512"
    by (rule download_run) simp
  show ?thesis
    by (rule exI [of _ u]) (use read_closes_when_complete [OF r, THEN conjunct2, rule_format, of 0] b in simp)
qed

end
