(* ===== verification/Tftp_Read_Timer.thy ===== *)
theory Tftp_Read_Timer
  imports Tftp_Read_Start
begin

text \<open>
  The timer of a read session: not the flag \<open>is_timer_active\<close>, but the timeouts among the requests in
  flight and the requests to remove them.  While the flag is set, a timeout is in flight that nothing has
  asked to remove since it was submitted, so a session that is not closing is always woken up again.
\<close>

section \<open>Positions in a list of requests\<close>

text \<open>How many elements there are up to and including the last one with \<open>P\<close>.\<close>

definition last_position :: "('a \<Rightarrow> bool) \<Rightarrow> 'a list \<Rightarrow> nat" where
  "last_position P xs = length (dropWhile (\<lambda>x. \<not> P x) (rev xs))"

lemma last_position_le: "last_position P xs \<le> n \<longleftrightarrow> (\<forall>j < length xs. P (xs ! j) \<longrightarrow> j < n)"
proof (induction xs rule: rev_induct)
  case (snoc x xs)
  show ?case
  proof (cases "P x")
    case True
    then have "last_position P (xs @ [x]) = Suc (length xs)" by (simp add: last_position_def)
    with True show ?thesis by (auto simp: nth_append less_Suc_eq)
  next
    case False
    then have "last_position P (xs @ [x]) = last_position P xs" by (simp add: last_position_def)
    with False snoc show ?thesis by (auto simp: nth_append less_Suc_eq)
  qed
qed (simp add: last_position_def)

lemma nth_deleted:
  "i < length xs \<Longrightarrow> j < length xs - 1 \<Longrightarrow> (take i xs @ drop (Suc i) xs) ! j = xs ! (if j < i then j else Suc j)"
  by (simp add: nth_append)

lemma nth_behind: "\<not> q < length xs \<Longrightarrow> q < length (xs @ ys) \<Longrightarrow> (xs @ ys) ! q \<in> set ys"
  by (simp add: nth_append)

lemma last_position_append:
  assumes "\<forall>j < length xs. P (xs ! j) \<longrightarrow> j < m" and "\<forall>y \<in> set ys. \<not> P y"
  shows "last_position P (xs @ ys) \<le> m"
  unfolding last_position_le
proof (intro allI impI)
  fix q assume q: "q < length (xs @ ys)" "P ((xs @ ys) ! q)"
  then have "q < length xs" using nth_behind [OF _ q(1)] assms(2) by blast
  then show "q < m" using q(2) assms(1) by (metis nth_append_left)
qed

text \<open>How a mark in front of which something holds moves when an element is deleted.\<close>

definition mark_after :: "nat \<Rightarrow> nat \<Rightarrow> nat" where
  "mark_after i m = (if i < m then m - 1 else m)"

lemma deleted_before:
  assumes "i < length xs" and "\<forall>j < length xs. P (xs ! j) \<longrightarrow> j < m"
  shows "\<forall>j < length xs - 1. P ((take i xs @ drop (Suc i) xs) ! j) \<longrightarrow> j < mark_after i m"
proof (intro allI impI)
  fix j assume j: "j < length xs - 1" and P: "P ((take i xs @ drop (Suc i) xs) ! j)"
  have "Suc j < length xs" using j by linarith
  then have lt: "(if j < i then j else Suc j) < length xs" by simp
  have "P (xs ! (if j < i then j else Suc j))" using P unfolding nth_deleted [OF assms(1) j] .
  then have "(if j < i then j else Suc j) < m" using assms(2) lt by blast
  then show "j < mark_after i m" by (cases "j < i") (auto simp: mark_after_def)
qed

lemma deleted_keeps:
  assumes "i < length xs" and "j < length xs" and "j \<noteq> i" and "m \<le> j"
  obtains j' where "mark_after i m \<le> j'" and "j' < length xs - 1" and "(take i xs @ drop (Suc i) xs) ! j' = xs ! j"
proof (rule that)
  let ?j = "if i < j then j - 1 else j"
  show "mark_after i m \<le> ?j" "?j < length xs - 1" using assms by (auto simp: mark_after_def)
  show "(take i xs @ drop (Suc i) xs) ! ?j = xs ! j"
    using assms by (subst nth_deleted) auto
qed

text \<open>Where the flag comes from.\<close>

lemma timer_after_cases:
  "timer_after sid xs b \<Longrightarrow>
   (\<exists>ys x zs. xs = ys @ x # zs \<and> fst x = Some (event_id sid EVENT_TIMEOUT)
      \<and> (\<forall>z \<in> set zs. fst z \<noteq> Some (event_id sid EVENT_TIMEOUT_REMOVED)))
   \<or> (b \<and> (\<forall>z \<in> set xs. fst z \<noteq> Some (event_id sid EVENT_TIMEOUT_REMOVED)))"
proof (induction xs rule: rev_induct)
  case (snoc x xs)
  then show ?case
  proof (cases "fst x = Some (event_id sid EVENT_TIMEOUT)")
    case True
    then show ?thesis by (intro disjI1 exI [of _ xs] exI [of _ x] exI [of _ "[]"]) simp
  next
    case False
    then have nr: "fst x \<noteq> Some (event_id sid EVENT_TIMEOUT_REMOVED)" and t: "timer_after sid xs b"
      using snoc.prems by simp_all
    from snoc.IH [OF t] show ?thesis
    proof
      assume "\<exists>ys y zs. xs = ys @ y # zs \<and> fst y = Some (event_id sid EVENT_TIMEOUT)
        \<and> (\<forall>z \<in> set zs. fst z \<noteq> Some (event_id sid EVENT_TIMEOUT_REMOVED))"
      then obtain ys y zs where "xs = ys @ y # zs" "fst y = Some (event_id sid EVENT_TIMEOUT)"
        "\<forall>z \<in> set zs. fst z \<noteq> Some (event_id sid EVENT_TIMEOUT_REMOVED)" by blast
      then show ?thesis using nr by (intro disjI1 exI [of _ ys] exI [of _ y] exI [of _ "zs @ [x]"]) auto
    qed (use nr in auto)
  qed
qed simp

section \<open>Timeouts that nothing has cancelled\<close>

text \<open>
  A session together with a mark in its requests: a request in front of the mark was in flight when the
  session last asked for the removal of its timeout.  The mark is a history variable of the proof.
\<close>

definition is_timeout :: "session \<Rightarrow> u64 option \<times> request \<Rightarrow> bool" where
  "is_timeout s x \<longleftrightarrow> fst x = Some (event_id (session_id s) EVENT_TIMEOUT)"

definition is_removal :: "session \<Rightarrow> u64 option \<times> request \<Rightarrow> bool" where
  "is_removal s x \<longleftrightarrow> fst x = Some (event_id (session_id s) EVENT_TIMEOUT_REMOVED)"

definition removals_to :: "session \<Rightarrow> nat" where
  "removals_to s = last_position (is_removal s) (ring (dispatcher s))"

text \<open>
  The kernel: a timeout ends with \<open>ECANCELED\<close> only if its removal was asked for after it was submitted, and
  never with \<open>ENOENT\<close>.
\<close>

definition keeps_time :: "nat \<Rightarrow> completion \<Rightarrow> session \<times> nat \<Rightarrow> bool" where
  "keeps_time i c x \<longleftrightarrow> (is_timeout (fst x) (ring (dispatcher (fst x)) ! i) \<longrightarrow>
     c \<noteq> C_Result (- ENOENT) \<and> (c = C_Result (- ECANCELED) \<longrightarrow> i < snd x))"

definition timed_running :: "session \<times> nat \<Rightarrow> session \<times> nat \<Rightarrow> bool" where
  "timed_running x y \<longleftrightarrow> (\<exists>i c. admissible i c (fst x) \<and> fair_step i c (fst x) \<and> keeps_time i c x
     \<and> session_step i c (fst x) = Some (TFTP_SESSION_STATE_IDLE, fst y)
     \<and> snd y = max (mark_after i (snd x)) (removals_to (fst y)))"

definition timer_runs :: "session \<times> nat \<Rightarrow> bool" where
  "timer_runs x \<longleftrightarrow> (\<exists>j. snd x \<le> j \<and> j < length (ring (dispatcher (fst x)))
     \<and> is_timeout (fst x) (ring (dispatcher (fst x)) ! j))"

definition timer_inv :: "session \<times> nat \<Rightarrow> bool" where
  "timer_inv x \<longleftrightarrow> snd x \<le> length (ring (dispatcher (fst x))) \<and> removals_to (fst x) \<le> snd x
     \<and> (is_timer_active (fst x) \<longrightarrow> should_close (fst x) \<or> timer_runs x)"

text \<open>A timeout that expires is followed by another one, or the session gives up.\<close>

lemma timeout_restarts:
  assumes "on_timeout s = (Ret_True, t)"
  shows "should_close t
    \<or> in_flight (event_id (session_id s) EVENT_TIMEOUT) (dispatcher s)
        < in_flight (event_id (session_id s) EVENT_TIMEOUT) (dispatcher t)"
proof (cases "retries s \<le> current_retransmission s")
  case True
  have "keeps should_close recv_async_cancel" unfolding recv_async_cancel_def by (auto simp: submit_frame)
  moreover have "keeps should_close set_max_retransmissions_error"
    using keeps_close_basic(2) unfolding set_max_retransmissions_error_def
    by (intro keeps_chain) (auto simp: keeps_def assign_def set_error_def)
  moreover have "keeps should_close error_packet_init"
  proof
    fix s :: session assume sc: "should_close s"
    have k: "keeps should_close (chain [malloc_or_fail, assign (\<lambda>s. s\<lparr>error_packet_bytes :=
              Some (error_packet (error_number (stats s)) (error_message (stats s)))\<rparr>)])"
      using keeps_close_basic(2) by (intro keeps_chain) (auto simp: keeps_def assign_def)
    show "should_close (snd (error_packet_init s))"
      using keepsD [OF k, of "s\<lparr>error_packet_bytes := None\<rparr>"] sc
      unfolding error_packet_init_def by (simp del: chain.simps)
  qed
  moreover have "keeps should_close (send_error_packet d)" for d
    using keeps_close_basic(1) by (auto simp: keeps_def send_error_packet_def split: option.splits)
  ultimately have k: "keeps should_close (chain [recv_async_cancel, set_max_retransmissions_error, error_packet_init,
      send_error_packet (client_address s)])" by (intro keeps_chain) auto
  have "chain [recv_async_cancel, set_max_retransmissions_error, error_packet_init,
      send_error_packet (client_address s)] (s\<lparr>should_close := True\<rparr>) = (Ret_True, t)"
    using assms True by (simp add: on_timeout_def del: chain.simps)
  then have "should_close t" using keepsD [OF k, of "s\<lparr>should_close := True\<rparr>"] by (simp del: chain.simps)
  then show ?thesis ..
next
  case False
  let ?g = "\<lambda>s. if valid_options_required (opts s) \<and> \<not> options_acknowledged (opts s)
                   then send_oack_packet s
                   else if request_type s = SESSION_WRITE_REQUEST
                   then send_or_fail (client_address s)
                          (tftp_ack_packet_init (expected_sequence_number s - 1)) s
                   else retransmit_window s"
  let ?s = "s\<lparr>current_retransmission := current_retransmission s + 1, total_retransmissions := total_retransmissions s + 1\<rparr>"
  have "chain [assign backoff, submit_timeout, ?g] ?s = (Ret_True, t)"
    using assms False by (simp add: on_timeout_def del: chain.simps)
  then obtain b y where b: "b = backoff ?s" and y: "submit_timeout b = (Ret_True, y)" and g: "?g y = (Ret_True, t)"
    by (elim chain_TrueE) (auto simp: assign_def)
  have sb: "session_id b = session_id s" "dispatcher b = dispatcher s" by (simp_all add: b backoff_def Let_def)
  let ?i = "event_id (session_id b) EVENT_TIMEOUT"
  obtain z where z: "submit (\<lambda>ok. dispatcher_submit_timeout ok (ev EVENT_TIMEOUT b) (event_timeout b)) b = (Ret_True, z)"
    and yz: "y = z\<lparr>is_timer_active := True\<rparr>"
    using y unfolding submit_timeout_def by (elim chain_TrueE) (auto simp: assign_def)
  have "in_flight ?i (dispatcher y) = in_flight ?i (dispatcher b) + 1"
    using in_flight_submit_op [OF z, of ?i _ ?i] by (simp add: yz dispatcher_submit_defs ev_def)
  moreover have "submits {} ?g"
    using submits_state [of "{}" "\<lambda>s. send_or_fail (client_address s)
                          (tftp_ack_packet_init (expected_sequence_number s - 1))", OF submits_send_or_fail]
    by (auto intro!: submits_intros submits_if)
  then have "appended {} y t" using g by (rule submitsD)
  then have "in_flight (event_id (session_id y) EVENT_TIMEOUT) (dispatcher t)
      = in_flight (event_id (session_id y) EVENT_TIMEOUT) (dispatcher y)" by (rule appended_counts(2)) simp
  moreover have "session_id y = session_id b"
    using appended_session_id [OF submitsD [OF submits_timeout [of "{EVENT_TIMEOUT}"] y]] by simp
  ultimately show ?thesis using sb by simp
qed

lemma timeout_completes:
  assumes "complete req c s = Some (res, s1)" and "request_fits EVENT_TIMEOUT req"
  shows "c = C_Result res \<and> res < 0 \<and> s1 = s"
  using assms by (cases "(req, c, s)" rule: complete.cases) (auto split: if_splits)

text \<open>One event: what it adds to the requests restarts the timer or leaves an uncancelled timeout alone.\<close>

lemma timer_step:
  assumes inv: "timer_inv (s, m)" and jobs: "jobs_inv s" and ns: "no_start s" and k: "keeps_time i c (s, m)"
    and step: "session_step i c s = Some (TFTP_SESSION_STATE_IDLE, t)"
  shows "timer_inv (t, max (mark_after i m) (removals_to t))"
proof -
  let ?r = "ring (dispatcher s)" and ?T = "event_id (session_id s) EVENT_TIMEOUT"
  obtain ev' req res s1 e d v w where
    rng: "?r ! i = (Some (event_id (session_id s) ev'), req)" "i < length ?r"
    and fits: "request_fits ev' req" and c: "complete req c s = Some (res, s1)"
    and sj: "same_jobs s s1" "should_close s1 = should_close s"
    and e: "is_success e = (0 \<le> res)" "res < 0 \<Longrightarrow> ev_result e = - res"
    and d: "d = snd (dispatcher_wait_event i res (dispatcher s1))"
    and v: "dispatch_event ev' e (s1\<lparr>dispatcher := d\<rparr>) = (Ret_True, v)" and w: "fetch_data v = (Ret_True, w)"
    and stt: "(TFTP_SESSION_STATE_IDLE, t) = (if should_close w \<and> pending_jobs w = 0
                then (TFTP_SESSION_STATE_CLOSED, close_session w) else (TFTP_SESSION_STATE_IDLE, w))"
    by (rule step_inverts [OF jobs step]) auto
  have tw: "t = w" using stt by (simp split: if_splits)
  let ?x = "take i ?r @ drop (Suc i) ?r" and ?u = "s1\<lparr>dispatcher := d\<rparr>"
  have x: "ring d = ?x" using d sj by (simp add: dispatcher_wait_event_def same_jobs_def)
  obtain n1 where n1: "ring (dispatcher v) = ?x @ n1" "session_id v = session_id s"
    "is_timer_active v = timer_after (session_id s) n1 (is_timer_active s)"
    using dispatch_event_appended [of ev' ?u e] v sj unfolding appended_def
    by (auto simp: event_taken_def pending_jobs_dec_def same_jobs_def x split: if_splits)
  obtain n2 where n2: "ring (dispatcher w) = ?x @ n1 @ n2" "session_id w = session_id s"
    "is_timer_active w = timer_after (session_id s) (n1 @ n2) (is_timer_active s)"
    using fetch_data_appended [of v] w n1 unfolding appended_def by auto
  let ?N = "n1 @ n2" and ?m = "max (mark_after i m) (removals_to w)"
  have rt: "is_removal w = is_removal s" "is_timeout w = is_timeout s"
    using n2(2) by (auto simp: is_removal_def is_timeout_def)
  have m: "mark_after i m \<le> length ?x" using inv rng(2) by (auto simp: timer_inv_def mark_after_def)
  have old: "\<forall>j < length ?r. is_removal s (?r ! j) \<longrightarrow> j < m"
    using inv by (simp add: timer_inv_def removals_to_def last_position_le)
  have before: "\<forall>j < length ?x. is_removal s (?x ! j) \<longrightarrow> j < mark_after i m"
    using deleted_before [OF rng(2) old] rng(2) by simp
  have rw: "removals_to w \<le> length (ring (dispatcher w))" unfolding removals_to_def last_position_le by blast
  have new: "timer_runs (w, ?m)"
    if N: "?N = ys @ z # zs" and z: "fst z = Some ?T"
      and zs: "\<forall>y \<in> set zs. fst y \<noteq> Some (event_id (session_id s) EVENT_TIMEOUT_REMOVED)" for ys z zs
  proof -
    let ?j = "length (?x @ ys)"
    have r: "ring (dispatcher w) = (?x @ ys) @ z # zs" using n2(1) N by simp
    have "removals_to w \<le> ?j"
      unfolding removals_to_def r rt
      by (rule last_position_append) (use z zs in \<open>auto simp: is_removal_def event_id_inject\<close>)
    moreover have "mark_after i m \<le> ?j" using m by simp
    moreover have "ring (dispatcher w) ! ?j = z" unfolding r by (rule nth_append_length)
    moreover have "?j < length (ring (dispatcher w))" unfolding r by simp
    ultimately show ?thesis
      unfolding timer_runs_def using z by (intro exI [of _ ?j]) (simp add: is_timeout_def n2(2))
  qed
  have "timer_runs (w, ?m)" if act: "is_timer_active w" and sc: "\<not> should_close w"
  proof -
    have scv: "\<not> should_close v" using fetch_frame [OF w] sc by simp
    from timer_after_cases [OF act [unfolded n2(3)]] show ?thesis
    proof
      assume "\<exists>ys z zs. ?N = ys @ z # zs \<and> fst z = Some ?T
        \<and> (\<forall>y \<in> set zs. fst y \<noteq> Some (event_id (session_id s) EVENT_TIMEOUT_REMOVED))"
      then show ?thesis using new by blast
    next
      assume A: "is_timer_active s \<and> (\<forall>z \<in> set ?N. fst z \<noteq> Some (event_id (session_id s) EVENT_TIMEOUT_REMOVED))"
      have "ev' \<noteq> EVENT_START"
        using ns rng nth_mem [OF rng(2)] by (auto simp: no_start_def in_flight_zero_iff)
      then have scs: "\<not> should_close s"
        using dispatch_keeps_close [of ev' ?u e] v sj(2) scv by auto
      then obtain j where j: "m \<le> j" "j < length ?r" "is_timeout s (?r ! j)"
        using inv A unfolding timer_inv_def timer_runs_def by auto
      show ?thesis
      proof (cases "j = i")
        case False
        obtain j' where j': "mark_after i m \<le> j'" "j' < length ?r - 1" "?x ! j' = ?r ! j"
          using deleted_keeps [OF rng(2) j(2) False j(1)] by blast
        have lx: "length ?x = length ?r - 1" using rng(2) by simp
        have rm: "removals_to w \<le> mark_after i m"
          unfolding removals_to_def n2(1) rt
          by (rule last_position_append [OF before]) (use A in \<open>auto simp: is_removal_def\<close>)
        have at: "(?x @ n1 @ n2) ! j' = ?r ! j" using j' lx by (metis nth_append_left)
        show ?thesis
          unfolding timer_runs_def fst_conv snd_conv n2(1) rt
        proof (intro exI conjI)
          show "?m \<le> j'" using rm j'(1) by simp
          show "j' < length (?x @ n1 @ n2)" using j'(2) lx by simp
          show "is_timeout s ((?x @ n1 @ n2) ! j')" unfolding at by (rule j(3))
        qed
      next
        case True
        have ev': "ev' = EVENT_TIMEOUT" using j(3) rng(1) True by (simp add: is_timeout_def event_id_inject)
        have cc: "c = C_Result res" "res < 0" "s1 = s" using timeout_completes [OF c] fits ev' by simp_all
        have "res \<noteq> - ENOENT" "res \<noteq> - ECANCELED"
          using k j(1,3) True cc(1) by (auto simp: keeps_time_def)
        then have on: "on_timeout (pending_jobs_dec ?u) = (Ret_True, v)"
          using v e cc scs A unfolding ev' by (auto simp: Let_def pending_jobs_dec_def)
        have "in_flight ?T (dispatcher v) > in_flight ?T d"
          using timeout_restarts [OF on] scv cc(3) by (simp add: pending_jobs_dec_def)
        then have "in_flight ?T (dispatcher v) \<noteq> in_flight ?T d" by simp
        then have "filter (\<lambda>x. fst x = Some ?T) n1 \<noteq> []"
          unfolding in_flight_def n1(1) x by (metis append_Nil2 filter_append)
        then obtain z where "z \<in> set n1" "fst z = Some ?T" by (auto simp: filter_empty_conv)
        then obtain ys zs where "n1 = ys @ z # zs" by (meson split_list)
        then show ?thesis using new [of ys z "zs @ n2"] A \<open>fst z = Some ?T\<close> by auto
      qed
    qed
  qed
  then show ?thesis using m rw unfolding tw timer_inv_def by (auto simp: n2(1))
qed

section \<open>Runs\<close>

lemma started_timer:
  assumes "read_started f s"
  shows "timer_inv (s, 0)"
proof -
  obtain s0 i c where j: "just_started s0" and adm: "admissible i c s0"
    and step: "session_step i c s0 = Some (TFTP_SESSION_STATE_IDLE, s)"
    using assms unfolding read_started_def by blast
  obtain d v where h: "handle_start (s0\<lparr>dispatcher := d\<rparr>) = (Ret_True, v)" and w: "fetch_data v = (Ret_True, s)"
    and z: "in_flight_of (session_id s0) d = 0"
    by (rule first_step [OF j adm step])
  let ?u = "s0\<lparr>dispatcher := d\<rparr>" and ?P = "\<lambda>e. in_flight (event_id (session_id s0) e)"
  have a: "appended {EVENT_TIMEOUT, EVENT_PACKET_RECEIVED} ?u v"
    by (rule submitsD [OF submits_handle_start h]) simp_all
  have b: "appended {EVENT_DATA_AVAILABLE} (v\<lparr>is_fetching_data := is_fetching_data v \<or> should_fetch_data v\<rparr>) s"
    using fetch_data_appended [of v] w by simp
  have id: "session_id v = session_id s0" "session_id s = session_id s0"
    using appended_session_id [OF a] appended_session_id [OF b] by simp_all
  have "?P EVENT_TIMEOUT_REMOVED (dispatcher s) = 0"
    using appended_counts(2) [OF a, of EVENT_TIMEOUT_REMOVED] appended_counts(2) [OF b, of EVENT_TIMEOUT_REMOVED]
      in_flight_of_zero [OF z] id by simp
  then have rem: "removals_to s \<le> 0"
    unfolding removals_to_def last_position_le is_removal_def id by (auto simp: in_flight_zero_iff)
  have "timer_runs (s, 0)" if "is_timer_active s"
  proof -
    obtain n1 where n1: "ring (dispatcher v) = ring d @ n1"
      "is_timer_active v = timer_after (session_id s0) n1 (is_timer_active s0)"
      using a unfolding appended_def by auto
    obtain n2 where n2: "ring (dispatcher s) = ring (dispatcher v) @ n2"
      "is_timer_active s = timer_after (session_id s0) n2 (is_timer_active v)"
      using b id unfolding appended_def by auto
    have "timer_after (session_id s0) (n1 @ n2) False"
      using that n1 n2 just_started_fields(5) [OF j] by simp
    from timer_after_cases [OF this]
    obtain y where y: "y \<in> set (n1 @ n2)" "fst y = Some (event_id (session_id s0) EVENT_TIMEOUT)"
      by (elim disjE exE conjE) auto
    then have "y \<in> set (ring (dispatcher s))" unfolding n1 n2 by auto
    then obtain q where "q < length (ring (dispatcher s))" "ring (dispatcher s) ! q = y"
      by (auto simp: in_set_conv_nth)
    then show ?thesis using y(2) by (auto simp: timer_runs_def is_timeout_def id)
  qed
  then show ?thesis using rem by (simp add: timer_inv_def)
qed

interpretation timed_read: invariant_machine "\<lambda>x. read_started f (fst x) \<and> snd x = 0" timed_running
    "\<lambda>x. (jobs_inv (fst x) \<and> read_inv f (fst x)) \<and> timer_inv x"
proof unfold_locales
  fix x :: "session \<times> nat" assume x: "read_started f (fst x) \<and> snd x = 0"
  then obtain s where "x = (s, 0)" "read_started f s" by (cases x) simp
  then show "(jobs_inv (fst x) \<and> read_inv f (fst x)) \<and> timer_inv x"
    using started_timer read_started_inv by simp
next
  fix x y :: "session \<times> nat"
  assume inv: "(jobs_inv (fst x) \<and> read_inv f (fst x)) \<and> timer_inv x" and "timed_running x y"
  then obtain i c where r: "admissible i c (fst x)" "fair_step i c (fst x)" "keeps_time i c x"
    "session_step i c (fst x) = Some (TFTP_SESSION_STATE_IDLE, fst y)"
    and y: "snd y = max (mark_after i (snd x)) (removals_to (fst y))"
    unfolding timed_running_def by blast
  have "read_running (fst x) (fst y)" using r unfolding read_running_def by blast
  then have "jobs_inv (fst y) \<and> read_inv f (fst y)" by (rule read_transfer.inv_step [OF conjunct1 [OF inv]])
  moreover have "timer_inv (fst y, snd y)"
    unfolding y by (rule timer_step [OF _ _ _ _ r(4)]) (use inv r(3) in \<open>simp_all add: read_inv_def\<close>)
  ultimately show "(jobs_inv (fst y) \<and> read_inv f (fst y)) \<and> timer_inv y" by simp
qed

text \<open>What the properties of such a session say when it is not closing.\<close>

lemma read_waits:
  assumes jobs: "jobs_inv s" and inv: "read_inv f s" and tm: "timer_inv (s, m)" and sc: "\<not> should_close s"
  shows "(is_fetching_data s \<and> in_flight (event_id (session_id s) EVENT_DATA_AVAILABLE) (dispatcher s) = 1
      \<or> is_timer_active s \<and> (\<exists>j ts. m \<le> j \<and> j < length (ring (dispatcher s))
          \<and> ring (dispatcher s) ! j = (Some (event_id (session_id s) EVENT_TIMEOUT), Req_Timeout ts)))
    \<and> (awaiting_options_ack s \<or> \<not> is_timer_active s \<or> (\<exists>r. retransmit (window_begin s) s = Some r))"
proof -
  obtain k a where c: "read_core f k a s" and n: "no_read_due f k a s" and t: "timer_ok k a s"
    using inv sc unfolding read_inv_def by blast
  have ws: "0 < unat (window_size s)" using c by (simp add: read_core_def ring_ready_def unat_gt_0)
  have w: "is_fetching_data s \<or> is_timer_active s"
    using n t sc ws unfolding no_read_due_def timer_ok_def by (auto split: if_splits)
  have d: "in_flight (event_id (session_id s) EVENT_DATA_AVAILABLE) (dispatcher s) = 1" if "is_fetching_data s"
    using jobs that by (simp add: jobs_inv_def Let_def)
  have tr: "\<exists>j ts. m \<le> j \<and> j < length (ring (dispatcher s))
      \<and> ring (dispatcher s) ! j = (Some (event_id (session_id s) EVENT_TIMEOUT), Req_Timeout ts)" if act: "is_timer_active s"
  proof -
    obtain j where j: "m \<le> j" "j < length (ring (dispatcher s))"
      "fst (ring (dispatcher s) ! j) = Some (event_id (session_id s) EVENT_TIMEOUT)"
      using tm act sc unfolding timer_inv_def timer_runs_def is_timeout_def by auto
    have "request_fits EVENT_TIMEOUT (snd (ring (dispatcher s) ! j))"
      using jobs j nth_mem [OF j(2)] unfolding jobs_inv_def well_tagged_def Let_def
      by (metis event_id_inject event_session_id)
    then obtain ts where "snd (ring (dispatcher s) ! j) = Req_Timeout ts"
      by (cases "snd (ring (dispatcher s) ! j)") simp_all
    then show ?thesis using j by (intro exI [of _ j] exI [of _ ts]) (simp add: prod_eq_iff)
  qed
  have "\<exists>r. retransmit (window_begin s) s = Some r" if "\<not> awaiting_options_ack s" "is_timer_active s"
  proof -
    have "a < k" using t that by (simp add: timer_ok_def)
    then have "next_data_packet_to_send s \<noteq> window_begin s" using core_empty_window [OF c] by auto
    from retransmit_returns_from [OF this, of 0] show ?thesis by simp
  qed
  with w d tr show ?thesis by blast
qed

lemma timed_reads:
  assumes "reachable_from
      (\<lambda>x. read_opened f (fst x) \<and> snd x = 0 \<and> (unat (window_size (fst x)) dvd 65536
         \<or> length f div unat (block_size (fst x)) + 1 + unat (window_size (fst x)) \<le> 65536))
      timed_running x"
  shows "(jobs_inv (fst x) \<and> read_inv f (fst x)) \<and> timer_inv x"
proof (rule timed_read.reachable_inv)
  have "(\<lambda>x. read_opened f (fst x) \<and> snd x = 0 \<and> (unat (window_size (fst x)) dvd 65536
         \<or> length f div unat (block_size (fst x)) + 1 + unat (window_size (fst x)) \<le> 65536))
      = (\<lambda>x. read_started f (fst x) \<and> snd x = (0::nat))"
    by (intro ext) (auto simp: read_started_opened ring_suffices_def)
  then show "reachable_from (\<lambda>x. read_started f (fst x) \<and> snd x = 0) timed_running x" using assms by simp
qed

section \<open>Read sessions do not get stuck\<close>

text \<open>
  C34: A read session never gets stuck.  As long as it does not close, a read of the file is in flight, or a
  timeout is in flight whose removal the session has not asked for since it submitted it (besides the next
  datagram); and when it expires, packets are outstanding or the options are, so that the loop that sends them
  again ends.  As for all read sessions there are two conditions: the window size divides 65536 or the blocks
  and one window have different numbers, and an acknowledgement that arrives when nothing is outstanding
  repeats the last one.  About the kernel it is assumed that a timeout ends with \<open>ECANCELED\<close> only if its
  removal was asked for (the mark \<open>m\<close> counts the requests in flight that are older than the last removal), and
  never with \<open>ENOENT\<close>.
\<close>

theorem read_never_stuck:
  assumes "reachable_from
      (\<lambda>x. read_opened f (fst x) \<and> snd x = 0 \<and> (unat (window_size (fst x)) dvd 65536
         \<or> length f div unat (block_size (fst x)) + 1 + unat (window_size (fst x)) \<le> 65536))
      timed_running (s, m)"
    and "\<not> should_close s"
  shows "(is_fetching_data s \<and> in_flight (event_id (session_id s) EVENT_DATA_AVAILABLE) (dispatcher s) = 1
      \<or> is_timer_active s \<and> (\<exists>j ts. m \<le> j \<and> j < length (ring (dispatcher s))
          \<and> ring (dispatcher s) ! j = (Some (event_id (session_id s) EVENT_TIMEOUT), Req_Timeout ts)))
    \<and> (awaiting_options_ack s \<or> \<not> is_timer_active s \<or> (\<exists>r. retransmit (window_begin s) s = Some r))"
  using timed_reads [OF assms(1)] read_waits [of s f m] assms(2) by simp

theorem read_never_stuck_witness:
  "\<exists>(u :: session) m. out u = [(example_peer, tftp_data_packet_init 1 @ ''hello'')] \<and> is_timer_active u
     \<and> (is_fetching_data u \<or> (\<exists>j ts. m \<le> j \<and> j < length (ring (dispatcher u))
          \<and> ring (dispatcher u) ! j = (Some (event_id (session_id u) EVENT_TIMEOUT), Req_Timeout ts)))
     \<and> (\<exists>r. retransmit (window_begin u) u = Some r)"
proof -
  obtain t u where t: "read_started ''hello'' t"
    and tu: "session_step (length (ring (dispatcher t)) - 1) (C_Read 512) t = Some (TFTP_SESSION_STATE_IDLE, u)"
    and l: "fst (ring (dispatcher t) ! (length (ring (dispatcher t)) - 1)) = Some (event_id (session_id t) EVENT_DATA_AVAILABLE)"
    and fs: "fair_step (length (ring (dispatcher t)) - 1) (C_Read 512) t"
    and u: "\<not> should_close u" "is_timer_active u" "\<not> awaiting_options_ack u"
    and o': "out u = [(example_peer, tftp_data_packet_init 1 @ ''hello'')]"
    by (rule download_run)
  let ?i = "length (ring (dispatcher t)) - 1"
  let ?m = "max (mark_after ?i 0) (removals_to u)"
  let ?init = "\<lambda>x :: session \<times> nat. read_opened ''hello'' (fst x) \<and> snd x = 0 \<and> (unat (window_size (fst x)) dvd 65536
         \<or> length ''hello'' div unat (block_size (fst x)) + 1 + unat (window_size (fst x)) \<le> 65536)"
  have "?init (t, 0)" using t by (simp add: read_started_opened ring_suffices_def)
  then have r: "reachable_from ?init timed_running (t, 0)" by (rule reach_init [of ?init])
  have "keeps_time ?i (C_Read 512) (t, 0)" by (simp add: keeps_time_def)
  then have "timed_running (t, 0) (u, ?m)"
    unfolding timed_running_def fst_conv snd_conv using tu l fs
    by (intro exI [of _ ?i] exI [of _ "C_Read 512"]) (simp add: admissible_def)
  then have "reachable_from ?init timed_running (u, ?m)" by (rule reach_step [OF r])
  from read_never_stuck [OF this u(1)] show ?thesis
    using u(2,3) o' by (intro exI [of _ u] exI [of _ ?m]) blast
qed

end
