(* ===== verification/Tftp_Session_Write.thy ===== *)
theory Tftp_Session_Write
  imports Tftp_Read_Transfer
begin

text \<open>
  Write requests: what a write session stores and acknowledges.  The invariant \<open>write_core\<close> relates a
  session to the number \<open>k\<close> of blocks it has accepted: the file holds the first \<open>k\<close> chunks, blocks
  1 to \<open>k\<close> have been acknowledged, and no other.  It holds after the start event and is kept by every event,
  for every order of completions.
\<close>

section \<open>Operations that leave the transfer alone\<close>

definition is_ack_packet :: "byte list \<Rightarrow> bool" where
  "is_ack_packet p \<longleftrightarrow> tftp_get_opcode_unsafe p = Some (opcode_value TFTP_OPCODE_ACK)"

lemma not_ack [simp]:
  "\<not> is_ack_packet (error_packet c m)" "oack_packet_bytes so = Some p \<Longrightarrow> \<not> is_ack_packet p"
  by (auto simp: is_ack_packet_def error_packet_def oack_packet_bytes_def)

lemma is_ack [simp]: "is_ack_packet (tftp_ack_packet_init b)"
  by (simp add: is_ack_packet_def tftp_ack_packet_init_def)

text \<open>
  What the transfer depends on.  The last part is about the requests in flight: a receive fills the whole
  receive buffer.
\<close>

definition write_view where
  "write_view s = (request_type s, block_size s, open_file s, expected_sequence_number s, opts s,
     oack_packet s, length (recv_buffer s), should_close s, client_address s, session_id s)"

definition receives_whole :: "session \<Rightarrow> u64 option \<times> request \<Rightarrow> bool" where
  "receives_whole s x \<longleftrightarrow>
     (fst x = Some (event_id (session_id s) EVENT_PACKET_RECEIVED) \<longrightarrow> snd x = Req_Recvmsg (length (recv_buffer s)))"

definition receive_ready :: "session \<Rightarrow> bool" where
  "receive_ready s \<longleftrightarrow> (\<forall>x \<in> set (ring (dispatcher s)). receives_whole s x)"

text \<open>Nothing but the last acknowledgement is sent, and an error stays recorded.\<close>

definition steady :: "session \<Rightarrow> session \<Rightarrow> bool" where
  "steady s t \<longleftrightarrow> write_view t = write_view s
     \<and> (error_occurred (stats s) \<longrightarrow> error_occurred (stats t))
     \<and> (receive_ready s \<longrightarrow> receive_ready t)
     \<and> (\<exists>o'. out t = out s @ o' \<and> (\<forall>x \<in> set o'. is_ack_packet (snd x) \<longrightarrow>
            snd x = tftp_ack_packet_init (expected_sequence_number s - 1)))"

lemma steady_refl: "steady s s"
  by (simp add: steady_def)

lemma view_expected: "write_view t = write_view s \<Longrightarrow> expected_sequence_number t = expected_sequence_number s"
  by (simp add: write_view_def)

lemma steady_trans: "steady s t \<Longrightarrow> steady t u \<Longrightarrow> steady s u"
  unfolding steady_def using view_expected [of t s] by auto

interpretation steadily: op_effect steady
  by unfold_locales (fact steady_refl, fact steady_trans)

named_theorems steady_intros \<open>operations that leave a write transfer alone\<close>

declare steadily.does_chain [steady_intros] steadily.does_assign [steady_intros]
  steadily.does_return [steady_intros]

lemma steady_same:
  "write_view t = write_view s \<Longrightarrow> error_occurred (stats s) \<longrightarrow> error_occurred (stats t) \<Longrightarrow>
   ring (dispatcher t) = ring (dispatcher s) \<Longrightarrow> out t = out s \<Longrightarrow> steady s t"
  by (auto simp: steady_def receive_ready_def receives_whole_def write_view_def)

lemma steady_updates [simp]:
  "steady s (set_error c m s)" "steady s (s\<lparr>error_packet_bytes := y\<rparr>)" "steady s (s\<lparr>sys := z\<rparr>)"
  "steady s (s\<lparr>pending_jobs := n\<rparr>)" "steady s (s\<lparr>is_timer_active := b\<rparr>)" "steady s (pending_jobs_dec s)"
  "steady s (s\<lparr>adaptive := a\<rparr>)" "steady s (s\<lparr>event_timeout := ts\<rparr>)" "steady s (s\<lparr>adaptive := a, event_timeout := ts\<rparr>)"
  "steady s (s\<lparr>current_retransmission := cr, total_retransmissions := tr\<rparr>)"
  by (simp_all add: steady_same write_view_def set_error_def pending_jobs_dec_def)

lemma steady_sys_call: "sys_call n s = (r, t) \<Longrightarrow> steady s t"
  by (auto simp: sys_call_def steady_refl split: list.splits)

lemma steady_clock: "clock_gettime s = (now, t) \<Longrightarrow> steady s t"
  by (auto simp: clock_gettime_def steady_same write_view_def split: list.splits)

lemma steady_send:
  assumes "is_ack_packet p \<longrightarrow> p = tftp_ack_packet_init (expected_sequence_number s - 1)"
  shows "steady s (snd (send_or_fail d p s))"
proof -
  obtain r t where c: "sys_call (int (length p)) s = (r, t)" by fastforce
  have q: "steady s t" by (rule steady_sys_call [OF c])
  then have "expected_sequence_number t = expected_sequence_number s"
    unfolding steady_def using view_expected by blast
  then have "steady t (t\<lparr>out := out t @ [(d, p)]\<rparr>)"
    using assms by (simp add: steady_def write_view_def receive_ready_def receives_whole_def)
  from steady_trans [OF q this] show ?thesis
    using q by (simp add: send_or_fail_def sendto_def c)
qed

lemma steady_send_other [steady_intros]: "\<not> is_ack_packet p \<Longrightarrow> steadily.does (send_or_fail d p)"
  by (rule steadily.doesI) (simp add: steady_send)

lemma steady_malloc [steady_intros]: "steadily.does malloc_or_fail"
  by (rule steadily.doesI) (auto simp: malloc_or_fail_def split: prod.splits dest: steady_sys_call)

lemma steady_submit:
  assumes req: "\<And>ok d. request' ok d = submit_request ok (Some (event_id (session_id s) e)) req d"
    and "e = EVENT_PACKET_RECEIVED \<Longrightarrow> req = Req_Recvmsg (length (recv_buffer s))"
  shows "steady s (snd (submit request' s))"
proof -
  obtain r t where c: "sys_call 0 s = (r, t)" by fastforce
  have q: "steady s t" by (rule steady_sys_call [OF c])
  then have v: "session_id t = session_id s" "length (recv_buffer t) = length (recv_buffer s)"
    by (simp_all add: steady_def write_view_def)
  have "steady t (t\<lparr>dispatcher := snd (request' True (dispatcher t)), pending_jobs := pending_jobs t + 1\<rparr>)"
    using assms(2) v
    by (auto simp: req submit_request_def steady_def write_view_def receive_ready_def receives_whole_def event_id_inject)
  from steady_trans [OF q this] show ?thesis
    using q by (simp add: submit_def c req submit_request_def)
qed

lemma steady_recv_async [steady_intros]: "steadily.does recv_async"
  unfolding recv_async_def
  by (intro steadily.doesI steady_submit [where e = EVENT_PACKET_RECEIVED]) (simp_all add: dispatcher_submit_defs ev_def)

lemma steady_recv_cancel [steady_intros]: "steadily.does recv_async_cancel"
  unfolding recv_async_cancel_def
  by (intro steadily.doesI steady_submit [where e = EVENT_PACKET_RECEIVED_REMOVED])
    (simp_all add: dispatcher_submit_defs ev_def)

lemma steady_timeout [steady_intros]: "steadily.does submit_timeout"
proof -
  have "steadily.does (\<lambda>s. submit (\<lambda>ok. dispatcher_submit_timeout ok (ev EVENT_TIMEOUT s) (event_timeout s)) s)"
    by (intro steadily.doesI steady_submit [where e = EVENT_TIMEOUT]) (simp_all add: dispatcher_submit_defs ev_def)
  then show ?thesis
    unfolding submit_timeout_def by (auto intro!: steady_intros simp del: chain.simps)
qed

lemma steady_error_packet [steady_intros]: "steadily.does (chain [error_packet_init, send_error_packet d])"
proof (rule steadily.doesI)
  fix s :: session
  let ?s = "s\<lparr>error_packet_bytes := None\<rparr>"
  obtain r t where m: "malloc_or_fail ?s = (r, t)" by fastforce
  have q: "steady s t"
    using steadily.doesD [OF steady_malloc m] steady_updates(2) steady_trans by blast
  let ?p = "error_packet (error_number (stats t)) (error_message (stats t))"
  let ?t = "t\<lparr>error_packet_bytes := Some ?p\<rparr>"
  have "steady ?t (snd (send_or_fail d ?p ?t))" by (simp add: steady_send)
  then have "steady s (snd (send_or_fail d ?p ?t))"
    using q steady_updates(2) steady_trans by metis
  then show "steady s (snd (chain [error_packet_init, send_error_packet d] s))"
    using q by (cases r)
      (auto simp: error_packet_init_def m assign_def send_error_packet_def split: prod.splits ret.splits)
qed

text \<open>An operation that reports an error leaves it recorded.\<close>

lemma reports:
  assumes "chain (assign (set_error c m) # fs) s = (r, t)" and "steadily.does (chain fs)"
  shows "steady s t \<and> error_occurred (stats t)"
proof -
  have "chain fs (set_error c m s) = (r, t)" using assms(1) by (simp add: assign_def)
  from steadily.doesD [OF assms(2) this] have u: "steady (set_error c m s) t" .
  have "error_occurred (stats (set_error c m s))" by (simp add: set_error_def)
  then show ?thesis using u steady_trans [OF steady_updates(1) u] by (simp add: steady_def)
qed

lemma report_error_steady: "report_error c m d s = (r, t) \<Longrightarrow> steady s t \<and> error_occurred (stats t)"
  unfolding report_error_def by (erule reports) (rule steady_error_packet)

lemma report_client_error_steady:
  assumes "report_client_error n s = (Ret_True, t)"
  shows "steady s t \<and> error_occurred (stats t)"
proof -
  have e: "steady s u \<and> error_occurred (stats u)"
    if c: "chain [malloc_or_fail, assign (set_error code m)] s = (Ret_True, u)" for code m u
  proof -
    obtain v where "malloc_or_fail s = (Ret_True, v)" "u = set_error code m v"
      using c by (elim chain_TrueE) (auto simp: assign_def)
    then show ?thesis
      using steady_trans [OF steadily.doesD [OF steady_malloc] steady_updates(1)] by (auto simp: set_error_def)
  qed
  show ?thesis
    using assms e
    by (auto simp: report_client_error_def Let_def set_error_def steady_same write_view_def
        simp del: chain.simps split: option.splits if_splits)
qed

lemma give_up_steady:
  assumes "chain [recv_async_cancel, set_max_retransmissions_error, error_packet_init, send_error_packet d] s
    = (Ret_True, t)"
  shows "steady s t \<and> error_occurred (stats t)"
proof -
  obtain u v where u: "recv_async_cancel s = (Ret_True, u)" and v: "set_max_retransmissions_error u = (Ret_True, v)"
    and t: "chain [error_packet_init, send_error_packet d] v = (Ret_True, t)"
    using assms by (rule chain_TrueE) (erule chain_TrueE, rule that)
  obtain w c m where w: "malloc_or_fail u = (Ret_True, w)" "v = set_error c m w"
    using v unfolding set_max_retransmissions_error_def by (elim chain_TrueE) (auto simp: assign_def)
  have "steady s v"
    using steadily.doesD [OF steady_recv_cancel u] steadily.doesD [OF steady_malloc w(1)] w(2)
    by (auto intro: steady_trans)
  moreover have vt: "steady v t" by (rule steadily.doesD [OF steady_error_packet t])
  ultimately have "steady s t" by (rule steady_trans)
  moreover have "error_occurred (stats v)" using w(2) by (simp add: set_error_def)
  ultimately show ?thesis using vt by (simp add: steady_def)
qed

lemma steady_backoff: "steady s (backoff s)"
  by (simp add: backoff_def Let_def steady_refl)

section \<open>The invariant\<close>

definition blocks :: "byte list \<Rightarrow> session \<Rightarrow> nat" where
  "blocks f s = length f div unat (block_size s) + 1"

text \<open>The session has acknowledged block 1 to \<open>k\<close>, and perhaps the request.\<close>

definition acks_sent :: "nat \<Rightarrow> session \<Rightarrow> bool" where
  "acks_sent k s \<longleftrightarrow>
     (\<forall>x \<in> set (out s). is_ack_packet (snd x) \<longrightarrow> (\<exists>j\<le>k. snd x = tftp_ack_packet_init (word_of_nat j)))
     \<and> (\<forall>j. 1 \<le> j \<longrightarrow> j \<le> k \<longrightarrow> (client_address s, tftp_ack_packet_init (word_of_nat j)) \<in> set (out s))"

text \<open>The first \<open>k\<close> chunks of \<open>f\<close> have been stored.\<close>

definition stored :: "byte list \<Rightarrow> nat \<Rightarrow> session \<Rightarrow> bool" where
  "stored f k s \<longleftrightarrow> (\<exists>fo. open_file s = Some fo
     \<and> contents fo = concat (map (chunk f (unat (block_size s))) [0..<k]) \<and> file_offset fo = length (contents fo))"

definition write_core :: "byte list \<Rightarrow> nat \<Rightarrow> nat \<Rightarrow> session \<Rightarrow> bool" where
  "write_core f bs k s \<longleftrightarrow>
     request_type s = SESSION_WRITE_REQUEST \<and> unat (block_size s) = bs \<and> 0 < bs
     \<and> blocks f s \<le> 65536 \<and> k \<le> blocks f s
     \<and> stored f k s \<and> expected_sequence_number s = word_of_nat (k + 1)
     \<and> (awaiting_options_ack s \<longrightarrow> k = 0) \<and> (k = blocks f s \<longrightarrow> should_close s)
     \<and> (should_close s \<longrightarrow> k = blocks f s \<or> error_occurred (stats s))
     \<and> 4 + bs \<le> length (recv_buffer s)
     \<and> (\<forall>p. oack_packet s = Some p \<longrightarrow> \<not> is_ack_packet p)
     \<and> receive_ready s \<and> acks_sent k s"

lemma write_view_fields:
  assumes "write_view t = write_view s"
  shows "request_type t = request_type s" "block_size t = block_size s" "open_file t = open_file s"
    "expected_sequence_number t = expected_sequence_number s" "opts t = opts s" "oack_packet t = oack_packet s"
    "length (recv_buffer t) = length (recv_buffer s)" "should_close t = should_close s"
    "client_address t = client_address s" "session_id t = session_id s"
  using assms by (simp_all add: write_view_def)

lemma acks_sent_more:
  assumes "acks_sent k s" and "out t = out s @ o'" and "client_address t = client_address s"
    and "\<forall>x \<in> set o'. is_ack_packet (snd x) \<longrightarrow> snd x = tftp_ack_packet_init (word_of_nat k)"
  shows "acks_sent k t"
  using assms unfolding acks_sent_def by fastforce

lemma acks_next:
  assumes "acks_sent k s" and o': "out t = out s @ [(client_address s, tftp_ack_packet_init (word_of_nat (Suc k)))]"
    and cl: "client_address t = client_address s"
  shows "acks_sent (Suc k) t"
proof -
  have a: "\<exists>j\<le>k. snd x = tftp_ack_packet_init (word_of_nat j)" if "x \<in> set (out s)" "is_ack_packet (snd x)" for x
    using assms(1) that by (simp add: acks_sent_def)
  have b: "(client_address s, tftp_ack_packet_init (word_of_nat j)) \<in> set (out s)" if "1 \<le> j" "j \<le> k" for j
    using assms(1) that by (simp add: acks_sent_def)
  have "\<exists>j\<le>Suc k. snd x = tftp_ack_packet_init (word_of_nat j)" if x: "x \<in> set (out t)" "is_ack_packet (snd x)" for x
  proof (cases "x \<in> set (out s)")
    case True
    then obtain j where "j \<le> k" "snd x = tftp_ack_packet_init (word_of_nat j)" using a x(2) by blast
    then show ?thesis by (intro exI [of _ j]) simp
  next
    case False
    then have "snd x = tftp_ack_packet_init (word_of_nat (Suc k))" using x(1) by (simp add: o' del: of_nat_Suc)
    then show ?thesis by blast
  qed
  moreover have "(client_address t, tftp_ack_packet_init (word_of_nat j)) \<in> set (out t)" if "1 \<le> j" "j \<le> Suc k" for j
    using that b [of j] unfolding cl o' by (cases "j = Suc k") (simp_all del: of_nat_Suc)
  ultimately show ?thesis unfolding acks_sent_def by blast
qed

lemma core_steady:
  assumes c: "write_core f bs k s" and q: "steady s t"
  shows "write_core f bs k t"
proof -
  note v = write_view_fields [of t s]
  have w: "write_view t = write_view s" using q by (simp add: steady_def)
  have a: "awaiting_options_ack t = awaiting_options_ack s" by (simp add: awaiting_options_ack_def v [OF w])
  obtain o' where o': "out t = out s @ o'" "\<forall>x \<in> set o'. is_ack_packet (snd x) \<longrightarrow>
      snd x = tftp_ack_packet_init (expected_sequence_number s - 1)"
    using q by (auto simp: steady_def)
  have "expected_sequence_number s - 1 = word_of_nat k" using c by (simp add: write_core_def)
  then have "acks_sent k t" using acks_sent_more [OF _ o'(1)] o'(2) c v [OF w] by (simp add: write_core_def)
  then show ?thesis
    using c q unfolding write_core_def stored_def blocks_def v [OF w] a by (auto simp: steady_def)
qed

lemma core_closing:
  assumes c: "write_core f bs k s" and q: "steady (s\<lparr>should_close := True\<rparr>) t" and e: "error_occurred (stats t)"
  shows "write_core f bs k t"
proof -
  let ?s = "s\<lparr>should_close := True\<rparr>"
  have w: "write_view t = write_view ?s" using q by (simp add: steady_def)
  note v = write_view_fields [OF w, simplified]
  have a: "awaiting_options_ack t = awaiting_options_ack s" by (simp add: awaiting_options_ack_def v)
  obtain o' where o': "out t = out s @ o'" "\<forall>x \<in> set o'. is_ack_packet (snd x) \<longrightarrow>
      snd x = tftp_ack_packet_init (expected_sequence_number s - 1)"
    using q by (auto simp: steady_def)
  have "expected_sequence_number s - 1 = word_of_nat k" using c by (simp add: write_core_def)
  then have "acks_sent k t" using acks_sent_more [OF _ o'(1)] o'(2) c v by (simp add: write_core_def)
  moreover have "receive_ready t"
    using c q by (auto simp: write_core_def steady_def receive_ready_def receives_whole_def)
  ultimately show ?thesis
    using c e v(8) unfolding write_core_def stored_def blocks_def v(1-7,9,10) a by auto
qed

section \<open>Timeouts\<close>

lemma core_send_oack_packet: "write_core f bs k s \<Longrightarrow> send_oack_packet s = (Ret_True, t) \<Longrightarrow> write_core f bs k t"
proof -
  assume c: "write_core f bs k s" and r: "send_oack_packet s = (Ret_True, t)"
  obtain p where p: "oack_packet s = Some p" "send_or_fail (client_address s) p s = (Ret_True, t)"
    using r by (auto simp: send_oack_packet_def split: option.splits)
  then have "\<not> is_ack_packet p" using c by (simp add: write_core_def)
  from core_steady [OF c steadily.doesD [OF steady_send_other [OF this] p(2)]] show ?thesis .
qed

lemma core_on_timeout:
  assumes c: "write_core f bs k s" and r: "on_timeout s = (Ret_True, t)"
  shows "write_core f bs k t"
proof (cases "retries s \<le> current_retransmission s")
  case True
  then have "chain [recv_async_cancel, set_max_retransmissions_error, error_packet_init,
      send_error_packet (client_address s)] (s\<lparr>should_close := True\<rparr>) = (Ret_True, t)"
    using r by (simp add: on_timeout_def del: chain.simps)
  from give_up_steady [OF this] show ?thesis using core_closing [OF c] by simp
next
  case False
  let ?s = "s\<lparr>current_retransmission := current_retransmission s + 1, total_retransmissions := total_retransmissions s + 1\<rparr>"
  let ?g = "\<lambda>s. if valid_options_required (opts s) \<and> \<not> options_acknowledged (opts s) then send_oack_packet s
      else if request_type s = SESSION_WRITE_REQUEST
      then send_or_fail (client_address s) (tftp_ack_packet_init (expected_sequence_number s - 1)) s
      else retransmit_window s"
  have "chain [assign backoff, submit_timeout, ?g] ?s = (Ret_True, t)"
    using False r by (simp add: on_timeout_def del: chain.simps)
  then obtain u where u: "submit_timeout (backoff ?s) = (Ret_True, u)" and g: "?g u = (Ret_True, t)"
    by (elim chain_TrueE) (auto simp: assign_def)
  have "steady s ?s" by (simp add: steady_same write_view_def)
  then have "steady s u"
    using steady_trans steady_backoff steadily.doesD [OF steady_timeout u] by blast
  then have cu: "write_core f bs k u" by (rule core_steady [OF c])
  show ?thesis
  proof (cases "awaiting_options_ack u")
    case True
    then show ?thesis using g core_send_oack_packet [OF cu] by (simp add: awaiting_options_ack_def)
  next
    case False
    then have "send_or_fail (client_address u) (tftp_ack_packet_init (expected_sequence_number u - 1)) u = (Ret_True, t)"
      using g cu by (auto simp: awaiting_options_ack_def write_core_def)
    then have "steady u t" using steady_send [of _ u "client_address u"] by (metis snd_conv)
    then show ?thesis by (rule core_steady [OF cu])
  qed
qed

section \<open>Data\<close>

text \<open>The next \<open>write\<close> writes all of \<open>n\<close> bytes, or fails.\<close>

definition whole_write :: "nat \<Rightarrow> session \<Rightarrow> bool" where
  "whole_write n s \<longleftrightarrow> (\<forall>v rest. sys s = Some v # rest \<longrightarrow> v = - 1 \<or> v = int n)"

lemma write_whole:
  assumes "write_data data s = (Ret_True, t)" and "whole_write (length data) s" and "open_file s = Some fo"
  obtains x y where "t = s\<lparr>sys := x, open_file := Some (file_write data fo), stats := y\<rparr>"
proof -
  obtain r s' where c: "sys_call (int (length data)) s = (r, s')" by fastforce
  have "s' = s\<lparr>sys := sys s'\<rparr>" using c by (cases "sys s") (auto simp: sys_call_def)
  then obtain x where "s' = s\<lparr>sys := x\<rparr>" ..
  moreover have "r = - 1 \<or> r = int (length data)"
    using assms(2) c by (cases "sys s") (auto simp: sys_call_def whole_write_def split: option.splits)
  ultimately have "t = s\<lparr>sys := x, open_file := Some (file_write data fo),
      stats := (stats s)\<lparr>bytes_sent := bytes_sent (stats s) + length data\<rparr>\<rparr>"
    using assms(1,3) by (simp add: write_data_def c split: if_splits)
  then show thesis by (rule that)
qed

lemma send_frame:
  "send_or_fail d p s = (Ret_True, t) \<Longrightarrow> \<exists>x. t = s\<lparr>sys := x, out := out s @ [(d, p)]\<rparr>"
  by (rule exI [of _ "sys t"], cases "sys s") (auto simp: send_or_fail_def sendto_def sys_call_def split: if_splits)

lemma write_at_end:
  "file_offset fo = length (contents fo) \<Longrightarrow> contents (file_write bs fo) = contents fo @ bs
     \<and> file_offset (file_write bs fo) = length (contents (file_write bs fo))"
  by (simp add: file_write_def splice_def)

lemma stored_more:
  assumes "stored f k s" and "open_file s = Some fo" and "open_file t = Some (file_write (chunk f (unat (block_size s)) k) fo)"
    and "block_size t = block_size s"
  shows "stored f (Suc k) t"
  using assms write_at_end [of fo "chunk f (unat (block_size s)) k"] by (simp add: stored_def)

text \<open>A block that is accepted is the next one, and its acceptance ends the transfer if it is the last one.\<close>

lemma core_on_data:
  assumes c: "write_core f bs k s" and sc: "\<not> should_close s" and w: "whole_write (length data) s"
    and j: "j < blocks f s" "block = word_of_nat (j + 1)" "data = chunk f (unat (block_size s)) j"
    and r: "on_data block data s = (Ret_True, t)"
  shows "\<exists>k'. write_core f bs k' t"
proof -
  let ?first = "awaiting_options_ack s \<and> block = 1"
  let ?s = "if ?first then acknowledge_options s else s"
  have kb: "k < blocks f s" "blocks f s \<le> 65536" using c sc by (auto simp: write_core_def le_less)
  have ex: "expected_sequence_number s = word_of_nat (k + 1)" using c by (simp add: write_core_def)
  show ?thesis
  proof (cases "\<not> ?first \<and> block \<noteq> expected_sequence_number s")
    case True
    then have "t = s" using r by (auto simp: on_data_def Let_def simp del: chain.simps)
    then show ?thesis using c by blast
  next
    case False
    have bk: "block = word_of_nat (k + 1)"
    proof (cases ?first)
      case True
      then show ?thesis using c by (simp add: write_core_def)
    next
      case f: False
      then show ?thesis using False ex by blast
    qed
    have "j = k"
    proof -
      have "word_of_nat j = (word_of_nat k :: u16)" using bk j(2) by simp
      then have "unat (word_of_nat j :: u16) = unat (word_of_nat k :: u16)" by simp
      then show ?thesis using j(1) kb by (simp add: unat_word16_of_nat)
    qed
    then have data: "data = chunk f (unat (block_size s)) k" using j(3) by simp
    have "chain [write_data data, send_or_fail (client_address s) (tftp_ack_packet_init block),
        assign (\<lambda>s. s\<lparr>expected_sequence_number := expected_sequence_number s + 1,
                      stats := (stats s)\<lparr>packets_acked := packets_acked (stats s) + 1\<rparr>,
                      current_retransmission := 0, should_close := length data < unat (block_size s)\<rparr>)] ?s
        = (Ret_True, t)"
      using r False by (auto simp: on_data_def Let_def simp del: chain.simps)
    then obtain u v where u: "write_data data ?s = (Ret_True, u)"
      and v: "send_or_fail (client_address s) (tftp_ack_packet_init block) u = (Ret_True, v)"
      and t: "t = v\<lparr>expected_sequence_number := expected_sequence_number v + 1,
                      stats := (stats v)\<lparr>packets_acked := packets_acked (stats v) + 1\<rparr>,
                      current_retransmission := 0, should_close := length data < unat (block_size v)\<rparr>"
      by (elim chain_TrueE) (auto simp: assign_def)
    obtain fo where fo: "open_file s = Some fo" using c by (auto simp: write_core_def stored_def)
    have ofs: "open_file ?s = Some fo" using fo by (simp add: acknowledge_options_def)
    have ws: "whole_write (length data) ?s" using w by (simp add: whole_write_def acknowledge_options_def)
    obtain x y where ux: "u = ?s\<lparr>sys := x, open_file := Some (file_write data fo), stats := y\<rparr>"
      by (rule write_whole [OF u ws ofs])
    obtain z where vz: "v = u\<lparr>sys := z, out := out u @ [(client_address s, tftp_ack_packet_init block)]\<rparr>"
      using send_frame [OF v] by blast
    have fields: "request_type t = request_type s" "block_size t = block_size s"
      "open_file t = Some (file_write data fo)" "expected_sequence_number t = expected_sequence_number s + 1"
      "length (recv_buffer t) = length (recv_buffer s)" "oack_packet t = oack_packet s"
      "client_address t = client_address s" "session_id t = session_id s" "dispatcher t = dispatcher s"
      "out t = out s @ [(client_address s, tftp_ack_packet_init block)]"
      "should_close t = (length data < unat (block_size s))"
      by (simp_all add: t vz ux acknowledge_options_def)
    have aw: "\<not> awaiting_options_ack t"
      using c False bk by (auto simp: t vz ux acknowledge_options_def awaiting_options_ack_def write_core_def split: if_splits)
    have bs: "0 < unat (block_size s)" using c by (simp add: write_core_def)
    have sh: "length data < unat (block_size s) \<longleftrightarrow> Suc k = blocks f s"
      using chunks_make_file(2,3) [OF bs, where f = f] kb(1) by (cases "k = length f div unat (block_size s)")
        (auto simp: data blocks_def)
    have "stored f (Suc k) t"
      by (rule stored_more [OF _ fo _ fields(2)]) (use c fields data in \<open>simp_all add: write_core_def\<close>)
    moreover have "acks_sent (Suc k) t"
      by (rule acks_next [of k s]) (use c bk fields in \<open>simp_all add: write_core_def\<close>)
    moreover have "receive_ready t" using c by (simp add: write_core_def receive_ready_def receives_whole_def fields)
    ultimately have "write_core f bs (Suc k) t"
      using c kb aw sh ex unfolding write_core_def fields blocks_def [of f t] by (simp add: blocks_def fields)
    then show ?thesis ..
  qed
qed

section \<open>Packets\<close>

text \<open>
  The DATA packet in the receive buffer, if there is one, is a block of the file, and it will be written
  whole.
\<close>

definition holds_block :: "byte list \<Rightarrow> nat \<Rightarrow> session \<Rightarrow> bool" where
  "holds_block f n s \<longleftrightarrow> (\<forall>rest block payload.
     dec16 (recv_buffer s) = Some (opcode_value TFTP_OPCODE_DATA, rest) \<longrightarrow> dec16 rest = Some (block, payload) \<longrightarrow>
     whole_write (length (take (n - 4) payload)) s
     \<and> (\<exists>j < blocks f s. block = word_of_nat (j + 1) \<and> take (n - 4) payload = chunk f (unat (block_size s)) j))"

lemma core_on_packet:
  assumes c: "write_core f bs k s" and sc: "\<not> should_close s" and h: "holds_block f n s"
    and run: "on_packet n s = (Ret_True, t)"
  shows "\<exists>k'. write_core f bs k' t"
proof -
  obtain opcode rest block payload where d: "dec16 (recv_buffer s) = Some (opcode, rest)"
    "dec16 rest = Some (block, payload)"
    using run by (auto simp: on_packet_def split: option.splits)
  have wr: "request_type s = SESSION_WRITE_REQUEST" using c by (simp add: write_core_def)
  consider "opcode_of opcode = Some TFTP_OPCODE_ERROR" | "opcode_of opcode = Some TFTP_OPCODE_DATA"
    | "opcode_of opcode \<noteq> Some TFTP_OPCODE_ERROR" "opcode_of opcode \<noteq> Some TFTP_OPCODE_DATA" by blast
  then show ?thesis
  proof cases
    case 1
    then have "report_client_error n (s\<lparr>should_close := True\<rparr>) = (Ret_True, t)"
      using run by (simp add: on_packet_def d)
    from report_client_error_steady [OF this] show ?thesis using core_closing [OF c] by blast
  next
    case 2
    then have "on_data block (take (n - 4) payload) s = (Ret_True, t)" using run wr by (simp add: on_packet_def d)
    moreover obtain j where "j < blocks f s" "block = word_of_nat (j + 1)"
        "take (n - 4) payload = chunk f (unat (block_size s)) j" "whole_write (length (take (n - 4) payload)) s"
      using h 2 d unfolding holds_block_def by (metis opcode_of_Some)
    ultimately show ?thesis using core_on_data [OF c sc] by blast
  next
    case 3
    then have "unexpected_opcode s = (Ret_True, t)" using run wr by (simp add: on_packet_def d)
    then obtain c' g p where "report_error c' g p (s\<lparr>should_close := True\<rparr>) = (Ret_True, t)"
      unfolding unexpected_opcode_def by blast
    from report_error_steady [OF this] show ?thesis using core_closing [OF c] by blast
  qed
qed

lemma core_on_packet_received:
  assumes c: "write_core f bs k s" and sc: "\<not> should_close s"
    and h: "4 \<le> ev_result e \<Longrightarrow> sockaddr_equals (last_message_address s) (client_address s) \<Longrightarrow>
      holds_block f (nat (ev_result e)) s"
    and run: "on_packet_received e s = (Ret_True, t)"
  shows "\<exists>k'. write_core f bs k' t"
proof (cases "ev_result e < 4 \<or> set_address_family (last_message_address s) = None")
  case True
  then show ?thesis using run c by (auto simp: on_packet_received_def simp del: chain.simps split: if_splits)
next
  case False
  then consider "on_packet (nat (ev_result e)) s = (Ret_True, t)"
      "sockaddr_equals (last_message_address s) (client_address s)"
    | c' g p where "chain [report_error c' g p, assign (\<lambda>s. s\<lparr>stats := (stats s)\<lparr>error_occurred := False\<rparr>\<rparr>)] s
        = (Ret_True, t)"
    using run by (auto simp: on_packet_received_def simp del: chain.simps split: if_splits)
  then show ?thesis
  proof cases
    case 1
    then show ?thesis using core_on_packet [OF c sc _ 1(1)] h False by auto
  next
    case 2
    then obtain u where u: "report_error c' g p s = (Ret_True, u)"
      and t: "t = u\<lparr>stats := (stats u)\<lparr>error_occurred := False\<rparr>\<rparr>"
      by (elim chain2_TrueE) (auto simp: assign_def)
    have su: "steady s u" using report_error_steady [OF u] by simp
    have "\<not> should_close u" using su sc by (simp add: steady_def write_view_def)
    then have "write_core f bs k t"
      using core_steady [OF c su]
      by (auto simp: t write_core_def blocks_def stored_def awaiting_options_ack_def receive_ready_def
          receives_whole_def acks_sent_def)
    then show ?thesis ..
  qed
qed

section \<open>One step of the event loop\<close>

lemma core_dispatch:
  assumes c: "write_core f bs k u" and ev': "ev' \<noteq> EVENT_DATA_AVAILABLE" "ev' \<noteq> EVENT_START"
    and h: "ev' = EVENT_PACKET_RECEIVED \<Longrightarrow> is_success e \<Longrightarrow> 4 \<le> ev_result e \<Longrightarrow>
      sockaddr_equals (last_message_address u) (client_address u) \<Longrightarrow> holds_block f (nat (ev_result e)) u"
    and run: "dispatch_event ev' e u = (Ret_True, v)"
  shows "\<exists>k'. write_core f bs k' v"
proof -
  let ?u = "pending_jobs_dec u"
  have cu: "write_core f bs k ?u" by (rule core_steady [OF c steady_updates(6)])
  show ?thesis
  proof (cases ev')
    case EVENT_TIMEOUT
    then have "v = ?u \<or> on_timeout ?u = (Ret_True, v)"
      using run by (auto simp: Let_def split: if_splits)
    then show ?thesis using cu core_on_timeout [OF cu] by auto
  next
    case EVENT_PACKET_RECEIVED
    show ?thesis
    proof (cases "v = ?u")
      case True
      then show ?thesis using cu by blast
    next
      case False
      then have sc: "\<not> should_close ?u" and "chain [on_packet_received e,
          \<lambda>s. if should_close s then (Ret_True, s) else recv_async s] ?u = (Ret_True, v)"
        using run EVENT_PACKET_RECEIVED by (auto simp: Let_def simp del: chain.simps split: if_splits)
      then obtain w where w: "on_packet_received e ?u = (Ret_True, w)"
        and v: "(if should_close w then (Ret_True, w) else recv_async w) = (Ret_True, v)"
        by (elim chain2_TrueE) (rule that)
      have su: "is_success e" using w by (auto simp: on_packet_received_def split: if_splits)
      have "holds_block f (nat (ev_result e)) ?u"
        if "4 \<le> ev_result e" "sockaddr_equals (last_message_address ?u) (client_address ?u)"
        using h [OF EVENT_PACKET_RECEIVED su] that
        by (simp add: pending_jobs_dec_def holds_block_def whole_write_def blocks_def)
      from core_on_packet_received [OF cu sc this w] obtain k' where "write_core f bs k' w" by blast
      then show ?thesis
        using v core_steady steadily.doesD [OF steady_recv_async] by (metis prod.inject)
    qed
  qed (use run cu ev' in \<open>auto simp: Let_def split: if_splits\<close>)
qed

text \<open>
  \<open>P\<close> are the datagrams the client sends: what arrives from its address and is a DATA packet is one of them,
  and if it is written, it is written whole or not at all.  Nothing is assumed about other datagrams, other
  completions and their order.
\<close>

definition delivers :: "byte list set \<Rightarrow> completion \<Rightarrow> session \<Rightarrow> bool" where
  "delivers P c s \<longleftrightarrow> (\<forall>a p. c = C_Datagram a p \<and> sockaddr_equals a (client_address s) \<and> is_data_packet p \<longrightarrow>
     p \<in> P \<and> whole_write (length p - 4) s)"

definition blocks_of :: "byte list \<Rightarrow> nat \<Rightarrow> byte list set \<Rightarrow> bool" where
  "blocks_of f bs P \<longleftrightarrow> (\<forall>p \<in> P. is_data_packet p \<longrightarrow> (\<exists>j \<le> length f div bs. p = data_datagram f bs j))"

lemma received_block:
  assumes core: "write_core f bs k s" and d: "delivers P c s" and P: "blocks_of f bs P"
    and c: "complete (Req_Recvmsg (length (recv_buffer s))) c s = Some (res, s1)" and res: "4 \<le> res"
    and a: "sockaddr_equals (last_message_address s1) (client_address s1)"
  shows "holds_block f (nat res) (s1\<lparr>dispatcher := x\<rparr>)"
proof -
  let ?n = "length (recv_buffer s)"
  obtain src p where cc: "c = C_Datagram src p" and r: "res = int (length (take ?n p))"
    and s1: "s1 = s\<lparr>last_message_address := src, recv_buffer := splice 0 (take ?n p) (recv_buffer s)\<rparr>"
    using c res by (cases c) (auto split: if_splits)
  have buf: "recv_buffer s1 = take ?n p @ drop (length (take ?n p)) (recv_buffer s)"
    by (simp add: s1 splice_def)
  have lp: "4 \<le> length (take ?n p)" using r res by simp
  show ?thesis
    unfolding holds_block_def
  proof (intro allI impI)
    fix rest block payload
    assume d1: "dec16 (recv_buffer (s1\<lparr>dispatcher := x\<rparr>)) = Some (opcode_value TFTP_OPCODE_DATA, rest)"
      and d2: "dec16 rest = Some (block, payload)"
    obtain b0 b1 b2 b3 q where q: "take ?n p = b0 # b1 # b2 # b3 # q"
      using lp by (auto simp: Suc_le_length_iff numeral_eq_Suc)
    have "is_data_packet p"
    proof -
      have "dec16 p = Some (rd16 b0 b1, drop 2 p)"
        using q lp by (cases p rule: dec16.cases) (auto simp: take_Cons' split: if_splits)
      moreover have "rd16 b0 b1 = opcode_value TFTP_OPCODE_DATA" using d1 by (simp add: buf q)
      ultimately show ?thesis by (simp add: is_data_packet_def tftp_get_opcode_unsafe_def)
    qed
    then obtain j where j: "j < blocks f s" "p = data_datagram f (unat (block_size s)) j"
      and w: "whole_write (length p - 4) s"
      using d P cc a core unfolding delivers_def blocks_of_def by (auto simp: s1 blocks_def less_Suc_eq_le write_core_def)
    have "length (chunk f (unat (block_size s)) j) \<le> unat (block_size s)" by (simp add: length_chunk)
    moreover have "4 + unat (block_size s) \<le> ?n" using core by (simp add: write_core_def)
    ultimately have tp: "take ?n p = p" by (simp add: j data_datagram_def length_data_header)
    have pb: "recv_buffer s1 = p @ drop (length p) (recv_buffer s)" using buf unfolding tp .
    have blk: "block = word_of_nat (j + 1)" "take (length p - 4) payload = chunk f (unat (block_size s)) j"
      using d1 d2 unfolding j(2) by (auto simp: pb [unfolded j(2)] data_datagram_def tftp_data_packet_init_def)
    have r': "nat res = length p" by (simp add: r tp)
    have l: "length (take (length p - 4) payload) = length p - 4"
      unfolding blk(2) by (simp add: j(2) data_datagram_def length_data_header)
    show "whole_write (length (take (nat res - 4) payload)) (s1\<lparr>dispatcher := x\<rparr>)
      \<and> (\<exists>j < blocks f (s1\<lparr>dispatcher := x\<rparr>). block = word_of_nat (j + 1)
          \<and> take (nat res - 4) payload = chunk f (unat (block_size (s1\<lparr>dispatcher := x\<rparr>))) j)"
      using w j(1) blk unfolding r' l by (auto simp: s1 whole_write_def blocks_def)
  qed
qed

definition write_inv :: "byte list \<Rightarrow> byte list set \<Rightarrow> session \<Rightarrow> bool" where
  "write_inv f P s \<longleftrightarrow>
     (\<exists>bs k. write_core f bs k s \<and> blocks_of f bs P) \<and> no_start s \<and> \<not> is_fetching_data s"



lemma complete_steady:
  assumes "request_fits ev' req" and "ev' \<noteq> EVENT_DATA_AVAILABLE" and "complete req c s = Some (res, s1)"
    and "receives_whole s (Some (event_id (session_id s) ev'), req)"
    and sub: "set (ring d) \<subseteq> set (ring (dispatcher s))"
  shows "steady s (s1\<lparr>dispatcher := d\<rparr>)"
proof -
  have f: "write_view s1 = write_view s \<and> stats s1 = stats s \<and> out s1 = out s"
    using assms(1-4) by (cases "(req, c, s)" rule: complete.cases; cases ev')
      (auto simp: write_view_def receives_whole_def split: if_splits)
  then have "receives_whole (s1\<lparr>dispatcher := d\<rparr>) = receives_whole s"
    by (intro ext) (simp add: receives_whole_def write_view_def)
  then have "receive_ready s \<longrightarrow> receive_ready (s1\<lparr>dispatcher := d\<rparr>)"
    using sub by (auto simp: receive_ready_def)
  then show ?thesis using f by (simp add: steady_def write_view_def)
qed

lemma write_step:
  assumes inv: "write_inv f P s" and jobs: "jobs_inv s" and d: "delivers P c s"
    and step: "session_step i c s = Some (st, t)" and st: "st \<noteq> TFTP_SESSION_STATE_ERROR" "st \<noteq> Session_Fault"
  shows "\<exists>w. write_inv f P w \<and> (if st = TFTP_SESSION_STATE_CLOSED then t = close_session w else t = w)"
proof -
  obtain ev' req res s1 e x v w where
    rng: "ring (dispatcher s) ! i = (Some (event_id (session_id s) ev'), req)" "i < length (ring (dispatcher s))"
    and fits: "request_fits ev' req" and c: "complete req c s = Some (res, s1)"
    and j: "same_jobs s s1" "should_close s1 = should_close s"
    and e: "is_success e = (0 \<le> res)" "0 \<le> res \<Longrightarrow> ev_result e = res"
    and x: "x = snd (dispatcher_wait_event i res (dispatcher s1))"
    and v: "dispatch_event ev' e (s1\<lparr>dispatcher := x\<rparr>) = (Ret_True, v)" and w: "fetch_data v = (Ret_True, w)"
    and stt: "(st, t) = (if should_close w \<and> pending_jobs w = 0 then (TFTP_SESSION_STATE_CLOSED, close_session w)
                else (TFTP_SESSION_STATE_IDLE, w))"
    by (rule step_inverts [OF jobs step st]) blast
  obtain bs k where core: "write_core f bs k s" and ns: "no_start s" and nf: "\<not> is_fetching_data s"
    and P: "blocks_of f bs P"
    using inv by (auto simp: write_inv_def)
  let ?u = "s1\<lparr>dispatcher := x\<rparr>"
  have mem: "ring (dispatcher s) ! i \<in> set (ring (dispatcher s))" using rng(2) by simp
  have no: "ev' \<noteq> EVENT_START" using ns mem rng(1) by (auto simp: no_start_def in_flight_zero_iff)
  have "in_flight (event_id (session_id s) EVENT_DATA_AVAILABLE) (dispatcher s) = 0"
    using jobs nf by (simp add: jobs_inv_def Let_def)
  then have nd: "ev' \<noteq> EVENT_DATA_AVAILABLE" using mem rng(1) by (auto simp: in_flight_zero_iff)
  have rw: "receives_whole s (Some (event_id (session_id s) ev'), req)"
    using core mem rng(1) by (auto simp: write_core_def receive_ready_def)
  have sub: "set (ring x) \<subseteq> set (ring (dispatcher s))"
    using x j(1) by (auto simp: dispatcher_wait_event_def same_jobs_def dest: in_set_takeD in_set_dropD)
  have cu: "write_core f bs k ?u" by (rule core_steady [OF core complete_steady [OF fits nd c rw sub]])
  have hb: "holds_block f (nat (ev_result e)) ?u"
    if a: "ev' = EVENT_PACKET_RECEIVED" "is_success e" "4 \<le> ev_result e"
      "sockaddr_equals (last_message_address ?u) (client_address ?u)"
  proof -
    have "req = Req_Recvmsg (length (recv_buffer s))" using rw a(1) by (simp add: receives_whole_def)
    from received_block [OF core d P c [unfolded this]] show ?thesis using a e by simp
  qed
  obtain k' where cv: "write_core f bs k' v" using core_dispatch [OF cu nd no hb v] by blast
  have "\<not> should_fetch_data v" using cv by (simp add: should_fetch_data_def write_core_def)
  then have wv: "w = v" using w by (simp add: fetch_data_def)
  have app: "appended (UNIV - {EVENT_START, EVENT_DATA_AVAILABLE}) (event_taken ev' ?u) v"
    using dispatch_event_appended [of ev' ?u e] v by simp
  have "is_fetching_data (event_taken ev' ?u) = is_fetching_data s"
    using j(1) nd by (simp add: event_taken_def pending_jobs_dec_def same_jobs_def)
  then have "\<not> is_fetching_data v" using appended_fetching [OF app] nf by simp
  moreover have "no_start v"
  proof -
    have "in_flight (event_id (session_id s) EVENT_START) x = 0"
      using ns sub by (auto simp: no_start_def in_flight_zero_iff)
    then show ?thesis
      using appended_counts(2) [OF app, of EVENT_START] appended_session_id [OF app] j(1)
      by (simp add: no_start_def same_jobs_def)
  qed
  ultimately have "write_inv f P w" using cv wv P by (auto simp: write_inv_def)
  moreover have "if st = TFTP_SESSION_STATE_CLOSED then t = close_session w else t = w"
    using stt by (auto split: if_splits)
  ultimately show ?thesis by blast
qed

section \<open>The start of a write\<close>

text \<open>
  A session is about to write the file \<open>f\<close>: the request was accepted and the file could be opened, and is
  empty (\<open>open\<close> truncates it).
\<close>

definition writes_file :: "byte list \<Rightarrow> session \<Rightarrow> bool" where
  "writes_file f s \<longleftrightarrow> request_type s = SESSION_WRITE_REQUEST \<and> 0 < unat (block_size s) \<and> blocks f s \<le> 65536
     \<and> (\<exists>fo. open_file s = Some fo \<and> contents fo = [] \<and> file_offset fo = 0)"

lemma steady_send_oack:
  assumes "send_oack x = (Ret_True, y)"
  obtains p where "steady (x\<lparr>oack_packet := Some p\<rparr>) y" "\<not> is_ack_packet p"
proof -
  obtain x1 x2 where x1: "oack_packet_init x = (Ret_True, x1)"
    and x2: "submit_timeout (if is_adaptive_timeout_active x1 then start_adaptive_timer 0 x1 else x1) = (Ret_True, x2)"
    and y: "send_oack_packet x2 = (Ret_True, y)"
    using assms unfolding send_oack_def by (elim chain_TrueE) (auto simp: assign_def)
  obtain p where p: "oack_packet_bytes (opts x) = Some p"
    and c: "chain [malloc_or_fail, assign (oack_packet_update (\<lambda>_. Some p))] x = (Ret_True, x1)"
    using x1 by (auto simp: oack_packet_init_def simp del: chain.simps split: option.splits)
  obtain z where "malloc_or_fail x = (Ret_True, z)" and "x1 = z\<lparr>oack_packet := Some p\<rparr>"
    using c by (elim chain_TrueE) (auto simp: assign_def)
  then obtain w where x1: "x1 = x\<lparr>sys := w, oack_packet := Some p\<rparr>"
    using malloc_frame by fastforce
  let ?x1' = "if is_adaptive_timeout_active x1 then start_adaptive_timer 0 x1 else x1"
  have "steady x1 (start_adaptive_timer 0 x1)"
    using steady_trans [OF steady_clock steady_updates(7)]
    by (auto simp: start_adaptive_timer_def split: prod.splits)
  then have "steady x1 ?x1'" by (simp add: steady_refl)
  moreover have "steady (x\<lparr>oack_packet := Some p\<rparr>) x1" by (simp add: x1 steady_same write_view_def)
  ultimately have q: "steady (x\<lparr>oack_packet := Some p\<rparr>) x2"
    using steadily.doesD [OF steady_timeout x2] steady_trans by blast
  then have "oack_packet x2 = Some p" by (simp add: steady_def write_view_def)
  then have "send_or_fail (client_address x2) p x2 = (Ret_True, y)" using y by (simp add: send_oack_packet_def)
  then have "steady x2 y" by (rule steadily.doesD [OF steady_send_other [OF not_ack(2) [OF p]]])
  with q have "steady (x\<lparr>oack_packet := Some p\<rparr>) y" by (rule steady_trans)
  then show thesis using not_ack(2) [OF p] by (rule that)
qed

lemma receive_ready_none: "recvs s = 0 \<Longrightarrow> receive_ready s"
  by (auto simp: receive_ready_def receives_whole_def in_flight_zero_iff)

lemma core_start:
  assumes init: "expected_sequence_number u = 1" "oack_packet u = None" "open_file u = None" "out u = []"
    and rdy: "recvs u = 0"
    and run: "handle_start u = (Ret_True, v)" and sc: "\<not> should_close v" and w: "writes_file f v"
  shows "write_core f (unat (block_size v)) 0 v"
proof -
  let ?g = "\<lambda>s. if awaiting_options_ack s then send_oack s
                else if request_type s = SESSION_WRITE_REQUEST then send_first_ack s else (Ret_True, s)"
  obtain x where x: "start u = (Ret_True, x)"
    and c: "(if should_close x then (Ret_True, x) else chain [?g, recv_async] x) = (Ret_True, v)"
    using run unfolding handle_start_def by (rule chain2_TrueE)
  have scx: "\<not> should_close x" using c sc by auto
  then have "chain [?g, recv_async] x = (Ret_True, v)" using c by (simp del: chain.simps)
  then obtain y where g: "?g x = (Ret_True, y)" and rcv: "recv_async y = (Ret_True, v)"
    by (rule chain2_TrueE)
  have qy: "steady y v" by (rule steadily.doesD [OF steady_recv_async rcv])
  have "recvs x = 0"
    using appended_recvs [OF submitsD [OF submits_start [of "{}"] x]] rdy by simp
  then have rx: "receive_ready x" by (rule receive_ready_none)
  obtain p o' where q: "steady (x\<lparr>oack_packet := p, out := out x @ o'\<rparr>) v"
    and p: "p = oack_packet x \<or> (\<exists>b. p = Some b \<and> \<not> is_ack_packet b)"
    and o': "\<forall>z \<in> set o'. snd z = tftp_ack_packet_init 0"
  proof (cases "awaiting_options_ack x")
    case True
    then obtain b where b: "steady (x\<lparr>oack_packet := Some b\<rparr>) y" "\<not> is_ack_packet b"
      using g steady_send_oack by auto
    have "x\<lparr>oack_packet := Some b, out := out x @ []\<rparr> = x\<lparr>oack_packet := Some b\<rparr>" by simp
    then show thesis using that [where p = "Some b" and o' = "[]"] steady_trans [OF b(1) qy] b(2) by auto
  next
    case False
    obtain z o' where y: "y = x\<lparr>sys := z, out := out x @ o'\<rparr>" "\<forall>z \<in> set o'. snd z = tftp_ack_packet_init 0"
    proof (cases "request_type x = SESSION_WRITE_REQUEST")
      case True
      then have "send_first_ack x = (Ret_True, y)" using g False by simp
      then have "y = x\<lparr>sys := sys y, out := out x @ []\<rparr>
          \<or> y = x\<lparr>sys := sys y, out := out x @ [(client_address x, tftp_ack_packet_init 0)]\<rparr>"
        by (cases "sys x") (auto simp: send_first_ack_def sendto_def sys_call_def split: if_splits)
      then show thesis
      proof
        assume h: "y = x\<lparr>sys := sys y, out := out x @ []\<rparr>"
        show thesis by (rule that [OF h]) simp
      next
        assume h: "y = x\<lparr>sys := sys y, out := out x @ [(client_address x, tftp_ack_packet_init 0)]\<rparr>"
        show thesis by (rule that [OF h]) simp
      qed
    next
      case f: False
      then have "y = x" using g False by simp
      then show thesis using that [where z = "sys x" and o' = "[]"] by simp
    qed
    have "steady (x\<lparr>oack_packet := oack_packet x, out := out x @ o'\<rparr>) y"
      by (simp add: y(1) steady_same write_view_def)
    then show thesis using that [where p = "oack_packet x" and o' = o'] steady_trans [OF _ qy] y(2) by blast
  qed
  let ?x = "x\<lparr>oack_packet := p, out := out x @ o'\<rparr>"
  have wv: "write_view v = write_view ?x" using q by (simp add: steady_def)
  note fv = write_view_fields [OF wv, simplified]
  have ox: "open_file x \<noteq> None" using w fv by (auto simp: writes_file_def)
  note st = start_opened [OF x init(3) ox scx]
  then have fx: "expected_sequence_number x = 1" "out x = []" "oack_packet x = None"
    "4 + unat (block_size x) \<le> length (recv_buffer x)"
    using init by (simp_all add: start_view_def)
  have "write_core f (unat (block_size v)) 0 ?x"
    unfolding write_core_def
  proof (intro conjI)
    show "stored f 0 ?x" using w fv by (auto simp: writes_file_def stored_def)
    show "acks_sent 0 ?x" using o' fx by (auto simp: acks_sent_def)
    show "\<forall>q. oack_packet ?x = Some q \<longrightarrow> \<not> is_ack_packet q" using p fx by auto
    show "receive_ready ?x" using rx by (simp add: receive_ready_def receives_whole_def)
  qed (use w fv fx scx in \<open>simp_all add: writes_file_def blocks_def\<close>)
  then show ?thesis using q by (rule core_steady)
qed

section \<open>Whole transfers\<close>

definition write_started :: "byte list \<Rightarrow> byte list set \<Rightarrow> session \<Rightarrow> bool" where
  "write_started f P s \<longleftrightarrow> (\<exists>s0 i c. just_started s0 \<and> out s0 = [] \<and> admissible i c s0
     \<and> session_step i c s0 = Some (TFTP_SESSION_STATE_IDLE, s) \<and> \<not> should_close s \<and> writes_file f s)
     \<and> blocks_of f (unat (block_size s)) P"

definition write_running :: "byte list set \<Rightarrow> session \<Rightarrow> session \<Rightarrow> bool" where
  "write_running P s t \<longleftrightarrow> (\<exists>i c. admissible i c s \<and> delivers P c s
     \<and> session_step i c s = Some (TFTP_SESSION_STATE_IDLE, t))"

lemma write_started_inv:
  assumes "write_started f P s"
  shows "jobs_inv s \<and> write_inv f P s"
proof -
  obtain s0 i c where j: "just_started s0" and o0: "out s0 = []" and adm: "admissible i c s0"
    and step: "session_step i c s0 = Some (TFTP_SESSION_STATE_IDLE, s)" and sc: "\<not> should_close s"
    and wf: "writes_file f s" and P: "blocks_of f (unat (block_size s)) P"
    using assms unfolding write_started_def by blast
  obtain d v where h: "handle_start (s0\<lparr>dispatcher := d\<rparr>) = (Ret_True, v)" and w: "fetch_data v = (Ret_True, s)"
    and tk: "taken_inv EVENT_START (s0\<lparr>dispatcher := d\<rparr>)" and jobs: "jobs_inv s" and nf: "\<not> is_fetching_data v"
    and ns: "no_start s"
    by (rule first_step [OF j adm step]) blast
  have "request_type v = SESSION_WRITE_REQUEST" using fetch_frame [OF w] wf by (simp add: writes_file_def)
  then have sv: "s = v" using w by (simp add: fetch_data_def should_fetch_data_def)
  have "write_core f (unat (block_size v)) 0 v"
    by (rule core_start [OF _ _ _ _ _ h])
      (use just_started_fields [OF j] o0 sc wf tk in \<open>simp_all add: sv taken_inv_def\<close>)
  then show ?thesis using jobs ns nf P sv by (auto simp: write_inv_def)
qed

interpretation write_transfer: invariant_machine "write_started f P" "write_running P"
    "\<lambda>s. jobs_inv s \<and> write_inv f P s"
proof unfold_locales
  show "jobs_inv s \<and> write_inv f P s" if "write_started f P s" for s
    using that by (rule write_started_inv)
next
  fix s t
  assume inv: "jobs_inv s \<and> write_inv f P s" and "write_running P s t"
  then obtain i c where r: "admissible i c s" "delivers P c s" "session_step i c s = Some (TFTP_SESSION_STATE_IDLE, t)"
    unfolding write_running_def by blast
  have "jobs_inv t" by (rule session_step_jobs(1) [OF _ r(1,3) refl]) (use inv in simp)
  moreover have "write_inv f P t"
    using write_step [OF conjunct2 [OF inv] conjunct1 [OF inv] r(2,3)] by simp
  ultimately show "jobs_inv t \<and> write_inv f P t" by simp
qed

text \<open>What the invariant says of the world outside.\<close>

definition stores :: "byte list \<Rightarrow> session \<Rightarrow> bool" where
  "stores f t \<longleftrightarrow> 0 < unat (block_size t) \<and> (\<exists>k \<le> blocks f t. stored f k t \<and> acks_sent k t
     \<and> (should_close t \<and> \<not> error_occurred (stats t) \<longrightarrow> k = blocks f t))"

lemma core_stores: "write_core f bs k t \<Longrightarrow> stores f t"
  by (auto simp: write_core_def stores_def)

lemma stores_closed: "stores f (close_session t) = stores f t"
  by (simp add: stores_def close_session_def stored_def acks_sent_def blocks_def)

lemma reachable_stores: "reachable_from (write_started f P) (write_running P) s \<Longrightarrow> stores f s"
  using write_transfer.reachable_inv core_stores unfolding write_inv_def by blast

lemma next_stores:
  assumes "reachable_from (write_started f P) (write_running P) s" and "delivers P c s"
    and "session_step i c s = Some (st, t)" and "st \<noteq> TFTP_SESSION_STATE_ERROR" "st \<noteq> Session_Fault"
  shows "stores f t"
proof -
  have inv: "jobs_inv s \<and> write_inv f P s" by (rule write_transfer.reachable_inv [OF assms(1)])
  obtain w where w: "write_inv f P w" "if st = TFTP_SESSION_STATE_CLOSED then t = close_session w else t = w"
    using write_step [OF conjunct2 [OF inv] conjunct1 [OF inv] assms(2-5)] by blast
  have "stores f w" using w(1) core_stores unfolding write_inv_def by blast
  then show ?thesis using w(2) stores_closed by (auto split: if_splits)
qed

lemma whole_file_stored:
  assumes "stored f (blocks f t) t" and "0 < unat (block_size t)"
  shows "map_option contents (open_file t) = Some f"
  using assms chunks_make_file(1) [OF assms(2)] by (auto simp: stored_def blocks_def)

end
