(* ===== verification/Tftp_Worker.thy ===== *)
theory Tftp_Worker
  imports Tftp_Session_Loop
begin

text \<open>
  Jobs, workers and the pool: \<open>worker_job.c\<close>, \<open>worker.c\<close> and \<open>worker_pool.c\<close> of \<open>tftp/src/server/\<close>.

  The dispatcher of a worker is shared by its jobs; \<open>dispatcher\<close> of a session is the pointer to it, so
  a session is run on the worker's dispatcher, and the dispatcher it leaves is the worker's.
\<close>

section \<open>State\<close>

record worker_job =
  job_id :: u16
  job_active :: bool
  job_session :: session

record worker =
  worker_id :: u16
  max_jobs :: u16
  worker_dispatcher :: dispatcher
  available_jobs :: int
  worker_jobs :: "worker_job list"

datatype job_state = JOB_STATE_RUNNING | JOB_STATE_TERMINATED | JOB_STATE_ERROR | Job_Fault

fun job_state_of :: "tftp_session_state \<Rightarrow> job_state" where
  "job_state_of TFTP_SESSION_STATE_IDLE = JOB_STATE_RUNNING"
| "job_state_of TFTP_SESSION_STATE_CLOSED = JOB_STATE_TERMINATED"
| "job_state_of TFTP_SESSION_STATE_ERROR = JOB_STATE_ERROR"
| "job_state_of Session_Fault = Job_Fault"

definition job_handle_event :: "dispatcher_event \<Rightarrow> session \<Rightarrow> job_state \<times> session" where
  "job_handle_event e s = map_prod job_state_of id (tftp_session_handle_event e s)"

section \<open>Workers\<close>

text \<open>
  What \<open>worker_init\<close> acquires, in this order; the arguments say whether each acquisition succeeds.
  \<open>mem\<close> is the memory of the sessions, which \<open>calloc\<close> has filled with zeros.
\<close>

datatype worker_resource = Jobs_Array | Jobs_Semaphore | Worker_Dispatcher | Worker_Thread

definition worker_init ::
    "u16 \<Rightarrow> u16 \<Rightarrow> session \<Rightarrow> (worker_resource \<Rightarrow> bool) \<Rightarrow> bool \<times> worker \<times> worker_resource list" where
  "worker_init id' n mem ok =
     (let w = \<lparr>worker_id = id', max_jobs = n, worker_dispatcher = dispatcher_init, available_jobs = int (unat n),
               worker_jobs = map (\<lambda>i. \<lparr>job_id = word_of_nat i, job_active = False, job_session = mem\<rparr>) [0..<unat n]\<rparr>
      in if \<not> ok Jobs_Array then (False, w, [])
         else let held = [Jobs_Array]
         in if \<not> ok Jobs_Semaphore then (False, w, removeAll Jobs_Array held)
         else let held = held @ [Jobs_Semaphore]
         in if \<not> ok Worker_Dispatcher then (False, w, removeAll Jobs_Array (removeAll Jobs_Semaphore held))
         else let held = held @ [Worker_Dispatcher]
         in if \<not> ok Worker_Thread
            then (False, w, removeAll Jobs_Array (removeAll Jobs_Semaphore (removeAll Worker_Dispatcher held)))
         else (True, w, held @ [Worker_Thread]))"

text \<open>The condition of the loop of \<open>worker_routine\<close>.\<close>

definition worker_continues :: "bool \<Rightarrow> worker \<Rightarrow> bool" where
  "worker_continues shutdown w \<longleftrightarrow> \<not> shutdown \<or> pending_requests (worker_dispatcher w) \<noteq> 0"

text \<open>
  One event: request \<open>k\<close> in flight completes with \<open>c\<close>.  The result \<open>JOB_STATE_RUNNING\<close> continues the
  loop; a null event does so, too.  A job number out of range is a fault.
\<close>

definition worker_event :: "nat \<Rightarrow> completion \<Rightarrow> worker \<Rightarrow> (job_state \<times> worker) option" where
  "worker_event k c w =
     (let d = worker_dispatcher w
      in if \<not> k < length (ring d) then None
         else case fst (ring d ! k) of
           None \<Rightarrow> Some (JOB_STATE_RUNNING, w\<lparr>worker_dispatcher := snd (dispatcher_wait_event k 0 d)\<rparr>)
         | Some id' \<Rightarrow>
             let sid = unat (event_session id')
             in if \<not> sid < length (worker_jobs w) then Some (Job_Fault, w)
                else
                  let job = worker_jobs w ! sid; s = (job_session job)\<lparr>dispatcher := d\<rparr>
                  in case complete (snd (ring d ! k)) c s of
                       None \<Rightarrow> None
                     | Some (res, s1) \<Rightarrow>
                         (case dispatcher_wait_event k res (dispatcher s1) of
                            (None, d') \<Rightarrow> None
                          | (Some e, d') \<Rightarrow>
                              (case job_handle_event e (s1\<lparr>dispatcher := d'\<rparr>) of
                                 (st, s2) \<Rightarrow>
                                   Some (st, w\<lparr>worker_dispatcher := dispatcher s2,
                                     worker_jobs := (worker_jobs w)[sid := job\<lparr>job_session := s2,
                                       job_active := job_active job \<and> st \<noteq> JOB_STATE_TERMINATED\<rparr>]\<rparr>))))"

section \<open>The pool\<close>

text \<open>
  The load of a worker is computed as an \<open>int\<close> and stored in a \<open>size_t\<close>; \<open>SIZE_MAX\<close> is \<open>- 1\<close>.
\<close>

definition busy_jobs :: "worker \<Rightarrow> u64" where
  "busy_jobs w = word_of_int (int (unat (max_jobs w)) - available_jobs w)"

fun least_busy_from :: "nat \<Rightarrow> nat \<Rightarrow> u64 \<Rightarrow> worker list \<Rightarrow> nat" where
  "least_busy_from i best size' [] = best"
| "least_busy_from i best size' (w # ws) =
     (if busy_jobs w = 0 then i
      else if busy_jobs w < size' then least_busy_from (i + 1) i (busy_jobs w) ws
      else least_busy_from (i + 1) best size' ws)"

definition get_least_busy_worker :: "worker list \<Rightarrow> nat" where
  "get_least_busy_worker ws = least_busy_from 0 0 (- 1) ws"

text \<open>The two halves of \<open>worker_pool_get_job\<close>: \<open>sem_wait\<close>, which blocks at zero, and the search.\<close>

definition take_slot :: "worker \<Rightarrow> worker option" where
  "take_slot w = (if 0 < available_jobs w then Some (w\<lparr>available_jobs := available_jobs w - 1\<rparr>) else None)"

definition post_slot :: "worker \<Rightarrow> worker" where
  "post_slot w = w\<lparr>available_jobs := available_jobs w + 1\<rparr>"

definition worker_pool_start_job :: "bool \<Rightarrow> nat \<Rightarrow> worker \<Rightarrow> bool \<times> worker" where
  "worker_pool_start_job accepted j w =
     (let job = worker_jobs w ! j;
          start = event_id (session_id (job_session job)) EVENT_START
      in case dispatcher_submit accepted (Some start) (worker_dispatcher w) of
           (True, d) \<Rightarrow> (True, w\<lparr>worker_dispatcher := d, worker_jobs := (worker_jobs w)[j := job\<lparr>job_active := True\<rparr>]\<rparr>)
         | (False, d) \<Rightarrow> (False, w\<lparr>worker_dispatcher := d, worker_jobs := (worker_jobs w)[j := job\<lparr>job_active := False\<rparr>]\<rparr>))"

text \<open>
  \<open>worker_pool_init\<close>: worker \<open>i\<close> is initialised with the outcomes \<open>ok i\<close>.  When one fails the workers before
  it are to be destroyed, while \<open>shutdown\<close> is false.
\<close>

datatype pool_result = Pool_Ready "worker list" | Pool_No_Memory | Pool_Abandoned "worker list"

fun pool_init_loop ::
    "nat \<Rightarrow> nat \<Rightarrow> u16 \<Rightarrow> session \<Rightarrow> (nat \<Rightarrow> worker_resource \<Rightarrow> bool) \<Rightarrow> worker list \<Rightarrow> pool_result" where
  "pool_init_loop i 0 n mem ok ws = Pool_Ready ws"
| "pool_init_loop i (Suc m) n mem ok ws =
     (case worker_init (word_of_nat i) n mem (ok i) of
        (True, w, held) \<Rightarrow> pool_init_loop (i + 1) m n mem ok (ws @ [w])
      | (False, w, held) \<Rightarrow> Pool_Abandoned ws)"

definition worker_pool_init ::
    "bool \<Rightarrow> u16 \<Rightarrow> u16 \<Rightarrow> session \<Rightarrow> (nat \<Rightarrow> worker_resource \<Rightarrow> bool) \<Rightarrow> pool_result" where
  "worker_pool_init memory workers_number worker_max_jobs mem ok =
     (if \<not> memory then Pool_No_Memory
      else pool_init_loop 0 (unat workers_number) worker_max_jobs mem ok [])"

section \<open>Requests of one session\<close>

text \<open>What a session sees of the shared dispatcher: the requests that carry its number.\<close>

definition own_requests :: "u16 \<Rightarrow> dispatcher \<Rightarrow> (u64 option \<times> request) list" where
  "own_requests sid d = filter (\<lambda>x. \<exists>i. fst x = Some i \<and> event_session i = sid) (ring d)"

lemma in_flight_of_own: "in_flight_of sid d = length (own_requests sid d)"
  by (simp add: in_flight_of_def own_requests_def)

lemma in_flight_own: "in_flight (event_id sid e) d = length (filter (\<lambda>x. fst x = Some (event_id sid e)) (own_requests sid d))"
proof -
  have "filter (\<lambda>x. fst x = Some (event_id sid e)) (own_requests sid d) = filter (\<lambda>x. fst x = Some (event_id sid e)) (ring d)"
    unfolding own_requests_def filter_filter by (rule filter_cong) (auto simp: event_session_id)
  then show ?thesis by (simp add: in_flight_def)
qed

lemma well_tagged_own:
  "well_tagged s \<longleftrightarrow> (\<forall>x \<in> set (own_requests (session_id s) (dispatcher s)).
     \<exists>e. fst x = Some (event_id (session_id s) e) \<and> request_fits e (snd x))"
  unfolding well_tagged_def own_requests_def by fastforce

lemma jobs_inv_own:
  assumes "own_requests (session_id s) d = own_requests (session_id s) (dispatcher s)"
  shows "jobs_inv (s\<lparr>dispatcher := d\<rparr>) \<longleftrightarrow> jobs_inv s"
  using assms by (simp add: jobs_inv_def Let_def well_tagged_own in_flight_of_own in_flight_own)

lemma appended_tagged:
  assumes "appended E s t"
  shows "session_id t = session_id s \<and> (\<exists>new. ring (dispatcher t) = ring (dispatcher s) @ new
    \<and> (\<forall>x \<in> set new. \<exists>i. fst x = Some i \<and> event_session i = session_id s))"
proof -
  obtain new where new: "ring (dispatcher t) = ring (dispatcher s) @ new"
    and tag: "\<forall>x \<in> set new. \<exists>e \<in> E. fst x = Some (event_id (session_id s) e) \<and> request_fits e (snd x)"
    using assms by (auto simp: appended_def)
  have "\<forall>x \<in> set new. \<exists>i. fst x = Some i \<and> event_session i = session_id s"
    using tag event_session_id by blast
  then show ?thesis using assms new by (auto simp: appended_def)
qed

lemma session_step_ring:
  assumes inv: "jobs_inv s" and step: "session_step k c s = Some (st, t)"
    and st: "st = TFTP_SESSION_STATE_IDLE \<or> st = TFTP_SESSION_STATE_CLOSED"
  shows "session_id t = session_id s"
    and "\<exists>new. ring (dispatcher t) = take k (ring (dispatcher s)) @ drop (Suc k) (ring (dispatcher s)) @ new
      \<and> (\<forall>x \<in> set new. \<exists>i. fst x = Some i \<and> event_session i = session_id s)"
proof -
  from step obtain res s1 e d where k: "k < length (ring (dispatcher s))"
    and c: "complete (snd (ring (dispatcher s) ! k)) c s = Some (res, s1)"
    and w: "dispatcher_wait_event k res (dispatcher s1) = (Some e, d)"
    and h: "tftp_session_handle_event e (s1\<lparr>dispatcher := d\<rparr>) = (st, t)"
    by (auto simp: session_step_def split: if_splits option.splits prod.splits)
  have j: "same_jobs s s1" using complete_same_jobs [OF c] by simp
  have d: "ring d = take k (ring (dispatcher s)) @ drop (Suc k) (ring (dispatcher s))"
    using w j by (auto simp: dispatcher_wait_event_def same_jobs_def)
  let ?s = "s1\<lparr>dispatcher := d\<rparr>"
  obtain ev' where g: "get_event (ev_id e) = Some ev'"
    using h st by (auto simp: tftp_session_handle_event_def split: option.splits)
  obtain r u where ch: "chain [dispatch_event ev' e, fetch_data] ?s = (r, u)" by fastforce
  have r: "r = Ret_True" and t: "t = u \<or> t = close_session u"
    using h st unfolding tftp_session_handle_event_def g option.case ch
    by (cases r; auto split: if_splits)+
  obtain v where v: "dispatch_event ev' e ?s = (Ret_True, v)" and u: "fetch_data v = (Ret_True, u)"
    using ch unfolding r by (rule chain2_TrueE)
  have a1: "appended (UNIV - {EVENT_START, EVENT_DATA_AVAILABLE}) (event_taken ev' ?s) v"
    using dispatch_event_appended [of ev' ?s e] v by simp
  have a2: "appended {EVENT_DATA_AVAILABLE} (v\<lparr>is_fetching_data := is_fetching_data v \<or> should_fetch_data v\<rparr>) u"
    using fetch_data_appended [of v] u by simp
  obtain n1 where n1: "ring (dispatcher v) = ring d @ n1" "session_id v = session_id s"
    "\<forall>x \<in> set n1. \<exists>i. fst x = Some i \<and> event_session i = session_id s"
    using appended_tagged [OF a1] j unfolding event_taken_fields by (auto simp: same_jobs_def)
  obtain n2 where n2: "ring (dispatcher u) = ring (dispatcher v) @ n2" "session_id u = session_id v"
    "\<forall>x \<in> set n2. \<exists>i. fst x = Some i \<and> event_session i = session_id v"
    using appended_tagged [OF a2] by auto
  have tu: "dispatcher t = dispatcher u" "session_id t = session_id u"
    using t by (auto simp: close_session_def)
  show "session_id t = session_id s" using tu n1 n2 by simp
  show "\<exists>new. ring (dispatcher t) = take k (ring (dispatcher s)) @ drop (Suc k) (ring (dispatcher s)) @ new
      \<and> (\<forall>x \<in> set new. \<exists>i. fst x = Some i \<and> event_session i = session_id s)"
    using n1 n2 d by (intro exI [of _ "n1 @ n2"]) (auto simp: tu)
qed

lemma own_requests_removed:
  assumes "k < length (ring d)" and "fst (ring d ! k) = Some i" and "event_session i \<noteq> sid"
    and "ring d' = take k (ring d) @ drop (Suc k) (ring d) @ new"
    and "\<forall>x \<in> set new. \<exists>i'. fst x = Some i' \<and> event_session i' = event_session i"
  shows "own_requests sid d' = own_requests sid d"
proof -
  let ?P = "\<lambda>x. \<exists>i. fst x = Some i \<and> event_session i = sid"
  have "ring d = take k (ring d) @ ring d ! k # drop (Suc k) (ring d)" by (rule id_take_nth_drop [OF assms(1)])
  then have "filter ?P (ring d) = filter ?P (take k (ring d)) @ filter ?P (ring d ! k # drop (Suc k) (ring d))"
    by (metis filter_append)
  moreover have "filter ?P new = []" using assms(3,5) by (auto simp: filter_empty_conv)
  ultimately show ?thesis using assms(2-4) by (simp add: own_requests_def)
qed

section \<open>The invariant of a worker\<close>

text \<open>
  A job is active exactly while requests of its session may be in flight: every request in flight
  belongs to an active job, and the session of an active job keeps its accounting.
\<close>

definition job_sound :: "dispatcher \<Rightarrow> nat \<Rightarrow> worker_job \<Rightarrow> bool" where
  "job_sound d j job \<longleftrightarrow> job_id job = word_of_nat j
     \<and> (job_active job \<longrightarrow> session_id (job_session job) = word_of_nat j \<and> jobs_inv ((job_session job)\<lparr>dispatcher := d\<rparr>))
     \<and> (\<not> job_active job \<longrightarrow> own_requests (word_of_nat j) d = [])"

definition worker_sound :: "worker \<Rightarrow> bool" where
  "worker_sound w \<longleftrightarrow> length (worker_jobs w) = unat (max_jobs w)
     \<and> (\<forall>j < length (worker_jobs w). job_sound (worker_dispatcher w) j (worker_jobs w ! j))
     \<and> (\<forall>x \<in> set (ring (worker_dispatcher w)). \<forall>i. fst x = Some i \<longrightarrow> unat (event_session i) < length (worker_jobs w))"

definition free_jobs :: "worker \<Rightarrow> nat" where
  "free_jobs w = length (filter (\<lambda>job. \<not> job_active job) (worker_jobs w))"

definition few_in_flight :: "worker \<Rightarrow> bool" where
  "few_in_flight w \<longleftrightarrow> (\<forall>sid. in_flight_of sid (worker_dispatcher w) < 256)"

text \<open>The condition of \<open>admissible\<close> for the session whose request completes.\<close>

definition worker_admissible :: "nat \<Rightarrow> completion \<Rightarrow> worker \<Rightarrow> bool" where
  "worker_admissible k c w =
     (case fst (ring (worker_dispatcher w) ! k) of None \<Rightarrow> True
      | Some i \<Rightarrow> admissible k c ((job_session (worker_jobs w ! unat (event_session i)))\<lparr>dispatcher := worker_dispatcher w\<rparr>))"

lemma word_of_nat_job: "j < length (worker_jobs w) \<Longrightarrow> worker_sound w \<Longrightarrow> unat (word_of_nat j :: u16) = j"
  using unsigned_less [of "max_jobs w", where ?'a = nat]
  by (simp add: worker_sound_def unsigned_of_nat take_bit_nat_eq_self)

lemma active_owns:
  assumes "worker_sound w" and "x \<in> set (ring (worker_dispatcher w))" and "fst x = Some i"
  shows "job_active (worker_jobs w ! unat (event_session i))"
proof (rule ccontr)
  let ?j = "unat (event_session i)"
  assume inactive: "\<not> job_active (worker_jobs w ! ?j)"
  have "?j < length (worker_jobs w)" using assms by (auto simp: worker_sound_def)
  then have "own_requests (word_of_nat ?j) (worker_dispatcher w) = []"
    using assms(1) inactive by (auto simp: worker_sound_def job_sound_def)
  then show False using assms(2,3) by (auto simp: own_requests_def filter_empty_conv)
qed

text \<open>An event is a step of the session it is for.\<close>

lemma worker_event_session:
  assumes sound: "worker_sound w" and run: "worker_event k c w = Some (st, w')"
    and i: "fst (ring (worker_dispatcher w) ! k) = Some i"
  defines "j \<equiv> unat (event_session i)"
  obtains st' t where "session_step k c ((job_session (worker_jobs w ! j))\<lparr>dispatcher := worker_dispatcher w\<rparr>) = Some (st', t)"
    and "st = job_state_of st'" and "j < length (worker_jobs w)" and "job_active (worker_jobs w ! j)"
    and "w' = w\<lparr>worker_dispatcher := dispatcher t,
           worker_jobs := (worker_jobs w)[j := (worker_jobs w ! j)\<lparr>job_session := t,
             job_active := st \<noteq> JOB_STATE_TERMINATED\<rparr>]\<rparr>"
    and "k < length (ring (worker_dispatcher w))"
proof -
  let ?d = "worker_dispatcher w" and ?job = "worker_jobs w ! j"
  let ?s = "(job_session ?job)\<lparr>dispatcher := ?d\<rparr>"
  have k: "k < length (ring ?d)" using run by (auto simp: worker_event_def Let_def split: if_splits)
  then have x: "ring ?d ! k \<in> set (ring ?d)" by simp
  have j: "j < length (worker_jobs w)" using sound x i unfolding worker_sound_def j_def by blast
  have act: "job_active ?job" using active_owns [OF sound x i] by (simp add: j_def)
  then have sid: "session_id ?s = event_session i"
    using sound j by (simp add: worker_sound_def job_sound_def) (simp add: j_def)
  obtain res s1 e d' st' t where c: "complete (snd (ring ?d ! k)) c ?s = Some (res, s1)"
    and e: "dispatcher_wait_event k res (dispatcher s1) = (Some e, d')"
    and h: "tftp_session_handle_event e (s1\<lparr>dispatcher := d'\<rparr>) = (st', t)" "st = job_state_of st'"
    and w': "w' = w\<lparr>worker_dispatcher := dispatcher t,
           worker_jobs := (worker_jobs w)[j := ?job\<lparr>job_session := t, job_active := job_active ?job \<and> st \<noteq> JOB_STATE_TERMINATED\<rparr>]\<rparr>"
    using run k i j
    by (auto simp: worker_event_def job_handle_event_def j_def Let_def map_prod_def
        split: option.splits prod.splits)
  have d1: "dispatcher s1 = ?d" using complete_same_jobs [OF c] by (simp add: same_jobs_def)
  then have "ev_id e = i" using e i by (auto simp: dispatcher_wait_event_def split: if_splits)
  then have "session_step k c ?s = Some (st', t)"
    using c e h(1) k sid by (simp add: session_step_def)
  then show thesis using that h(2) j act w' k by simp
qed

text \<open>Conversely, a step of the session of a job is an event of its worker.\<close>

lemma session_step_worker_event:
  assumes "session_step k c ((job_session (worker_jobs w ! j))\<lparr>dispatcher := worker_dispatcher w\<rparr>) = Some (st, t)"
    and "j = unat (session_id (job_session (worker_jobs w ! j)))" and "j < length (worker_jobs w)"
  shows "worker_event k c w = Some (job_state_of st, w\<lparr>worker_dispatcher := dispatcher t,
    worker_jobs := (worker_jobs w)[j := (worker_jobs w ! j)\<lparr>job_session := t,
      job_active := job_active (worker_jobs w ! j) \<and> job_state_of st \<noteq> JOB_STATE_TERMINATED\<rparr>]\<rparr>)"
proof -
  let ?d = "worker_dispatcher w" and ?s = "(job_session (worker_jobs w ! j))\<lparr>dispatcher := worker_dispatcher w\<rparr>"
  obtain res s1 e d where k: "k < length (ring ?d)" and c: "complete (snd (ring ?d ! k)) c ?s = Some (res, s1)"
    and e: "dispatcher_wait_event k res (dispatcher s1) = (Some e, d)"
    and sid: "event_session (ev_id e) = session_id ?s"
    and h: "tftp_session_handle_event e (s1\<lparr>dispatcher := d\<rparr>) = (st, t)"
    using assms(1) by (auto simp: session_step_def split: if_splits option.splits prod.splits)
  have d1: "dispatcher s1 = ?d" using complete_same_jobs [OF c] by (simp add: same_jobs_def)
  then have i: "fst (ring ?d ! k) = Some (ev_id e)"
    using e by (auto simp: dispatcher_wait_event_def split: if_splits)
  have j: "unat (event_session (ev_id e)) = j" using sid assms(2) by simp
  show ?thesis
    using k i j assms(3) c e h by (simp add: worker_event_def Let_def job_handle_event_def)
qed

lemma free_jobs_update:
  assumes "j < length (worker_jobs w)" and "worker_jobs w' = (worker_jobs w)[j := job]"
  shows "free_jobs w' + (if job_active (worker_jobs w ! j) then 0 else 1) = free_jobs w + (if job_active job then 0 else 1)"
proof -
  let ?js = "worker_jobs w" and ?P = "\<lambda>job. \<not> job_active job"
  have "?js = take j ?js @ ?js ! j # drop (Suc j) ?js" by (rule id_take_nth_drop [OF assms(1)])
  then have "filter ?P ?js = filter ?P (take j ?js) @ filter ?P (?js ! j # drop (Suc j) ?js)"
    by (metis filter_append)
  moreover have "worker_jobs w' = take j ?js @ job # drop (Suc j) ?js"
    using assms by (simp add: upd_conv_take_nth_drop)
  ultimately show ?thesis by (simp add: free_jobs_def)
qed

lemma job_sound_own:
  "own_requests (word_of_nat j) d' = own_requests (word_of_nat j) d \<Longrightarrow> job_sound d' j job = job_sound d j job"
  using jobs_inv_own [of "(job_session job)\<lparr>dispatcher := d\<rparr>" d'] by (auto simp: job_sound_def)

text \<open>Replacing the job of one session, whose requests alone have changed.\<close>

lemma worker_sound_update:
  assumes sound: "worker_sound w" and j: "j < length (worker_jobs w)" and job: "job_sound d' j job"
    and others: "\<And>sid. sid \<noteq> word_of_nat j \<Longrightarrow> own_requests sid d' = own_requests sid (worker_dispatcher w)"
    and tags: "\<And>x i. x \<in> set (ring d') \<Longrightarrow> fst x = Some i \<Longrightarrow> x \<in> set (ring (worker_dispatcher w)) \<or> event_session i = word_of_nat j"
    and w': "worker_jobs w' = (worker_jobs w)[j := job]" "worker_dispatcher w' = d'" "max_jobs w' = max_jobs w"
  shows "worker_sound w'"
proof -
  have "job_sound d' m ((worker_jobs w)[j := job] ! m)" if m: "m < length (worker_jobs w)" for m
  proof (cases "m = j")
    case True
    then show ?thesis using j job by simp
  next
    case False
    have "(word_of_nat m :: u16) \<noteq> word_of_nat j"
      using word_of_nat_job [OF m sound] word_of_nat_job [OF j sound] False by metis
    then have own: "own_requests (word_of_nat m) d' = own_requests (word_of_nat m) (worker_dispatcher w)" by (rule others)
    have "job_sound (worker_dispatcher w) m (worker_jobs w ! m)" using sound m by (simp add: worker_sound_def)
    then have "job_sound d' m (worker_jobs w ! m)" unfolding job_sound_own [OF own] .
    then show ?thesis using False by simp
  qed
  moreover have "unat (event_session i) < length (worker_jobs w)" if "x \<in> set (ring d')" "fst x = Some i" for x i
    using tags [OF that] that sound word_of_nat_job [OF j sound] j by (auto simp: worker_sound_def)
  ultimately show ?thesis using sound w' by (simp add: worker_sound_def)
qed

lemma worker_event_sound:
  assumes sound: "worker_sound w" and run: "worker_event k c w = Some (st, w')"
    and adm: "worker_admissible k c w" and few: "few_in_flight w'"
    and st: "st = JOB_STATE_RUNNING \<or> st = JOB_STATE_TERMINATED"
  shows "worker_sound w'"
    and "free_jobs w' = free_jobs w + (if st = JOB_STATE_TERMINATED then 1 else 0)"
    and "length (worker_jobs w') = length (worker_jobs w)" and "available_jobs w' = available_jobs w"
    and "max_jobs w' = max_jobs w"
    and "m < length (worker_jobs w) \<Longrightarrow> \<not> job_active (worker_jobs w ! m) \<Longrightarrow> worker_jobs w' ! m = worker_jobs w ! m"
proof -
  let ?d = "worker_dispatcher w"
  have k: "k < length (ring ?d)" using run by (auto simp: worker_event_def Let_def split: if_splits)
  have all: "worker_sound w' \<and> free_jobs w' = free_jobs w + (if st = JOB_STATE_TERMINATED then 1 else 0)
    \<and> length (worker_jobs w') = length (worker_jobs w) \<and> available_jobs w' = available_jobs w \<and> max_jobs w' = max_jobs w
    \<and> (m < length (worker_jobs w) \<longrightarrow> \<not> job_active (worker_jobs w ! m) \<longrightarrow> worker_jobs w' ! m = worker_jobs w ! m)"
  proof (cases "fst (ring ?d ! k)")
    case None
    then have w': "w' = w\<lparr>worker_dispatcher := snd (dispatcher_wait_event k 0 ?d)\<rparr>" "st = JOB_STATE_RUNNING"
      using run k by (simp_all add: worker_event_def Let_def)
    have r: "ring (snd (dispatcher_wait_event k 0 ?d)) = take k (ring ?d) @ drop (Suc k) (ring ?d)"
      by (simp add: dispatcher_wait_event_def)
    have sub: "set (ring (snd (dispatcher_wait_event k 0 ?d))) \<subseteq> set (ring ?d)"
      unfolding r by (auto dest: in_set_takeD in_set_dropD)
    have own: "own_requests sid (snd (dispatcher_wait_event k 0 ?d)) = own_requests sid ?d" for sid
    proof -
      let ?P = "\<lambda>x. \<exists>i. fst x = Some i \<and> event_session i = sid"
      have "ring ?d = take k (ring ?d) @ ring ?d ! k # drop (Suc k) (ring ?d)" by (rule id_take_nth_drop [OF k])
      then have "filter ?P (ring ?d) = filter ?P (take k (ring ?d)) @ filter ?P (ring ?d ! k # drop (Suc k) (ring ?d))"
        by (metis filter_append)
      then show ?thesis using None by (simp add: own_requests_def r)
    qed
    have "worker_sound w'"
      using sound job_sound_own [OF own] sub unfolding w' worker_sound_def by (auto dest: subsetD)
    then show ?thesis using w' by (simp add: free_jobs_def)
  next
    case (Some i)
    define j where "j = unat (event_session i)"
    obtain st' t where step: "session_step k c ((job_session (worker_jobs w ! j))\<lparr>dispatcher := ?d\<rparr>) = Some (st', t)"
      and st': "st = job_state_of st'" and j: "j < length (worker_jobs w)" and act: "job_active (worker_jobs w ! j)"
      and w': "w' = w\<lparr>worker_dispatcher := dispatcher t, worker_jobs := (worker_jobs w)[j := (worker_jobs w ! j)\<lparr>job_session := t,
             job_active := st \<noteq> JOB_STATE_TERMINATED\<rparr>]\<rparr>"
      by (rule worker_event_session [OF sound run Some, folded j_def])
    let ?s = "(job_session (worker_jobs w ! j))\<lparr>dispatcher := ?d\<rparr>" and ?job = "(worker_jobs w ! j)\<lparr>job_session := t,
             job_active := st \<noteq> JOB_STATE_TERMINATED\<rparr>"
    have js: "job_sound ?d j (worker_jobs w ! j)" using sound j by (simp add: worker_sound_def)
    then have inv: "jobs_inv ?s" and sid: "session_id ?s = word_of_nat j" using act by (simp_all add: job_sound_def)
    have tag: "event_session i = word_of_nat j" by (simp add: j_def)
    have st'': "st' = TFTP_SESSION_STATE_IDLE \<or> st' = TFTP_SESSION_STATE_CLOSED" using st st' by (cases st') auto
    have adm': "admissible k c ?s" using adm Some by (simp add: worker_admissible_def j_def)
    note jobs = session_step_jobs [OF inv adm' step]
    obtain new where new: "ring (dispatcher t) = take k (ring ?d) @ drop (Suc k) (ring ?d) @ new"
      "\<forall>x \<in> set new. \<exists>i. fst x = Some i \<and> event_session i = session_id ?s"
      using session_step_ring(2) [OF inv step st''] by auto
    have tid: "session_id t = word_of_nat j" using session_step_ring(1) [OF inv step st''] sid by simp
    have "job_sound (dispatcher t) j ?job"
    proof (cases "st' = TFTP_SESSION_STATE_IDLE")
      case True
      then show ?thesis using jobs(1) js tid st' by (simp add: job_sound_def)
    next
      case False
      then have cl: "st' = TFTP_SESSION_STATE_CLOSED" using st'' by simp
      have "in_flight_of (word_of_nat j) (dispatcher t) < 256" using few w' by (simp add: few_in_flight_def)
      moreover have "of_nat (in_flight_of (word_of_nat j) (dispatcher t)) = (0 :: u8)" using jobs(2) [OF cl] tid by simp
      ultimately have "in_flight_of (word_of_nat j) (dispatcher t) = 0"
        by (auto simp: word_of_nat_eq_0_iff elim!: dvdE)
      then show ?thesis using cl st' js by (simp add: job_sound_def in_flight_of_own)
    qed
    then have "worker_sound w'"
    proof (rule worker_sound_update [OF sound j])
      show "own_requests sid' (dispatcher t) = own_requests sid' ?d" if "sid' \<noteq> word_of_nat j" for sid'
        by (rule own_requests_removed [OF k Some _ new(1)]) (use new(2) sid tag that in auto)
      show "x \<in> set (ring ?d) \<or> event_session i' = word_of_nat j"
        if "x \<in> set (ring (dispatcher t))" "fst x = Some i'" for x i'
        using that new sid by (auto dest: in_set_takeD in_set_dropD)
    qed (simp_all add: w')
    moreover have "free_jobs w' = free_jobs w + (if st = JOB_STATE_TERMINATED then 1 else 0)"
      using free_jobs_update [OF j, of w' ?job] act w' by simp
    moreover have "worker_jobs w' ! m = worker_jobs w ! m" if "\<not> job_active (worker_jobs w ! m)"
    proof -
      have "m \<noteq> j" using act that by auto
      then show ?thesis by (simp add: w')
    qed
    ultimately show ?thesis using w' by simp
  qed
  then show "worker_sound w'" "free_jobs w' = free_jobs w + (if st = JOB_STATE_TERMINATED then 1 else 0)"
    "length (worker_jobs w') = length (worker_jobs w)" "available_jobs w' = available_jobs w" "max_jobs w' = max_jobs w"
    "m < length (worker_jobs w) \<Longrightarrow> \<not> job_active (worker_jobs w ! m) \<Longrightarrow> worker_jobs w' ! m = worker_jobs w ! m"
    by auto
qed

section \<open>Starting a job\<close>

text \<open>What \<open>tftp_server_start\<close> does to the job it has got, before and after a request has arrived.\<close>

definition prepare_job :: "tftp_server_info \<Rightarrow> session \<Rightarrow> nat \<Rightarrow> worker \<Rightarrow> worker" where
  "prepare_job info mem j w =
     (let job = worker_jobs w ! j
      in w\<lparr>worker_jobs := (worker_jobs w)[j := job\<lparr>job_session :=
             tftp_session_init (job_id job) info (worker_dispatcher w) mem\<rparr>]\<rparr>)"

definition store_request :: "tftp_peer_message \<Rightarrow> nat \<Rightarrow> worker \<Rightarrow> worker" where
  "store_request msg j w =
     (let job = worker_jobs w ! j
      in w\<lparr>worker_jobs := (worker_jobs w)[j := job\<lparr>job_session := (job_session job)\<lparr>request_args := msg\<rparr>\<rparr>]\<rparr>)"

definition prepared :: "worker_job \<Rightarrow> bool" where
  "prepared job \<longleftrightarrow> \<not> job_active job
     \<and> (\<exists>info d mem req. job_session job = (tftp_session_init (job_id job) info d mem)\<lparr>request_args := req\<rparr>)"

lemma inactive_sound:
  "job_sound d j job \<Longrightarrow> \<not> job_active job \<Longrightarrow> job_id job' = job_id job \<Longrightarrow> \<not> job_active job' \<Longrightarrow> job_sound d j job'"
  by (simp add: job_sound_def)

lemma replace_inactive:
  assumes "worker_sound w" and "j < length (worker_jobs w)" and "\<not> job_active (worker_jobs w ! j)"
    and "job_id job = job_id (worker_jobs w ! j)" and "\<not> job_active job"
  shows "worker_sound (w\<lparr>worker_jobs := (worker_jobs w)[j := job]\<rparr>)"
    and "free_jobs (w\<lparr>worker_jobs := (worker_jobs w)[j := job]\<rparr>) = free_jobs w"
proof -
  have "job_sound (worker_dispatcher w) j (worker_jobs w ! j)" using assms(1,2) by (simp add: worker_sound_def)
  then have "job_sound (worker_dispatcher w) j job" by (rule inactive_sound) (use assms in simp_all)
  then show "worker_sound (w\<lparr>worker_jobs := (worker_jobs w)[j := job]\<rparr>)"
    by (rule worker_sound_update [OF assms(1,2)]) simp_all
  show "free_jobs (w\<lparr>worker_jobs := (worker_jobs w)[j := job]\<rparr>) = free_jobs w"
    using free_jobs_update [OF assms(2), of "w\<lparr>worker_jobs := (worker_jobs w)[j := job]\<rparr>" job] assms(3,5) by simp
qed

lemma prepare_job_sound:
  assumes "worker_sound w" and "j < length (worker_jobs w)" and "\<not> job_active (worker_jobs w ! j)"
  shows "worker_sound (prepare_job info mem j w)" and "free_jobs (prepare_job info mem j w) = free_jobs w"
    and "prepared (worker_jobs (prepare_job info mem j w) ! j)"
proof -
  let ?s = "tftp_session_init (job_id (worker_jobs w ! j)) info (worker_dispatcher w) mem"
  show "worker_sound (prepare_job info mem j w)" "free_jobs (prepare_job info mem j w) = free_jobs w"
    using replace_inactive [OF assms, of "(worker_jobs w ! j)\<lparr>job_session := ?s\<rparr>"] assms(3)
    by (simp_all add: prepare_job_def Let_def)
  have "\<exists>info' d' mem' req. ?s = (tftp_session_init (job_id (worker_jobs w ! j)) info' d' mem')\<lparr>request_args := req\<rparr>"
    by (rule exI [of _ info], rule exI [of _ "worker_dispatcher w"], rule exI [of _ mem], rule exI [of _ "request_args ?s"]) simp
  then show "prepared (worker_jobs (prepare_job info mem j w) ! j)"
    using assms(2,3) by (simp add: prepared_def prepare_job_def Let_def)
qed

lemma store_request_sound:
  assumes "worker_sound w" and "j < length (worker_jobs w)" and p: "prepared (worker_jobs w ! j)"
  shows "worker_sound (store_request msg j w)" and "free_jobs (store_request msg j w) = free_jobs w"
    and "prepared (worker_jobs (store_request msg j w) ! j)"
proof -
  let ?job = "(worker_jobs w ! j)\<lparr>job_session := (job_session (worker_jobs w ! j))\<lparr>request_args := msg\<rparr>\<rparr>"
  have i: "\<not> job_active (worker_jobs w ! j)" using p by (simp add: prepared_def)
  show "worker_sound (store_request msg j w)" "free_jobs (store_request msg j w) = free_jobs w"
    using replace_inactive [OF assms(1,2) i, of ?job] i by (simp_all add: store_request_def Let_def)
  have "prepared ?job" using p by (fastforce simp: prepared_def)
  then show "prepared (worker_jobs (store_request msg j w) ! j)" using assms(2) by (simp add: store_request_def Let_def)
qed

lemma start_job_sound:
  assumes sound: "worker_sound w" and j: "j < length (worker_jobs w)" and p: "prepared (worker_jobs w ! j)"
    and run: "worker_pool_start_job accepted j w = (ok, w')"
  shows "worker_sound w'" and "free_jobs w' + (if ok then 1 else 0) = free_jobs w"
    and "length (worker_jobs w') = length (worker_jobs w)" and "available_jobs w' = available_jobs w"
    and "max_jobs w' = max_jobs w"
proof -
  let ?job = "worker_jobs w ! j" and ?d = "worker_dispatcher w"
  have inactive: "\<not> job_active ?job" using p by (simp add: prepared_def)
  have js: "job_sound ?d j ?job" using sound j by (simp add: worker_sound_def)
  then have none: "own_requests (word_of_nat j) ?d = []" and id': "job_id ?job = word_of_nat j"
    using inactive by (simp_all add: job_sound_def)
  have all: "worker_sound w' \<and> free_jobs w' + (if ok then 1 else 0) = free_jobs w
    \<and> length (worker_jobs w') = length (worker_jobs w) \<and> available_jobs w' = available_jobs w \<and> max_jobs w' = max_jobs w"
  proof (cases accepted)
    case False
    then have "w' = w\<lparr>worker_jobs := (worker_jobs w)[j := ?job\<lparr>job_active := False\<rparr>]\<rparr>" "\<not> ok"
      using run by (simp_all add: worker_pool_start_job_def dispatcher_submit_def submit_request_def Let_def)
    then show ?thesis using replace_inactive [OF sound j inactive, of "?job\<lparr>job_active := False\<rparr>"] by simp
  next
    case True
    obtain info d0 mem req where s: "job_session ?job = (tftp_session_init (word_of_nat j) info d0 mem)\<lparr>request_args := req\<rparr>"
      using p id' by (auto simp: prepared_def)
    let ?e = "event_id (word_of_nat j) EVENT_START"
    let ?d' = "snd (dispatcher_submit True (Some ?e) ?d)"
    have sid: "session_id (job_session ?job) = word_of_nat j" by (simp add: s tftp_session_init_def)
    have w': "w' = w\<lparr>worker_dispatcher := ?d', worker_jobs := (worker_jobs w)[j := ?job\<lparr>job_active := True\<rparr>]\<rparr>" "ok"
      using run True sid by (simp_all add: worker_pool_start_job_def dispatcher_submit_def submit_request_def Let_def)
    have r: "ring ?d' = ring ?d @ [(Some ?e, Req_Nop)]" by (simp add: dispatcher_submit_def submit_request_def)
    have "just_started ((job_session ?job)\<lparr>dispatcher := ?d'\<rparr>)"
      unfolding just_started_def
    proof (intro exI conjI)
      show "in_flight_of (session_id ((job_session ?job)\<lparr>dispatcher := ?d'\<rparr>)) ?d = 0"
        using none sid by (simp add: in_flight_of_own)
      show "(job_session ?job)\<lparr>dispatcher := ?d'\<rparr> =
          (tftp_session_init (session_id ((job_session ?job)\<lparr>dispatcher := ?d'\<rparr>)) info
            (snd (dispatcher_submit True (Some (event_id (session_id ((job_session ?job)\<lparr>dispatcher := ?d'\<rparr>)) EVENT_START)) ?d)) mem)
          \<lparr>request_args := req\<rparr>"
        using sid by (simp add: s) (simp add: tftp_session_init_def)
    qed
    then have "jobs_inv ((job_session ?job)\<lparr>dispatcher := ?d'\<rparr>)" by (rule just_started_jobs_inv)
    then have "job_sound ?d' j (?job\<lparr>job_active := True\<rparr>)" using id' sid by (simp add: job_sound_def)
    then have "worker_sound w'"
    proof (rule worker_sound_update [OF sound j])
      show "own_requests sid' ?d' = own_requests sid' ?d" if "sid' \<noteq> word_of_nat j" for sid'
        using that by (auto simp: own_requests_def r event_session_id)
      show "x \<in> set (ring ?d) \<or> event_session i = word_of_nat j" if "x \<in> set (ring ?d')" "fst x = Some i" for x i
        using that by (auto simp: r event_session_id)
    qed (simp_all add: w')
    moreover have "free_jobs w' + 1 = free_jobs w"
      using free_jobs_update [OF j, of w' "?job\<lparr>job_active := True\<rparr>"] inactive w'(1) by simp
    ultimately show ?thesis using w' by simp
  qed
  then show "worker_sound w'" "free_jobs w' + (if ok then 1 else 0) = free_jobs w"
    "length (worker_jobs w') = length (worker_jobs w)" "available_jobs w' = available_jobs w" "max_jobs w' = max_jobs w"
    by simp_all
qed

section \<open>A new pool\<close>

definition fresh_worker :: "worker \<Rightarrow> bool" where
  "fresh_worker w \<longleftrightarrow> worker_sound w \<and> ring (worker_dispatcher w) = [] \<and> available_jobs w = int (length (worker_jobs w))
     \<and> free_jobs w = length (worker_jobs w)"

lemma worker_init_fresh:
  assumes "worker_init id' n mem ok = (True, w, held)"
  shows "fresh_worker w"
proof -
  have w: "w = \<lparr>worker_id = id', max_jobs = n, worker_dispatcher = dispatcher_init, available_jobs = int (unat n),
               worker_jobs = map (\<lambda>i. \<lparr>job_id = word_of_nat i, job_active = False, job_session = mem\<rparr>) [0..<unat n]\<rparr>"
    using assms by (simp add: worker_init_def Let_def split: if_splits)
  show ?thesis
    by (auto simp: w fresh_worker_def worker_sound_def job_sound_def free_jobs_def dispatcher_init_def own_requests_def comp_def)
qed

lemma pool_init_fresh:
  "pool_init_loop i m n mem ok ws = Pool_Ready ws' \<Longrightarrow> list_all fresh_worker ws \<Longrightarrow>
   list_all fresh_worker ws' \<and> length ws' = length ws + m"
  by (induction i m n mem ok ws rule: pool_init_loop.induct)
    (auto split: prod.splits if_splits bool.splits dest: worker_init_fresh)

lemma pool_init_max_jobs:
  "pool_init_loop i m n mem ok ws = Pool_Ready ws' \<Longrightarrow> list_all (\<lambda>w. max_jobs w = n) ws \<Longrightarrow>
   list_all (\<lambda>w. max_jobs w = n) ws'"
  by (induction i m n mem ok ws rule: pool_init_loop.induct)
    (auto simp: worker_init_def Let_def split: prod.splits if_splits bool.splits)

text \<open>A failing \<open>worker_init\<close> has released what it had acquired.\<close>

lemma worker_init_held:
  "worker_init id' n mem ok = (r, w, held) \<Longrightarrow>
   held = (if r then [Jobs_Array, Jobs_Semaphore, Worker_Dispatcher, Worker_Thread] else [])"
  by (auto simp: worker_init_def Let_def split: if_splits)

section \<open>The least busy worker\<close>

lemma least_busy_from_least:
  "(least_busy_from i best size' ws = best \<and> (\<forall>w \<in> set ws. size' \<le> busy_jobs w))
   \<or> (\<exists>m < length ws. least_busy_from i best size' ws = i + m \<and> (\<forall>w \<in> set ws. busy_jobs (ws ! m) \<le> busy_jobs w)
        \<and> (busy_jobs (ws ! m) \<le> size'))"
proof (induction i best size' ws rule: least_busy_from.induct)
  case (2 i best size' w ws)
  consider "busy_jobs w = 0" | "busy_jobs w \<noteq> 0" "busy_jobs w < size'" | "busy_jobs w \<noteq> 0" "\<not> busy_jobs w < size'" by blast
  then show ?case
  proof cases
    case 1
    then show ?thesis by (intro disjI2 exI [of _ 0]) simp
  next
    case a: 2
    from "2.IH"(1) [OF a] show ?thesis
    proof (elim disjE exE conjE)
      assume "least_busy_from (i + 1) i (busy_jobs w) ws = i" "\<forall>v \<in> set ws. busy_jobs w \<le> busy_jobs v"
      then show ?thesis using a by (intro disjI2 exI [of _ 0]) simp
    next
      fix m assume "m < length ws" "least_busy_from (i + 1) i (busy_jobs w) ws = i + 1 + m"
        "\<forall>v \<in> set ws. busy_jobs (ws ! m) \<le> busy_jobs v" "busy_jobs (ws ! m) \<le> busy_jobs w"
      then show ?thesis using a by (intro disjI2 exI [of _ "Suc m"]) auto
    qed
  next
    case b: 3
    from "2.IH"(2) [OF b] show ?thesis
    proof (elim disjE exE conjE)
      assume "least_busy_from (i + 1) best size' ws = best" "\<forall>v \<in> set ws. size' \<le> busy_jobs v"
      then show ?thesis using b by (intro disjI1) (auto simp: not_less)
    next
      fix m assume "m < length ws" "least_busy_from (i + 1) best size' ws = i + 1 + m"
        "\<forall>v \<in> set ws. busy_jobs (ws ! m) \<le> busy_jobs v" "busy_jobs (ws ! m) \<le> size'"
      then show ?thesis using b by (intro disjI2 exI [of _ "Suc m"]) (auto simp: not_less)
    qed
  qed
qed simp

lemma busy_jobs_exact:
  assumes "0 \<le> available_jobs w" and "available_jobs w \<le> int (unat (max_jobs w))"
  shows "uint (busy_jobs w) = int (unat (max_jobs w)) - available_jobs w"
proof -
  have m: "unat (max_jobs w) < 65536" using unsigned_less [of "max_jobs w", where ?'a = nat] by simp
  have "uint (word_of_int n :: u64) = n" if "0 \<le> n" "n < 65536" for n
    using that by (simp add: uint_word_of_int)
  moreover have "0 \<le> int (unat (max_jobs w)) - available_jobs w" "int (unat (max_jobs w)) - available_jobs w < 65536"
    using m assms by linarith+
  ultimately show ?thesis unfolding busy_jobs_def by blast
qed

lemma least_busy_worker:
  assumes "ws \<noteq> []" and ok: "\<forall>w \<in> set ws. 0 \<le> available_jobs w \<and> available_jobs w \<le> int (unat (max_jobs w))"
  defines "i \<equiv> get_least_busy_worker ws"
  shows "i < length ws"
    and "w \<in> set ws \<Longrightarrow> int (unat (max_jobs (ws ! i))) - available_jobs (ws ! i) \<le> int (unat (max_jobs w)) - available_jobs w"
proof -
  have small: "busy_jobs w < - 1" if "w \<in> set ws" for w
  proof -
    define n where "n = unat (max_jobs w)"
    have "n < 65536" using unsigned_less [of "max_jobs w", where ?'a = nat] by (simp add: n_def)
    moreover have "uint (busy_jobs w) = int n - available_jobs w" "0 \<le> available_jobs w"
      using busy_jobs_exact [of w] ok that unfolding n_def by auto
    ultimately have "uint (busy_jobs w) < 2 ^ 64 - 1" by simp
    moreover have "uint (- 1 :: u64) = 2 ^ 64 - 1" by (simp add: unsigned_minus_1_eq_mask mask_eq_exp_minus_1)
    ultimately show ?thesis unfolding word_less_def by simp
  qed
  have "\<not> (\<forall>w \<in> set ws. - 1 \<le> busy_jobs w)" using assms(1) small by (auto simp: not_le ex_in_conv)
  then obtain m where m: "m < length ws" "i = m" "\<forall>w \<in> set ws. busy_jobs (ws ! m) \<le> busy_jobs w"
    using least_busy_from_least [of 0 0 "- 1" ws] unfolding i_def get_least_busy_worker_def by auto
  then show "i < length ws" by simp
  show "int (unat (max_jobs (ws ! i))) - available_jobs (ws ! i) \<le> int (unat (max_jobs w)) - available_jobs w" if "w \<in> set ws"
  proof -
    have "uint (busy_jobs (ws ! m)) \<le> uint (busy_jobs w)" using m(3) that by (simp add: word_le_def)
    then show ?thesis using busy_jobs_exact [of w] busy_jobs_exact [of "ws ! m"] ok that m by simp
  qed
qed

end
