(* ===== verification/Tftp_Server.thy ===== *)
theory Tftp_Server
  imports Tftp_Worker
begin

text \<open>
  The server: \<open>tftp/src/server/server.c\<close> with the pool of workers, as a system of threads.

  The main thread runs \<open>tftp_server_start\<close> and then \<open>tftp_server_destroy\<close>; every worker runs
  \<open>worker_routine\<close>.  A step of the system is one access to shared state by one thread: reading the loads,
  \<open>sem_wait\<close>, one iteration of the search for a free job, one round from \<open>recvmsg\<close> to the end of the loop
  body, one event of a worker, one \<open>sem_post\<close>.  (The submission of a start event by the main thread is not
  synchronised with the worker that owns the dispatcher; the model has it as one step.)
\<close>

section \<open>State\<close>

text \<open>\<open>round_start\<close> is the local \<open>start_time\<close>, \<open>metrics_runs\<close> counts the calls of \<open>metrics_callback\<close>.\<close>

record server =
  should_stop :: bool
  sv_info :: tftp_server_info
  stats_interval :: int
  metrics_callback :: bool
  sessions_count :: u64
  metrics_runs :: nat
  round_start :: timespec
  pool_shutdown :: bool
  workers :: "worker list"

datatype main_pc =
    Choosing
  | Waiting nat
  | Scanning nat nat
  | Receiving nat nat
  | Returned bool
  | Destroying nat
  | Joining nat
  | Destroyed
  | Unreachable

datatype thread_pc = Looping | Posting | Exited

text \<open>\<open>aborted\<close>: a worker or \<open>worker_pool_get_job\<close> has called \<open>exit(1)\<close>.\<close>

record system =
  sv :: server
  main_thread :: main_pc
  threads :: "thread_pc list"
  aborted :: bool

definition set_worker :: "nat \<Rightarrow> worker \<Rightarrow> server \<Rightarrow> server" where
  "set_worker i w s = s\<lparr>workers := (workers s)[i := w]\<rparr>"

section \<open>Receiving a request\<close>

text \<open>
  A datagram with its sender, whether the ancillary data was cut, and whether there is an
  \<open>IP_ORIGDSTADDR\<close> message; or \<open>errno\<close>.  \<open>MSG_TRUNC\<close> makes \<open>recvmsg\<close> return the full length.
\<close>

datatype recvmsg_result =
    Recvd_Message sockaddr "byte list" bool bool
  | Recvmsg_Failed int

record loop_input =
  li_now :: timespec
  li_setsockopt :: int
  li_recvmsg :: recvmsg_result
  li_lock :: bool
  li_submit :: bool
  li_unlock :: bool
  li_restart :: timespec

datatype revc_result = SUCCESS | TIMEOUT | INTERUPT | ERROR

definition EINTR :: int where "EINTR = 4"
definition EAGAIN :: int where "EAGAIN = 11"

definition no_request :: tftp_peer_message where
  "no_request = \<lparr>peer_addr = Sockaddr_Other 0, bytes_recvd = 0, is_orig_dest_addr_ipv4 = False,
     buffer = replicate tftp_request_packet_max_size NUL\<rparr>"

definition remaining_time :: "server \<Rightarrow> timespec \<Rightarrow> rat" where
  "remaining_time s now = of_int (stats_interval s) - (timespec_to_double now - timespec_to_double (round_start s))"

definition metrics_overdue :: "server \<Rightarrow> timespec \<Rightarrow> bool" where
  "metrics_overdue s now \<longleftrightarrow> metrics_callback s \<and> remaining_time s now \<le> 0"

definition recvmsg_request :: "recvmsg_result \<Rightarrow> tftp_peer_message \<times> int" where
  "recvmsg_request r =
     (case r of
        Recvmsg_Failed e \<Rightarrow> (no_request\<lparr>bytes_recvd := - 1\<rparr>, e)
      | Recvd_Message a bs ctrunc v4 \<Rightarrow>
          (no_request\<lparr>peer_addr := a, bytes_recvd := int (length bs),
             buffer := splice 0 (take tftp_request_packet_max_size bs) (buffer no_request)\<rparr>, 0))"

definition classify_receive :: "bool \<Rightarrow> bool \<Rightarrow> int \<Rightarrow> int \<Rightarrow> revc_result" where
  "classify_receive metrics_enabled is_timeout bytes errno =
     (if 0 \<le> bytes then SUCCESS
      else if is_timeout \<or> (metrics_enabled \<and> errno = EAGAIN) then TIMEOUT
      else if errno = EINTR then INTERUPT else ERROR)"

text \<open>The flags and the ancillary data are those of the call, none if it was not made.\<close>

definition parse_request_metadata :: "recvmsg_result option \<Rightarrow> tftp_peer_message \<Rightarrow> tftp_peer_message option" where
  "parse_request_metadata call msg =
     (let (trunc, ctrunc, v4) = (case call of
            Some (Recvd_Message a bs ctrunc v4) \<Rightarrow> (tftp_request_packet_max_size < length bs, ctrunc, v4)
          | _ \<Rightarrow> (False, False, False))
      in if trunc then None
         else if ctrunc then None
         else if set_address_family (peer_addr msg) = None then None
         else Some (if v4 then msg\<lparr>is_orig_dest_addr_ipv4 := True\<rparr> else msg))"

section \<open>The loop body\<close>

definition start_session :: "loop_input \<Rightarrow> nat \<Rightarrow> nat \<Rightarrow> server \<Rightarrow> server" where
  "start_session inp i j s =
     (if \<not> li_lock inp then s\<lparr>should_stop := True\<rparr>
      else case worker_pool_start_job (li_submit inp) j (workers s ! i) of
          (ok, w) \<Rightarrow>
            let s = (set_worker i w s)\<lparr>sessions_count := sessions_count s + (if ok then 1 else 0)\<rparr>
            in if li_unlock inp then s else s\<lparr>should_stop := True\<rparr>)"

text \<open>The rest of the body, from the reset of the request on; \<open>Some b\<close>: the function returns \<open>b\<close>.\<close>

definition server_round :: "loop_input \<Rightarrow> nat \<Rightarrow> nat \<Rightarrow> server \<Rightarrow> bool option \<times> server" where
  "server_round inp i j s =
     (let is_timeout = metrics_overdue s (li_now inp)
      in if metrics_callback s \<and> \<not> is_timeout \<and> li_setsockopt inp < 0 then (Some False, s)
         else
           let call = (if is_timeout then None else Some (li_recvmsg inp));
               (msg, errno) = (case call of None \<Rightarrow> (no_request, 0) | Some r \<Rightarrow> recvmsg_request r);
               store = (\<lambda>msg s. set_worker i (store_request msg j (workers s ! i)) s)
           in case classify_receive (metrics_callback s) is_timeout (bytes_recvd msg) errno of
                SUCCESS \<Rightarrow>
                  (None, case parse_request_metadata call msg of
                           None \<Rightarrow> store msg s
                         | Some msg \<Rightarrow> start_session inp i j (store msg s))
              | TIMEOUT \<Rightarrow> (None, (store msg s)\<lparr>metrics_runs := metrics_runs s + 1, round_start := li_restart inp\<rparr>)
              | INTERUPT \<Rightarrow> (None, store msg s)
              | ERROR \<Rightarrow> (Some False, store msg s))"

section \<open>Initialisation\<close>

record server_arguments =
  arg_info :: tftp_server_info
  arg_workers :: u16
  arg_max_worker_sessions :: u16
  arg_metrics_callback :: bool
  arg_stats_interval :: int

text \<open>\<open>tftp_server_stats_init\<close>; its result is that of \<open>mtx_init\<close>.\<close>

definition tftp_server_stats_init :: "bool \<Rightarrow> int \<Rightarrow> bool \<Rightarrow> server \<Rightarrow> bool \<times> server" where
  "tftp_server_stats_init mtx interval callback s =
     (mtx, s\<lparr>stats_interval := interval, metrics_callback := callback, sessions_count := 0, metrics_runs := 0\<rparr>)"

definition tftp_server_init ::
    "server_arguments \<Rightarrow> session \<Rightarrow> bool \<Rightarrow> bool \<Rightarrow> bool \<Rightarrow> bool \<Rightarrow> (nat \<Rightarrow> worker_resource \<Rightarrow> bool) \<Rightarrow> bool \<times> server" where
  "tftp_server_init args mem pool_memory mtx listener memory ok =
     (let s = \<lparr>should_stop = False, sv_info = arg_info args, stats_interval = 0, metrics_callback = False,
               sessions_count = 0, metrics_runs = 0, round_start = zero_timespec, pool_shutdown = False, workers = []\<rparr>
      in if \<not> pool_memory then (False, s)
         else case tftp_server_stats_init mtx (arg_stats_interval args) (arg_metrics_callback args) s of
             (False, s) \<Rightarrow> (False, s)
           | (True, s) \<Rightarrow>
               if \<not> listener then (False, s)
               else case worker_pool_init memory (arg_workers args) (arg_max_worker_sessions args) mem ok of
                   Pool_Ready ws \<Rightarrow> (True, s\<lparr>workers := ws\<rparr>)
                 | Pool_No_Memory \<Rightarrow> (False, s)
                 | Pool_Abandoned ws \<Rightarrow> (False, s\<lparr>workers := ws\<rparr>))"

text \<open>\<open>tftp_server_start\<close> reads the clock before its loop.\<close>

definition starting :: "system \<Rightarrow> bool" where
  "starting y \<longleftrightarrow> (\<exists>args mem ok now s. tftp_server_init args mem True True True True ok = (True, s)
     \<and> y = \<lparr>sv = s\<lparr>round_start := now\<rparr>, main_thread = Choosing, threads = replicate (length (workers s)) Looping,
           aborted = False\<rparr>)"

section \<open>Steps\<close>

definition get_job_step :: "nat \<Rightarrow> nat \<Rightarrow> session \<Rightarrow> server \<Rightarrow> main_pc \<times> server" where
  "get_job_step i m mem s =
     (let w = workers s ! i
      in if \<not> m < unat (max_jobs w) then (Unreachable, s)
         else if \<not> job_active (worker_jobs w ! m)
              then (Receiving i m, set_worker i (prepare_job (sv_info s) mem m w) s)
         else (Scanning i (m + 1), s))"

text \<open>What \<open>worker_routine\<close> does with the result of a job.\<close>

definition after_event :: "nat \<Rightarrow> job_state \<Rightarrow> system \<Rightarrow> system" where
  "after_event i st y =
     (case st of
        JOB_STATE_RUNNING \<Rightarrow> y
      | JOB_STATE_TERMINATED \<Rightarrow> y\<lparr>threads := (threads y)[i := Posting]\<rparr>
      | JOB_STATE_ERROR \<Rightarrow> y\<lparr>aborted := True\<rparr>
      | Job_Fault \<Rightarrow> y\<lparr>aborted := True\<rparr>)"

inductive server_step :: "system \<Rightarrow> system \<Rightarrow> bool" where
  tftp_server_stop: "\<not> aborted y \<Longrightarrow> server_step y (y\<lparr>sv := (sv y)\<lparr>should_stop := True\<rparr>\<rparr>)"
| finish: "\<not> aborted y \<Longrightarrow> main_thread y = Choosing \<Longrightarrow> should_stop (sv y) \<Longrightarrow>
    server_step y (y\<lparr>main_thread := Returned True\<rparr>)"
| choose: "\<not> aborted y \<Longrightarrow> main_thread y = Choosing \<Longrightarrow> \<not> should_stop (sv y) \<Longrightarrow>
    server_step y (y\<lparr>main_thread := Waiting (get_least_busy_worker (workers (sv y)))\<rparr>)"
| sem_wait: "\<not> aborted y \<Longrightarrow> main_thread y = Waiting i \<Longrightarrow> i < length (workers (sv y)) \<Longrightarrow>
    take_slot (workers (sv y) ! i) = Some w \<Longrightarrow>
    server_step y (y\<lparr>main_thread := Scanning i 0, sv := set_worker i w (sv y)\<rparr>)"
| sem_wait_fails: "\<not> aborted y \<Longrightarrow> main_thread y = Waiting i \<Longrightarrow> server_step y (y\<lparr>aborted := True\<rparr>)"
| scan: "\<not> aborted y \<Longrightarrow> main_thread y = Scanning i m \<Longrightarrow> get_job_step i m mem (sv y) = (pc, s) \<Longrightarrow>
    server_step y (y\<lparr>main_thread := pc, sv := s\<rparr>)"
| receive: "\<not> aborted y \<Longrightarrow> main_thread y = Receiving i j \<Longrightarrow> server_round inp i j (sv y) = (r, s) \<Longrightarrow>
    server_step y (y\<lparr>main_thread := (case r of None \<Rightarrow> Choosing | Some b \<Rightarrow> Returned b), sv := s\<rparr>)"
| work: "\<not> aborted y \<Longrightarrow> i < length (workers (sv y)) \<Longrightarrow> threads y ! i = Looping \<Longrightarrow>
    worker_continues (pool_shutdown (sv y)) (workers (sv y) ! i) \<Longrightarrow>
    worker_admissible k c (workers (sv y) ! i) \<Longrightarrow> worker_event k c (workers (sv y) ! i) = Some (st, w) \<Longrightarrow>
    few_in_flight w \<Longrightarrow>
    server_step y (after_event i st (y\<lparr>sv := set_worker i w (sv y)\<rparr>))"
| work_fails: "\<not> aborted y \<Longrightarrow> i < length (workers (sv y)) \<Longrightarrow> threads y ! i \<noteq> Exited \<Longrightarrow>
    server_step y (y\<lparr>aborted := True\<rparr>)"
| sem_post: "\<not> aborted y \<Longrightarrow> i < length (workers (sv y)) \<Longrightarrow> threads y ! i = Posting \<Longrightarrow>
    server_step y (y\<lparr>threads := (threads y)[i := Looping], sv := set_worker i (post_slot (workers (sv y) ! i)) (sv y)\<rparr>)"
| worker_exit: "\<not> aborted y \<Longrightarrow> i < length (workers (sv y)) \<Longrightarrow> threads y ! i = Looping \<Longrightarrow>
    \<not> worker_continues (pool_shutdown (sv y)) (workers (sv y) ! i) \<Longrightarrow>
    server_step y (y\<lparr>threads := (threads y)[i := Exited]\<rparr>)"
| destroy: "\<not> aborted y \<Longrightarrow> main_thread y = Returned b \<Longrightarrow>
    server_step y (y\<lparr>main_thread := Destroying 0, sv := (sv y)\<lparr>pool_shutdown := True\<rparr>\<rparr>)"
| wake: "\<not> aborted y \<Longrightarrow> main_thread y = Destroying i \<Longrightarrow> i < length (workers (sv y)) \<Longrightarrow>
    dispatcher_submit accepted None (worker_dispatcher (workers (sv y) ! i)) = (r, d) \<Longrightarrow>
    server_step y (y\<lparr>main_thread := Joining i,
      sv := set_worker i ((workers (sv y) ! i)\<lparr>worker_dispatcher := d\<rparr>) (sv y)\<rparr>)"
| join: "\<not> aborted y \<Longrightarrow> main_thread y = Joining i \<Longrightarrow> threads y ! i = Exited \<Longrightarrow>
    server_step y (y\<lparr>main_thread := Destroying (i + 1)\<rparr>)"
| destroyed: "\<not> aborted y \<Longrightarrow> main_thread y = Destroying i \<Longrightarrow> \<not> i < length (workers (sv y)) \<Longrightarrow>
    server_step y (y\<lparr>main_thread := Destroyed\<rparr>)"

section \<open>The invariant of the system\<close>

text \<open>The main thread holds a slot of worker \<open>i\<close> between \<open>sem_wait\<close> and the end of the loop body.\<close>

fun holds_slot :: "main_pc \<Rightarrow> nat \<Rightarrow> nat" where
  "holds_slot (Scanning i m) n = (if n = i then 1 else 0)"
| "holds_slot (Receiving i j) n = (if n = i then 1 else 0)"
| "holds_slot _ n = 0"

definition posts_slot :: "thread_pc \<Rightarrow> nat" where
  "posts_slot t = (if t = Posting then 1 else 0)"

definition slots_counted :: "main_pc \<Rightarrow> nat \<Rightarrow> thread_pc \<Rightarrow> worker \<Rightarrow> bool" where
  "slots_counted pc n t w \<longleftrightarrow> 0 \<le> available_jobs w
     \<and> available_jobs w + int (holds_slot pc n) + int (posts_slot t) \<le> int (free_jobs w)"

fun main_sound :: "main_pc \<Rightarrow> worker list \<Rightarrow> bool" where
  "main_sound (Scanning i m) ws \<longleftrightarrow> i < length ws
     \<and> (\<exists>j. m \<le> j \<and> j < length (worker_jobs (ws ! i)) \<and> \<not> job_active (worker_jobs (ws ! i) ! j))"
| "main_sound (Receiving i j) ws \<longleftrightarrow> i < length ws \<and> j < length (worker_jobs (ws ! i)) \<and> prepared (worker_jobs (ws ! i) ! j)"
| "main_sound Unreachable ws \<longleftrightarrow> False"
| "main_sound _ ws \<longleftrightarrow> True"

fun joined :: "main_pc \<Rightarrow> nat \<Rightarrow> nat" where
  "joined (Destroying i) n = i"
| "joined (Joining i) n = i"
| "joined Destroyed n = n"
| "joined _ n = 0"

definition system_sound :: "system \<Rightarrow> bool" where
  "system_sound y \<longleftrightarrow>
     (let ws = workers (sv y)
      in length (threads y) = length ws
         \<and> (\<forall>n < length ws. worker_sound (ws ! n) \<and> slots_counted (main_thread y) n (threads y ! n) (ws ! n))
         \<and> main_sound (main_thread y) ws
         \<and> (\<forall>n < length ws. n < joined (main_thread y) (length ws) \<longrightarrow> threads y ! n = Exited))"

lemma starting_sound:
  assumes "starting y"
  shows "system_sound y"
proof -
  obtain args mem ok now s where init: "tftp_server_init args mem True True True True ok = (True, s)"
    and y: "y = \<lparr>sv = s\<lparr>round_start := now\<rparr>, main_thread = Choosing, threads = replicate (length (workers s)) Looping, aborted = False\<rparr>"
    using assms by (auto simp: starting_def)
  obtain ws where ws: "pool_init_loop 0 (unat (arg_workers args)) (arg_max_worker_sessions args) mem ok [] = Pool_Ready ws"
    "workers s = ws"
    using init by (auto simp: tftp_server_init_def tftp_server_stats_init_def worker_pool_init_def Let_def
        split: pool_result.splits)
  have "list_all fresh_worker ws" using pool_init_fresh [OF ws(1)] by simp
  then show ?thesis
    by (auto simp: system_sound_def y ws(2) list_all_length fresh_worker_def slots_counted_def posts_slot_def Let_def)
qed

text \<open>One worker changes; the others and the main thread are as before.\<close>

lemma system_sound_worker:
  assumes y: "system_sound y" and n: "n < length (workers (sv y))"
    and ws: "workers s' = (workers (sv y))[n := w]" and w: "worker_sound w"
    and ts: "threads y' = threads y \<or> (\<exists>t. threads y' = (threads y)[n := t] \<and> \<not> n < joined pc (length (workers (sv y))))"
    and slots: "slots_counted pc n (threads y' ! n) w"
    and others: "\<And>m. m \<noteq> n \<Longrightarrow> holds_slot pc m = holds_slot (main_thread y) m"
    and pc: "main_sound pc (workers s')"
    and joined: "joined pc (length (workers (sv y))) = joined (main_thread y) (length (workers (sv y)))"
    and y': "sv y' = s'" "main_thread y' = pc"
  shows "system_sound y'"
proof -
  let ?ws = "workers (sv y)"
  have len: "length (threads y) = length ?ws" using y by (simp add: system_sound_def Let_def)
  then have lt: "length (threads y') = length ?ws" using ts by auto
  have tm: "threads y' ! m = threads y ! m" if "m \<noteq> n" for m using ts that by auto
  have "worker_sound (workers s' ! m) \<and> slots_counted pc m (threads y' ! m) (workers s' ! m)" if m: "m < length ?ws" for m
  proof (cases "m = n")
    case True
    then show ?thesis using w slots ws n by simp
  next
    case False
    then show ?thesis using y m others [OF False] tm [OF False] ws by (simp add: system_sound_def slots_counted_def Let_def)
  qed
  moreover have "threads y' ! m = Exited" if "m < length ?ws" "m < joined pc (length ?ws)" for m
  proof (cases "m = n")
    case True
    then show ?thesis using ts that y joined by (auto simp: system_sound_def Let_def)
  next
    case False
    then show ?thesis using y that joined tm [OF False] by (simp add: system_sound_def Let_def)
  qed
  ultimately show ?thesis using lt pc ws by (simp add: system_sound_def y' Let_def)
qed

lemma system_sound_main:
  assumes "system_sound y" and "\<And>m. holds_slot pc m \<le> holds_slot (main_thread y) m"
    and "main_sound pc (workers (sv y))"
    and "\<And>m. m < length (workers (sv y)) \<Longrightarrow> m < joined pc (length (workers (sv y))) \<Longrightarrow> threads y ! m = Exited"
    and "workers (sv y') = workers (sv y)" "main_thread y' = pc" "threads y' = threads y"
  shows "system_sound y'"
proof -
  have "slots_counted pc m (threads y ! m) (workers (sv y) ! m)" if "m < length (workers (sv y))" for m
  proof -
    have "slots_counted (main_thread y) m (threads y ! m) (workers (sv y) ! m)"
      using assms(1) that by (simp add: system_sound_def Let_def)
    then show ?thesis using assms(2) [of m] unfolding slots_counted_def by linarith
  qed
  then show ?thesis using assms(1,3-7) by (simp add: system_sound_def Let_def)
qed

lemma available_jobs_free [simp]:
  "worker_sound (w\<lparr>available_jobs := n\<rparr>) = worker_sound w" "free_jobs (w\<lparr>available_jobs := n\<rparr>) = free_jobs w"
  by (simp_all add: worker_sound_def free_jobs_def)

lemma free_job_exists: "0 < free_jobs w \<Longrightarrow> \<exists>j < length (worker_jobs w). \<not> job_active (worker_jobs w ! j)"
  by (auto simp: free_jobs_def filter_empty_conv in_set_conv_nth)

lemma store_request_fields [simp]:
  "length (worker_jobs (store_request msg j w)) = length (worker_jobs w)"
  "available_jobs (store_request msg j w) = available_jobs w" "max_jobs (store_request msg j w) = max_jobs w"
  by (simp_all add: store_request_def Let_def)

lemma prepare_job_fields [simp]:
  "length (worker_jobs (prepare_job info mem j w)) = length (worker_jobs w)"
  "available_jobs (prepare_job info mem j w) = available_jobs w" "max_jobs (prepare_job info mem j w) = max_jobs w"
  by (simp_all add: prepare_job_def Let_def)

text \<open>A round changes the worker of the job only, and starts at most that job.\<close>

lemma server_round_worker:
  assumes run: "server_round inp i j s = (r, s')" and i: "i < length (workers s)"
    and w: "worker_sound (workers s ! i)" and j: "j < length (worker_jobs (workers s ! i))"
    and p: "prepared (worker_jobs (workers s ! i) ! j)"
  obtains w' where "workers s' = (workers s)[i := w']" and "worker_sound w'"
    and "available_jobs w' = available_jobs (workers s ! i)" and "free_jobs (workers s ! i) \<le> free_jobs w' + 1"
proof -
  let ?w = "workers s ! i"
  have store: "worker_sound (store_request msg j ?w)" "free_jobs (store_request msg j ?w) = free_jobs ?w"
    "prepared (worker_jobs (store_request msg j ?w) ! j)" for msg
    using store_request_sound [OF w j p] by simp_all
  have st: "\<exists>w'. workers (start_session inp i j (set_worker i (store_request msg j ?w) s)) = (workers s)[i := w'] \<and> worker_sound w'
      \<and> available_jobs w' = available_jobs ?w \<and> free_jobs ?w \<le> free_jobs w' + 1" for msg
  proof -
    let ?v = "store_request msg j ?w"
    obtain ok v where v: "worker_pool_start_job (li_submit inp) j ?v = (ok, v)" by fastforce
    have jv: "j < length (worker_jobs ?v)" using j by simp
    note ss = start_job_sound [OF store(1) jv store(3) v]
    have "workers (start_session inp i j (set_worker i ?v s)) = (workers s)[i := if li_lock inp then v else ?v]"
      using v i by (simp add: start_session_def set_worker_def Let_def)
    moreover have "free_jobs ?w \<le> free_jobs v + 1" using ss(2) store(2) [of msg] by (cases ok) simp_all
    ultimately show ?thesis
      using ss(1,4) store by (intro exI [of _ "if li_lock inp then v else ?v"]) simp
  qed
  have keep: "\<exists>w'. workers (set_worker i (store_request msg j ?w) s) = (workers s)[i := w'] \<and> worker_sound w'
      \<and> available_jobs w' = available_jobs ?w \<and> free_jobs ?w \<le> free_jobs w' + 1" for msg
    using store by (intro exI [of _ "store_request msg j ?w"]) (simp add: set_worker_def)
  have none: "\<exists>w'. workers s = (workers s)[i := w'] \<and> worker_sound w'
      \<and> available_jobs w' = available_jobs ?w \<and> free_jobs ?w \<le> free_jobs w' + 1"
    using w by (intro exI [of _ ?w]) simp
  have "\<exists>w'. workers s' = (workers s)[i := w'] \<and> worker_sound w'
      \<and> available_jobs w' = available_jobs ?w \<and> free_jobs ?w \<le> free_jobs w' + 1"
    using run st keep none
    by (auto simp: server_round_def Let_def split: if_splits prod.splits revc_result.splits option.splits)
  then show thesis using that by blast
qed

lemma null_event_sound:
  assumes "worker_sound w" and "dispatcher_submit accepted None (worker_dispatcher w) = (r, d)"
  shows "worker_sound (w\<lparr>worker_dispatcher := d\<rparr>)"
proof -
  have d: "set (ring d) \<subseteq> insert (None, Req_Nop) (set (ring (worker_dispatcher w)))"
    "own_requests sid d = own_requests sid (worker_dispatcher w)" for sid
    using assms(2) by (auto simp: dispatcher_submit_def submit_request_def own_requests_def split: if_splits)
  show ?thesis
    using assms(1) job_sound_own [OF d(2)] d(1) unfolding worker_sound_def by auto
qed

lemma server_step_sound:
  assumes "server_step y z" and "system_sound y"
  shows "aborted z \<or> system_sound z"
  using assms
proof (induction rule: server_step.induct)
  case (tftp_server_stop y)
  then have "system_sound (y\<lparr>sv := (sv y)\<lparr>should_stop := True\<rparr>\<rparr>)"
    by (auto simp: system_sound_def Let_def)
  then show ?case by simp
next
  case (finish y)
  have "system_sound (y\<lparr>main_thread := Returned True\<rparr>)"
    by (rule system_sound_main [OF finish(4)]) simp_all
  then show ?case by simp
next
  case (choose y)
  have "system_sound (y\<lparr>main_thread := Waiting (get_least_busy_worker (workers (sv y)))\<rparr>)"
    by (rule system_sound_main [OF choose(4)]) simp_all
  then show ?case by simp
next
  case (sem_wait y i w)
  let ?w = "workers (sv y) ! i"
  have w: "w = ?w\<lparr>available_jobs := available_jobs ?w - 1\<rparr>" "0 < available_jobs ?w"
    using sem_wait(4) by (auto simp: take_slot_def split: if_splits)
  have s: "worker_sound ?w" "slots_counted (Waiting i) i (threads y ! i) ?w"
    using sem_wait(2,3,5) by (auto simp: system_sound_def Let_def)
  have fw: "worker_sound w" "free_jobs w = free_jobs ?w" using s(1) unfolding w(1) by simp_all
  have "0 < free_jobs w" using s(2) w(2) fw(2) by (simp add: slots_counted_def)
  then have ex: "\<exists>j < length (worker_jobs w). \<not> job_active (worker_jobs w ! j)" by (rule free_job_exists)
  have "system_sound (y\<lparr>main_thread := Scanning i 0, sv := set_worker i w (sv y)\<rparr>)"
    by (rule system_sound_worker [OF sem_wait(5,3), where w = w and pc = "Scanning i 0"])
      (use sem_wait(2,3) s(2) w fw ex in \<open>auto simp: set_worker_def slots_counted_def\<close>)
  then show ?case by simp
next
  case (sem_wait_fails y i)
  then show ?case by simp
next
  case (scan y i m mem pc s)
  let ?w = "workers (sv y) ! i"
  have i: "i < length (workers (sv y))" and ex: "\<exists>j. m \<le> j \<and> j < length (worker_jobs ?w) \<and> \<not> job_active (worker_jobs ?w ! j)"
    and s: "worker_sound ?w" "slots_counted (Scanning i m) i (threads y ! i) ?w"
    using scan(2,4) by (auto simp: system_sound_def Let_def)
  have len: "length (worker_jobs ?w) = unat (max_jobs ?w)" using s(1) by (simp add: worker_sound_def)
  then have m: "m < length (worker_jobs ?w)" using ex by auto
  have "system_sound (y\<lparr>main_thread := pc, sv := s\<rparr>)"
  proof (cases "job_active (worker_jobs ?w ! m)")
    case True
    then have ps: "pc = Scanning i (m + 1)" "s = sv y" using scan(3) m len by (simp_all add: get_job_step_def)
    obtain j where j: "m \<le> j" "j < length (worker_jobs ?w)" "\<not> job_active (worker_jobs ?w ! j)" using ex by blast
    then have "j \<noteq> m" using True by auto
    then have "m + 1 \<le> j" using j(1) by simp
    then show ?thesis
      unfolding ps by (intro system_sound_main [OF scan(4)]) (use scan(2) i j in \<open>auto simp: scan(2)\<close>)
  next
    case False
    then have ps: "pc = Receiving i m" "s = set_worker i (prepare_job (sv_info (sv y)) mem m ?w) (sv y)"
      using scan(3) m len by (simp_all add: get_job_step_def)
    note pj = prepare_job_sound [OF s(1) m False, of "sv_info (sv y)" mem]
    show ?thesis
      unfolding ps
      by (rule system_sound_worker [OF scan(4) i, where w = "prepare_job (sv_info (sv y)) mem m ?w" and pc = "Receiving i m"])
        (use scan(2) i m s pj in \<open>auto simp: set_worker_def slots_counted_def\<close>)
  qed
  then show ?case by simp
next
  case (receive y i j inp r s)
  have i: "i < length (workers (sv y))" and j: "j < length (worker_jobs (workers (sv y) ! i))"
    "prepared (worker_jobs (workers (sv y) ! i) ! j)"
    and ws: "worker_sound (workers (sv y) ! i)" "slots_counted (Receiving i j) i (threads y ! i) (workers (sv y) ! i)"
    using receive(2,4) by (auto simp: system_sound_def Let_def)
  obtain w' where w': "workers s = (workers (sv y))[i := w']" "worker_sound w'"
    "available_jobs w' = available_jobs (workers (sv y) ! i)" "free_jobs (workers (sv y) ! i) \<le> free_jobs w' + 1"
    by (rule server_round_worker [OF receive(3) i ws(1) j])
  have "system_sound (y\<lparr>main_thread := (case r of None \<Rightarrow> Choosing | Some b \<Rightarrow> Returned b), sv := s\<rparr>)"
    by (rule system_sound_worker [OF receive(4) i, where w = w' and pc = "case r of None \<Rightarrow> Choosing | Some b \<Rightarrow> Returned b"])
      (use receive(2) w' ws(2) in \<open>auto simp: slots_counted_def split: option.split\<close>)
  then show ?case by simp
next
  case (work y i k c st w)
  let ?w = "workers (sv y) ! i" and ?y = "y\<lparr>sv := set_worker i w (sv y)\<rparr>"
  show ?case
  proof (cases "st = JOB_STATE_RUNNING \<or> st = JOB_STATE_TERMINATED")
    case False
    then show ?thesis by (cases st) (simp_all add: after_event_def)
  next
    case True
    have s: "worker_sound ?w" "slots_counted (main_thread y) i (threads y ! i) ?w" "main_sound (main_thread y) (workers (sv y))"
      using work(2,8) by (auto simp: system_sound_def Let_def)
    note we = worker_event_sound [OF s(1) work(6,5,7) True]
    have ms: "main_sound (main_thread y) ((workers (sv y))[i := w])"
    proof (cases "main_thread y")
      case (Scanning n m)
      then show ?thesis using s(3) we(3,6) work(2) by (cases "n = i") auto
    next
      case (Receiving n j)
      then have "\<not> job_active (worker_jobs (workers (sv y) ! n) ! j)" using s(3) by (simp add: prepared_def)
      then show ?thesis using Receiving s(3) we(3,6) work(2) by (cases "n = i") auto
    qed (use s(3) in simp_all)
    have nj: "\<not> i < joined (main_thread y) (length (workers (sv y)))"
      using work(2,3,8) by (auto simp: system_sound_def Let_def)
    have lt: "i < length (threads y)" using work(2,8) by (simp add: system_sound_def Let_def)
    let ?t = "if st = JOB_STATE_TERMINATED then Posting else Looping"
    have "after_event i st ?y = ?y\<lparr>threads := (threads y)[i := ?t]\<rparr>"
      using True work(3) list_update_id [of "threads y" i] by (auto simp: after_event_def)
    moreover have "system_sound (?y\<lparr>threads := (threads y)[i := ?t]\<rparr>)"
    proof (rule system_sound_worker [OF work(8,2), where w = w and pc = "main_thread y"])
      show "slots_counted (main_thread y) i (threads (?y\<lparr>threads := (threads y)[i := ?t]\<rparr>) ! i) w"
        using s(2) we(2,4) lt work(3) by (auto simp: slots_counted_def posts_slot_def)
    qed (use we(1) nj ms in \<open>auto simp: set_worker_def\<close>)
    ultimately show ?thesis by simp
  qed
next
  case (work_fails y i)
  then show ?case by simp
next
  case (sem_post y i)
  let ?w = "workers (sv y) ! i"
  have s: "worker_sound ?w" "slots_counted (main_thread y) i (threads y ! i) ?w" "main_sound (main_thread y) (workers (sv y))"
    using sem_post(2,4) by (auto simp: system_sound_def Let_def)
  have nj: "\<not> i < joined (main_thread y) (length (workers (sv y)))" and lt: "i < length (threads y)"
    using sem_post(2,3,4) by (auto simp: system_sound_def Let_def)
  have ms: "main_sound (main_thread y) ((workers (sv y))[i := post_slot ?w])"
    using s(3) sem_post(2) by (cases "main_thread y") (auto simp: post_slot_def nth_list_update)
  have "system_sound (y\<lparr>threads := (threads y)[i := Looping], sv := set_worker i (post_slot ?w) (sv y)\<rparr>)"
    by (rule system_sound_worker [OF sem_post(4,2), where w = "post_slot ?w" and pc = "main_thread y"])
      (use s sem_post(3) nj lt ms in \<open>auto simp: set_worker_def post_slot_def slots_counted_def posts_slot_def\<close>)
  then show ?case by simp
next
  case (worker_exit y i)
  have nj: "\<not> i < joined (main_thread y) (length (workers (sv y)))" and lt: "i < length (threads y)"
    and s: "worker_sound (workers (sv y) ! i)" "slots_counted (main_thread y) i (threads y ! i) (workers (sv y) ! i)"
      "main_sound (main_thread y) (workers (sv y))"
    using worker_exit(2,3,5) by (auto simp: system_sound_def Let_def)
  have "system_sound (y\<lparr>threads := (threads y)[i := Exited]\<rparr>)"
    by (rule system_sound_worker [OF worker_exit(5,2), where w = "workers (sv y) ! i" and pc = "main_thread y" and s' = "sv y"])
      (use s nj lt worker_exit(3) in \<open>auto simp: slots_counted_def posts_slot_def\<close>)
  then show ?case by simp
next
  case (destroy y b)
  have "system_sound (y\<lparr>sv := (sv y)\<lparr>pool_shutdown := True\<rparr>\<rparr>)" using destroy(3) by (auto simp: system_sound_def Let_def)
  then have "system_sound (y\<lparr>main_thread := Destroying 0, sv := (sv y)\<lparr>pool_shutdown := True\<rparr>\<rparr>)"
    by (rule system_sound_main) simp_all
  then show ?case by simp
next
  case (wake y i accepted r d)
  let ?w = "workers (sv y) ! i"
  have s: "worker_sound ?w" "slots_counted (main_thread y) i (threads y ! i) ?w"
    using wake(3,5) by (auto simp: system_sound_def Let_def)
  have "system_sound (y\<lparr>main_thread := Joining i, sv := set_worker i (?w\<lparr>worker_dispatcher := d\<rparr>) (sv y)\<rparr>)"
    by (rule system_sound_worker [OF wake(5,3), where w = "?w\<lparr>worker_dispatcher := d\<rparr>" and pc = "Joining i"])
      (use s wake(2) null_event_sound [OF s(1) wake(4)] in \<open>auto simp: set_worker_def slots_counted_def free_jobs_def\<close>)
  then show ?case by simp
next
  case (join y i)
  have "system_sound (y\<lparr>main_thread := Destroying (i + 1)\<rparr>)"
    by (rule system_sound_main [OF join(4)])
      (use join(2,3,4) in \<open>auto simp: system_sound_def Let_def less_Suc_eq\<close>)
  then show ?case by simp
next
  case (destroyed y i)
  have "system_sound (y\<lparr>main_thread := Destroyed\<rparr>)"
    by (rule system_sound_main [OF destroyed(4)])
      (use destroyed(2,3,4) in \<open>auto simp: system_sound_def Let_def\<close>)
  then show ?case by simp
qed

interpretation server_runs: invariant_machine starting server_step "\<lambda>y. aborted y \<or> system_sound y"
proof
  show "aborted y \<or> system_sound y" if "starting y" for y using starting_sound [OF that] by simp
  show "aborted z \<or> system_sound z" if "aborted y \<or> system_sound y" "server_step y z" for y z
    using that server_step_sound server_step.cases [OF that(2), of "\<not> aborted y"] by blast
qed

section \<open>A server without sessions\<close>

definition idle_worker :: "worker \<Rightarrow> bool" where
  "idle_worker w \<longleftrightarrow> worker_sound w \<and> ring (worker_dispatcher w) = [] \<and> free_jobs w = length (worker_jobs w)
     \<and> 0 \<le> available_jobs w \<and> available_jobs w \<le> int (length (worker_jobs w))"

definition idle_system :: "system \<Rightarrow> bool" where
  "idle_system y \<longleftrightarrow> \<not> aborted y \<and> \<not> pool_shutdown (sv y) \<and> threads y = replicate (length (workers (sv y))) Looping
     \<and> list_all idle_worker (workers (sv y))"

lemma all_free_inactive:
  "free_jobs w = length (worker_jobs w) \<Longrightarrow> j < length (worker_jobs w) \<Longrightarrow> \<not> job_active (worker_jobs w ! j)"
  unfolding free_jobs_def by (metis filter_id_conv length_filter_less nless_le nth_mem)

definition slots :: "system \<Rightarrow> int" where
  "slots y = sum_list (map available_jobs (workers (sv y)))"

lemma slots_update:
  "i < length (workers (sv y)) \<Longrightarrow> workers (sv z) = (workers (sv y))[i := w] \<Longrightarrow>
   slots z = slots y - available_jobs (workers (sv y) ! i) + available_jobs w"
proof -
  assume i: "i < length (workers (sv y))" and z: "workers (sv z) = (workers (sv y))[i := w]"
  let ?ws = "workers (sv y)"
  have "sum_list (map available_jobs ?ws) = sum_list (map available_jobs (take i ?ws @ ?ws ! i # drop (Suc i) ?ws))"
    by (simp flip: id_take_nth_drop [OF i])
  then show ?thesis by (simp add: slots_def z upd_conv_take_nth_drop [OF i])
qed

text \<open>A request that is too long is dropped: nothing is counted, nothing started, and the slot is not given back.\<close>

definition oversized :: "sockaddr \<Rightarrow> loop_input" where
  "oversized a = \<lparr>li_now = zero_timespec, li_setsockopt = 0, li_recvmsg = Recvd_Message a (replicate 513 NUL) False False,
     li_lock = True, li_submit = True, li_unlock = True, li_restart = zero_timespec\<rparr>"

lemma server_round_oversized:
  "\<exists>msg. server_round (oversized a) i j s = (None, set_worker i (store_request msg j (workers s ! i)) s)"
  by (auto simp: server_round_def oversized_def recvmsg_request_def parse_request_metadata_def classify_receive_def
      no_request_def tftp_request_packet_max_size_def Let_def)

text \<open>
  A run in which every datagram the server receives is an oversized one; the number counts them.  The other
  steps are those of the system, except that no call fails.
\<close>

inductive flooded :: "nat \<Rightarrow> system \<Rightarrow> system \<Rightarrow> bool" where
  flooded_none: "flooded 0 y y"
| flooded_step: "flooded n x y \<Longrightarrow> server_step y z \<Longrightarrow> \<not> aborted z \<Longrightarrow> (\<forall>i j. main_thread y \<noteq> Receiving i j) \<Longrightarrow>
    flooded n x z"
| flooded_round: "flooded n x y \<Longrightarrow> \<not> aborted y \<Longrightarrow> main_thread y = Receiving i j \<Longrightarrow>
    server_round (oversized a) i j (sv y) = (None, s) \<Longrightarrow>
    flooded (Suc n) x (y\<lparr>main_thread := Choosing, sv := s\<rparr>)"

lemma flooded_trans: "flooded m y z \<Longrightarrow> flooded n x y \<Longrightarrow> flooded (n + m) x z"
  by (induction rule: flooded.induct) (auto intro: flooded_step flooded_round)

text \<open>A dropped datagram is a step of the server.\<close>

lemma flooded_steps: "flooded n x y \<Longrightarrow> server_step\<^sup>*\<^sup>* x y"
proof (induction rule: flooded.induct)
  case (flooded_round n x y i j a s)
  have "server_step y (y\<lparr>main_thread := Choosing, sv := s\<rparr>)"
    using receive [OF flooded_round(2-4)] by simp
  then show ?case using flooded_round(5) by (meson rtranclp.rtrancl_into_rtrancl)
qed (auto intro: rtranclp.rtrancl_into_rtrancl)

lemma idle_to_receiving:
  assumes idle: "idle_system y" and pc: "main_thread y = Choosing" and run: "\<not> should_stop (sv y)"
    and i: "i = get_least_busy_worker (workers (sv y))" "i < length (workers (sv y))"
    and av: "0 < available_jobs (workers (sv y) ! i)"
  obtains z w where "flooded 0 y z" and "main_thread z = Receiving i 0" and "sv z = set_worker i w (sv y)"
    and "idle_worker w" and "prepared (worker_jobs w ! 0)" and "available_jobs w = available_jobs (workers (sv y) ! i) - 1"
    and "0 < length (worker_jobs w)" and "threads z = threads y" and "\<not> aborted z"
    and "max_jobs w = max_jobs (workers (sv y) ! i)"
proof -
  let ?w = "workers (sv y) ! i"
  have iw: "idle_worker ?w" using idle i(2) by (simp add: idle_system_def list_all_length)
  let ?v = "?w\<lparr>available_jobs := available_jobs ?w - 1\<rparr>"
  let ?y1 = "y\<lparr>main_thread := Waiting i\<rparr>"
  let ?y2 = "?y1\<lparr>main_thread := Scanning i 0, sv := set_worker i ?v (sv y)\<rparr>"
  let ?w3 = "prepare_job (sv_info (sv y)) undefined 0 ?v"
  let ?y3 = "?y2\<lparr>main_thread := Receiving i 0, sv := set_worker i ?w3 (sv y)\<rparr>"
  have na: "\<not> aborted y" using idle by (simp add: idle_system_def)
  have s1: "server_step y ?y1" unfolding i(1) by (rule choose [OF na pc run])
  have s2: "server_step ?y1 ?y2"
    using sem_wait [of ?y1 i ?v] na i(2) av by (simp add: take_slot_def)
  have len: "0 < length (worker_jobs ?w)" "length (worker_jobs ?w) = unat (max_jobs ?w)"
    using iw av by (auto simp: idle_worker_def worker_sound_def)
  have inact: "\<not> job_active (worker_jobs ?w ! 0)"
    using all_free_inactive [of ?w 0] iw len by (simp add: idle_worker_def)
  have "get_job_step i 0 undefined (sv ?y2) = (Receiving i 0, set_worker i ?w3 (sv y))"
    using i(2) len inact by (simp add: get_job_step_def set_worker_def)
  then have s3: "server_step ?y2 ?y3" using scan [of ?y2 i 0] na by simp
  have sv: "worker_sound ?v" using iw by (simp add: idle_worker_def)
  note p = prepare_job_sound [OF sv, of 0 "sv_info (sv y)" undefined]
  have w3: "idle_worker ?w3" "prepared (worker_jobs ?w3 ! 0)" "available_jobs ?w3 = available_jobs ?w - 1"
    "0 < length (worker_jobs ?w3)" "max_jobs ?w3 = max_jobs ?w"
    using p iw len inact av by (auto simp: idle_worker_def prepare_job_def Let_def)
  have "flooded 0 y ?y1" by (rule flooded_step [OF flooded_none s1]) (simp_all add: na pc)
  then have "flooded 0 y ?y2" by (rule flooded_step [OF _ s2]) (simp_all add: na)
  then have "flooded 0 y ?y3" by (rule flooded_step [OF _ s3]) (simp_all add: na)
  then show thesis using that [of ?y3 ?w3] w3 na by simp
qed

lemma idle_ignores:
  assumes idle: "idle_system y" and pc: "main_thread y = Choosing" and run: "\<not> should_stop (sv y)"
    and i: "i = get_least_busy_worker (workers (sv y))" "i < length (workers (sv y))"
    and av: "0 < available_jobs (workers (sv y) ! i)"
  obtains z where "flooded 1 y z" and "idle_system z" and "main_thread z = Choosing" and "\<not> should_stop (sv z)"
    and "slots z = slots y - 1" and "sessions_count (sv z) = sessions_count (sv y)"
    and "map max_jobs (workers (sv z)) = map max_jobs (workers (sv y))"
proof -
  obtain x w where x: "flooded 0 y x" "main_thread x = Receiving i 0" "sv x = set_worker i w (sv y)"
    "idle_worker w" "prepared (worker_jobs w ! 0)" "available_jobs w = available_jobs (workers (sv y) ! i) - 1"
    "0 < length (worker_jobs w)" "threads x = threads y" "\<not> aborted x" "max_jobs w = max_jobs (workers (sv y) ! i)"
    by (rule idle_to_receiving [OF assms])
  obtain msg where r: "server_round (oversized undefined) i 0 (sv x)
      = (None, set_worker i (store_request msg 0 (workers (sv x) ! i)) (sv x))"
    using server_round_oversized by blast
  let ?z = "x\<lparr>main_thread := Choosing, sv := set_worker i (store_request msg 0 w) (sv y)\<rparr>"
  have "workers (sv x) ! i = w" using x(3) i(2) by (simp add: set_worker_def)
  then have st: "flooded 1 y ?z" using flooded_round [OF x(1,9,2) r] x(3) by (simp add: set_worker_def)
  have sw: "worker_sound w" using x(4) by (simp add: idle_worker_def)
  have "idle_worker (store_request msg 0 w)"
    using x(4) store_request_sound [OF sw x(7,5), of msg] by (simp add: idle_worker_def store_request_def Let_def)
  then have "list_all idle_worker ((workers (sv y))[i := store_request msg 0 w])"
    using idle i(2) by (auto simp: idle_system_def list_all_length nth_list_update)
  then have "idle_system ?z" using idle x(8,9) by (simp add: idle_system_def set_worker_def)
  moreover have "slots ?z = slots y - 1"
    using slots_update [OF i(2), of ?z "store_request msg 0 w"] x(6) by (simp add: set_worker_def)
  moreover have "max_jobs (store_request msg 0 w) = max_jobs (workers (sv y) ! i)"
    by (simp add: store_request_def Let_def x(10))
  then have "map max_jobs (workers (sv ?z)) = map max_jobs (workers (sv y))"
    using i(2) by (simp add: set_worker_def map_update list_update_same_conv)
  ultimately show thesis using that [OF st] run by (simp add: set_worker_def)
qed

text \<open>A state in which the main thread waits for a slot that nobody will post.\<close>

definition stuck_system :: "nat \<Rightarrow> system \<Rightarrow> bool" where
  "stuck_system i y \<longleftrightarrow> idle_system y \<and> main_thread y = Waiting i \<and> i < length (workers (sv y))
     \<and> available_jobs (workers (sv y) ! i) = 0"

lemma stuck_step:
  assumes "server_step y z" and "stuck_system i y"
  shows "aborted z \<or> stuck_system i z"
  using assms
proof (induction rule: server_step.induct)
  case (tftp_server_stop y)
  then show ?case by (simp add: stuck_system_def idle_system_def)
next
  case (work y n k c st w)
  then have "ring (worker_dispatcher (workers (sv y) ! n)) = []"
    by (simp add: stuck_system_def idle_system_def list_all_length idle_worker_def)
  then show ?case using work(6) by (simp add: worker_event_def)
qed (auto simp: stuck_system_def idle_system_def take_slot_def worker_continues_def)

lemma stuck_runs: "server_step\<^sup>*\<^sup>* y z \<Longrightarrow> stuck_system i y \<Longrightarrow> aborted z \<or> stuck_system i z"
proof (induction rule: rtranclp_induct)
  case (step x z)
  then show ?case using stuck_step server_step.cases [OF step(2), of "\<not> aborted x"] by blast
qed simp

lemma idle_gets_stuck:
  assumes "idle_system y" and "main_thread y = Choosing" and "\<not> should_stop (sv y)" and "workers (sv y) \<noteq> []"
    and "\<forall>w \<in> set (workers (sv y)). max_jobs w = M"
  shows "\<exists>z i. flooded (nat (slots y)) y z \<and> stuck_system i z \<and> sessions_count (sv z) = sessions_count (sv y)"
  using assms
proof (induction "nat (slots y)" arbitrary: y rule: less_induct)
  case less
  let ?i = "get_least_busy_worker (workers (sv y))" and ?ws = "workers (sv y)"
  have ok: "\<forall>w \<in> set ?ws. 0 \<le> available_jobs w \<and> available_jobs w \<le> int (unat (max_jobs w))"
    using less.prems(1) by (auto simp: idle_system_def list_all_iff idle_worker_def worker_sound_def)
  note lb = least_busy_worker [OF less.prems(4) ok]
  have i: "?i < length ?ws" by (rule lb(1))
  show ?case
  proof (cases "available_jobs (?ws ! ?i) = 0")
    case True
    let ?z = "y\<lparr>main_thread := Waiting ?i\<rparr>"
    have "available_jobs w = 0" if w: "w \<in> set ?ws" for w
      using lb(2) w ok True less.prems(5) nth_mem [OF i] by fastforce
    then have "map available_jobs ?ws = map (\<lambda>_. 0) ?ws" by (intro map_cong) simp_all
    then have "slots y = 0" unfolding slots_def by (simp only: sum_list_0)
    moreover have "server_step y ?z" using less.prems by (intro choose) (simp_all add: idle_system_def)
    then have "flooded 0 y ?z"
      using less.prems by (intro flooded_step [OF flooded_none]) (simp_all add: idle_system_def)
    moreover have "stuck_system ?i ?z" using True i less.prems(1) by (simp add: stuck_system_def idle_system_def)
    ultimately show ?thesis by (intro exI [of _ ?z] exI [of _ ?i]) simp
  next
    case False
    then have av: "0 < available_jobs (?ws ! ?i)" using ok i by (metis nth_mem order_le_less)
    obtain z where z: "flooded 1 y z" "idle_system z" "main_thread z = Choosing" "\<not> should_stop (sv z)"
      "slots z = slots y - 1" "sessions_count (sv z) = sessions_count (sv y)"
      "map max_jobs (workers (sv z)) = map max_jobs ?ws"
      by (rule idle_ignores [OF less.prems(1-3) refl i av])
    have pos: "0 \<le> slots z"
      using z(2) unfolding slots_def idle_system_def list_all_iff idle_worker_def by (intro sum_list_nonneg) auto
    then have lt: "nat (slots z) < nat (slots y)" using av z(5) by simp
    have ne: "workers (sv z) \<noteq> []" using z(7) less.prems(4) by (metis list.map_disc_iff)
    have mj: "\<forall>w \<in> set (workers (sv z)). max_jobs w = M"
    proof
      fix w assume "w \<in> set (workers (sv z))"
      then have "max_jobs w \<in> set (map max_jobs ?ws)" by (simp flip: z(7))
      then show "max_jobs w = M" using less.prems(5) by auto
    qed
    obtain x k where x: "flooded (nat (slots z)) z x" "stuck_system k x"
      "sessions_count (sv x) = sessions_count (sv z)" using less.hyps [OF lt z(2-4) ne mj] by (elim exE conjE)
    have "1 + nat (slots z) = nat (slots y)" using pos z(5) by linarith
    then have "flooded (nat (slots y)) y x" using flooded_trans [OF x(1) z(1)] by simp
    then show ?thesis using x(2,3) z(6) by auto
  qed
qed

lemma starting_idle:
  assumes "starting y"
  shows "idle_system y" and "main_thread y = Choosing" and "\<not> should_stop (sv y)"
    and "\<exists>M. \<forall>w \<in> set (workers (sv y)). max_jobs w = M"
proof -
  obtain args mem ok now s where init: "tftp_server_init args mem True True True True ok = (True, s)"
    and y: "y = \<lparr>sv = s\<lparr>round_start := now\<rparr>, main_thread = Choosing, threads = replicate (length (workers s)) Looping, aborted = False\<rparr>"
    using assms by (auto simp: starting_def)
  obtain ws where ws: "pool_init_loop 0 (unat (arg_workers args)) (arg_max_worker_sessions args) mem ok [] = Pool_Ready ws"
    "workers s = ws" "\<not> pool_shutdown s" "\<not> should_stop s"
    using init by (auto simp: tftp_server_init_def tftp_server_stats_init_def worker_pool_init_def Let_def
        split: pool_result.splits)
  have "list_all fresh_worker ws" using pool_init_fresh [OF ws(1)] by simp
  then show "idle_system y" "main_thread y = Choosing" "\<not> should_stop (sv y)"
    using ws by (auto simp: y idle_system_def idle_worker_def fresh_worker_def list_all_iff)
  show "\<exists>M. \<forall>w \<in> set (workers (sv y)). max_jobs w = M"
    using pool_init_max_jobs [OF ws(1)] ws(2) by (intro exI [of _ "arg_max_worker_sessions args"]) (simp add: y list_all_iff)
qed

section \<open>Properties\<close>

definition example_arguments :: server_arguments where
  "example_arguments = \<lparr>arg_info = example_info, arg_workers = 1, arg_max_worker_sessions = 2,
     arg_metrics_callback = True, arg_stats_interval = 60\<rparr>"

definition example_workers :: "worker list" where
  "example_workers = [fst (snd (worker_init 0 2 blank_session (\<lambda>r. True)))]"

definition example_server :: server where
  "example_server = \<lparr>should_stop = False, sv_info = example_info, stats_interval = 60, metrics_callback = True,
     sessions_count = 0, metrics_runs = 0, round_start = zero_timespec, pool_shutdown = False, workers = example_workers\<rparr>"

definition example_system :: system where
  "example_system = \<lparr>sv = example_server, main_thread = Choosing, threads = [Looping], aborted = False\<rparr>"

lemma example_starting: "starting example_system"
proof -
  have p: "worker_pool_init True 1 2 blank_session (\<lambda>i r. True) = Pool_Ready example_workers"
    by (simp add: worker_pool_init_def example_workers_def worker_init_def Let_def eval_nat_numeral)
  have "tftp_server_init example_arguments blank_session True True True True (\<lambda>i r. True) = (True, example_server)"
    by (simp add: tftp_server_init_def tftp_server_stats_init_def example_arguments_def p example_server_def)
  then show ?thesis
    unfolding starting_def
    by (intro exI [of _ example_arguments] exI [of _ blank_session] exI [of _ "\<lambda>i r. True"] exI [of _ zero_timespec]
        exI [of _ example_server])
      (simp add: example_system_def example_server_def example_workers_def)
qed

lemma example_system_fields:
  "length (workers (sv example_system)) = 1" "available_jobs (workers (sv example_system) ! 0) = 2"
  "get_least_busy_worker (workers (sv example_system)) = 0"
  by (simp_all add: example_system_def example_server_def example_workers_def worker_init_def
      get_least_busy_worker_def busy_jobs_def Let_def)

lemma example_receiving:
  obtains z where "reachable_from starting server_step z" and "\<not> aborted z" and "main_thread z = Receiving 0 0"
proof -
  have i: "0 < length (workers (sv example_system))" "0 < available_jobs (workers (sv example_system) ! 0)"
    using example_system_fields by simp_all
  obtain z w where z: "flooded 0 example_system z" "main_thread z = Receiving 0 0" "\<not> aborted z"
    using idle_to_receiving [OF starting_idle(1-3) [OF example_starting] example_system_fields(3) [symmetric] i] .
  note run = flooded_steps [OF z(1)]
  have "reachable_from starting server_step z"
    using run by (induction rule: rtranclp_induct) (auto intro: reach_init reach_step example_starting)
  then show thesis using that z by blast
qed

text \<open>
  C9: Slots are accounted for.  In every state a running server can reach, the search of
  \<open>worker_pool_get_job\<close> never falls through to \<open>unreachable()\<close>, no semaphore is negative or counts more slots than
  there are free jobs, the job the main thread prepares is inactive and no request of a previous session with
  its number is in flight, and the server is destroyed only after every worker has ended.
\<close>

theorem job_slots_accounted:
  assumes "reachable_from starting server_step y" and "\<not> aborted y"
  shows "main_thread y \<noteq> Unreachable
    \<and> (\<forall>w \<in> set (workers (sv y)). 0 \<le> available_jobs w \<and> available_jobs w \<le> int (free_jobs w))
    \<and> (\<forall>i j. main_thread y = Receiving i j \<longrightarrow>
         \<not> job_active (worker_jobs (workers (sv y) ! i) ! j)
         \<and> in_flight_of (word_of_nat j) (worker_dispatcher (workers (sv y) ! i)) = 0)
    \<and> (main_thread y = Destroyed \<longrightarrow> (\<forall>t \<in> set (threads y). t = Exited))"
proof -
  have s: "system_sound y" using server_runs.reachable_inv [OF assms(1)] assms(2) by blast
  then have m: "main_sound (main_thread y) (workers (sv y))" and l: "length (threads y) = length (workers (sv y))"
    and w: "\<And>n. n < length (workers (sv y)) \<Longrightarrow> worker_sound (workers (sv y) ! n)
      \<and> slots_counted (main_thread y) n (threads y ! n) (workers (sv y) ! n)"
    by (simp_all add: system_sound_def Let_def)
  have "\<not> job_active (worker_jobs (workers (sv y) ! i) ! j)
      \<and> in_flight_of (word_of_nat j) (worker_dispatcher (workers (sv y) ! i)) = 0"
    if "main_thread y = Receiving i j" for i j
    using m w [of i] that by (auto simp: prepared_def worker_sound_def job_sound_def in_flight_of_own)
  moreover have "0 \<le> available_jobs v \<and> available_jobs v \<le> int (free_jobs v)" if "v \<in> set (workers (sv y))" for v
    using w that by (fastforce simp: in_set_conv_nth slots_counted_def)
  moreover have "main_thread y = Destroyed \<longrightarrow> (\<forall>t \<in> set (threads y). t = Exited)"
    using s l by (auto simp: system_sound_def in_set_conv_nth Let_def)
  ultimately show ?thesis using m by auto
qed

theorem job_slots_accounted_witness:
  "\<exists>y :: system. main_thread y = Receiving 0 0 \<and> \<not> job_active (worker_jobs (workers (sv y) ! 0) ! 0)
     \<and> in_flight_of 0 (worker_dispatcher (workers (sv y) ! 0)) = 0"
proof -
  obtain z where z: "reachable_from starting server_step z" "\<not> aborted z" "main_thread z = Receiving 0 0"
    by (rule example_receiving)
  have "\<not> job_active (worker_jobs (workers (sv z) ! 0) ! 0)
      \<and> in_flight_of (word_of_nat 0) (worker_dispatcher (workers (sv z) ! 0)) = 0"
    using job_slots_accounted [OF z(1,2)] z(3) by blast
  then show ?thesis using z(3) by auto
qed

text \<open>
  C8: Completions reach the right session.  In every state a running server can reach, each request in flight
  at a worker (other than the wake-up event) carries the number of a job of this worker that is active, and
  whose session has this number.
\<close>

theorem completions_reach_active_jobs:
  assumes "reachable_from starting server_step y" and "\<not> aborted y" and "w \<in> set (workers (sv y))"
    and "x \<in> set (ring (worker_dispatcher w))" and "fst x = Some i"
  shows "unat (event_session i) < length (worker_jobs w)
    \<and> job_active (worker_jobs w ! unat (event_session i))
    \<and> session_id (job_session (worker_jobs w ! unat (event_session i))) = event_session i"
proof -
  have "system_sound y" using server_runs.reachable_inv [OF assms(1)] assms(2) by blast
  then have w: "worker_sound w" using assms(3) by (auto simp: system_sound_def in_set_conv_nth Let_def)
  have "unat (event_session i) < length (worker_jobs w)" using w assms(4,5) by (auto simp: worker_sound_def)
  then show ?thesis using active_owns [OF w assms(4,5)] w by (auto simp: worker_sound_def job_sound_def)
qed

lemma example_started:
  obtains y w x where "reachable_from starting server_step y" and "\<not> aborted y" and "w \<in> set (workers (sv y))"
    and "x \<in> set (ring (worker_dispatcher w))" and "fst x \<noteq> None"
proof -
  have i: "0 < length (workers (sv example_system))" "0 < available_jobs (workers (sv example_system) ! 0)"
    using example_system_fields by simp_all
  obtain z w where fl: "flooded 0 example_system z" and z: "main_thread z = Receiving 0 0"
    "sv z = set_worker 0 w (sv example_system)" "0 < length (worker_jobs w)" "\<not> aborted z"
    using idle_to_receiving [OF starting_idle(1-3) [OF example_starting] example_system_fields(3) [symmetric] i] .
  let ?inp = "(oversized undefined)\<lparr>li_recvmsg := Recvd_Message (Sockaddr_In 1 1) [] False False\<rparr>"
  let ?s = "sv z"
  have ws: "workers ?s = [w]" and m: "metrics_callback ?s" "\<not> metrics_overdue ?s zero_timespec"
    by (simp_all add: z(2) set_worker_def example_system_def example_server_def example_workers_def metrics_overdue_def
        remaining_time_def)
  obtain msg where rd: "server_round ?inp 0 0 ?s
      = (None, start_session ?inp 0 0 (set_worker 0 (store_request msg 0 w) ?s))"
    using m by (auto simp: server_round_def oversized_def recvmsg_request_def parse_request_metadata_def
        classify_receive_def no_request_def tftp_request_packet_max_size_def ws Let_def)
  let ?v = "store_request msg 0 w"
  let ?e = "event_id (session_id (job_session (worker_jobs ?v ! 0))) EVENT_START"
  obtain v where v: "workers (start_session ?inp 0 0 (set_worker 0 ?v ?s)) = [v]"
    "(Some ?e, Req_Nop) \<in> set (ring (worker_dispatcher v))"
    by (simp add: start_session_def oversized_def set_worker_def ws worker_pool_start_job_def dispatcher_submit_def
        submit_request_def Let_def)
  let ?y = "z\<lparr>main_thread := Choosing, sv := start_session ?inp 0 0 (set_worker 0 ?v ?s)\<rparr>"
  have "server_step z ?y" using receive [OF z(4,1) rd] by simp
  then have st: "server_step\<^sup>*\<^sup>* example_system ?y" using flooded_steps [OF fl] by simp
  have "reachable_from starting server_step ?y"
    using st by (induction rule: rtranclp_induct) (auto intro: reach_init reach_step example_starting)
  then show thesis using that [of ?y v "(Some ?e, Req_Nop)"] v z(4) by simp
qed

theorem completions_reach_active_jobs_witness:
  "\<exists>(y :: system) w x i. w \<in> set (workers (sv y)) \<and> x \<in> set (ring (worker_dispatcher w)) \<and> fst x = Some i
     \<and> job_active (worker_jobs w ! unat (event_session i))"
proof -
  obtain y w x where y: "reachable_from starting server_step y" "\<not> aborted y" "w \<in> set (workers (sv y))"
    "x \<in> set (ring (worker_dispatcher w))" "fst x \<noteq> None"
    by (rule example_started)
  obtain i where i: "fst x = Some i" using y(5) by blast
  show ?thesis using completions_reach_active_jobs [OF y(1-4) i] y(3,4) i by blast
qed

text \<open>
  C27: The load is balanced.  If no semaphore is negative or above its maximum (which holds in every reachable
  state), \<open>get_least_busy_worker\<close> finds a worker, and none has fewer jobs in use.
\<close>

theorem least_busy_worker_chosen:
  assumes "ws \<noteq> []" and "\<forall>w \<in> set ws. 0 \<le> available_jobs w \<and> available_jobs w \<le> int (unat (max_jobs w))"
  shows "get_least_busy_worker ws < length ws
    \<and> (\<forall>w \<in> set ws. int (unat (max_jobs (ws ! get_least_busy_worker ws))) - available_jobs (ws ! get_least_busy_worker ws)
         \<le> int (unat (max_jobs w)) - available_jobs w)"
  using least_busy_worker [OF assms] by blast

theorem least_busy_worker_chosen_witness:
  "let w = fst (snd (worker_init 0 2 blank_session (\<lambda>r. True))); ws = [w\<lparr>available_jobs := 0\<rparr>, w\<lparr>available_jobs := 1\<rparr>]
   in get_least_busy_worker ws < 2 \<and> 2 - available_jobs (ws ! get_least_busy_worker ws) \<le> 1"
proof -
  let ?w = "fst (snd (worker_init 0 2 blank_session (\<lambda>r. True)))"
  let ?ws = "[?w\<lparr>available_jobs := 0\<rparr>, ?w\<lparr>available_jobs := 1\<rparr>]"
  have m: "max_jobs ?w = 2" by (simp add: worker_init_def Let_def)
  note t = least_busy_worker_chosen [of ?ws]
  have "get_least_busy_worker ?ws < length ?ws"
    "int (unat (max_jobs (?ws ! get_least_busy_worker ?ws))) - available_jobs (?ws ! get_least_busy_worker ?ws) \<le> 2 - 1"
    using t m by auto
  then show ?thesis unfolding Let_def using m by (auto simp: less_Suc_eq)
qed

text \<open>
  C10: Ignored requests use up the server.  Every round takes a slot, and a round whose datagram is dropped does
  not give it back.  Let a new server receive oversized datagrams and nothing else, as many as the slots of its
  workers (\<open>flooded\<close>: every round is one with such a datagram, and no call fails).  Then it can come to a
  state in which it waits for a slot, although no session was ever started and every job is free; and it never
  leaves this state: neither a request nor \<open>tftp_server_stop\<close> can end it, only a call that fails and exits.
\<close>

theorem ignored_requests_use_up_the_server:
  assumes "starting y" and "workers (sv y) \<noteq> []"
  shows "\<exists>z i. flooded (nat (sum_list (map available_jobs (workers (sv y))))) y z \<and> \<not> aborted z
    \<and> main_thread z = Waiting i \<and> sessions_count (sv z) = sessions_count (sv y)
    \<and> (\<forall>w \<in> set (workers (sv z)). free_jobs w = length (worker_jobs w))
    \<and> (\<forall>z'. server_step\<^sup>*\<^sup>* z z' \<longrightarrow> aborted z' \<or> main_thread z' = Waiting i)"
proof -
  obtain M where M: "\<forall>w \<in> set (workers (sv y)). max_jobs w = M" using starting_idle(4) [OF assms(1)] by blast
  obtain z i where z: "flooded (nat (slots y)) y z" "stuck_system i z" "sessions_count (sv z) = sessions_count (sv y)"
    using idle_gets_stuck [OF starting_idle(1-3) [OF assms(1)] assms(2) M] by blast
  have "\<not> aborted z" "main_thread z = Waiting i" "\<forall>w \<in> set (workers (sv z)). free_jobs w = length (worker_jobs w)"
    using z(2) by (auto simp: stuck_system_def idle_system_def idle_worker_def list_all_iff)
  moreover have "aborted z' \<or> main_thread z' = Waiting i" if "server_step\<^sup>*\<^sup>* z z'" for z'
    using stuck_runs [OF that z(2)] by (auto simp: stuck_system_def)
  ultimately show ?thesis using z(1,3) unfolding slots_def by blast
qed

theorem ignored_requests_use_up_the_server_witness:
  "\<exists>z i. flooded 2 example_system z \<and> \<not> aborted z \<and> main_thread z = Waiting i
    \<and> (\<forall>z'. server_step\<^sup>*\<^sup>* z z' \<longrightarrow> aborted z' \<or> main_thread z' = Waiting i)"
proof -
  have "workers (sv example_system) \<noteq> []" using example_system_fields(1) by auto
  moreover have "nat (sum_list (map available_jobs (workers (sv example_system)))) = 2"
    by (simp add: example_system_def example_server_def example_workers_def worker_init_def Let_def)
  ultimately show ?thesis using ignored_requests_use_up_the_server [OF example_starting] by auto
qed

text \<open>
  C11: Overdue statistics make the server deaf.  If the interval of the statistics is already over at the
  beginning of a round, nothing is received and the round counts as a success with an empty request, so
  \<open>metrics_callback\<close> is not called, the interval does not start again and no session is started; as time
  does not go back, the same holds for every later round.
\<close>

theorem overdue_metrics_never_run:
  assumes "metrics_overdue s now" and "timespec_to_double now \<le> timespec_to_double (li_now inp)"
    and "server_round inp i j s = (r, s')"
  shows "r = None \<and> metrics_runs s' = metrics_runs s \<and> sessions_count s' = sessions_count s
    \<and> metrics_overdue s' (li_now inp)
    \<and> (\<exists>msg. workers s' = (workers s)[i := store_request msg j (workers s ! i)])"
proof -
  have late: "metrics_overdue s (li_now inp)"
    using assms(1,2) by (simp add: metrics_overdue_def remaining_time_def)
  then have "server_round inp i j s = (None, set_worker i (store_request no_request j (workers s ! i)) s)"
    by (simp add: server_round_def classify_receive_def parse_request_metadata_def no_request_def Let_def)
  then have "r = None" "s' = set_worker i (store_request no_request j (workers s ! i)) s" using assms(3) by simp_all
  then show ?thesis using late by (auto simp: set_worker_def metrics_overdue_def remaining_time_def)
qed

theorem overdue_metrics_never_run_witness:
  "\<exists>s'. server_round ((oversized undefined)\<lparr>li_now := \<lparr>tv_sec = 61, tv_nsec = 0\<rparr>\<rparr>) 0 0 example_server = (None, s')
     \<and> metrics_runs s' = 0"
proof -
  let ?inp = "(oversized undefined)\<lparr>li_now := \<lparr>tv_sec = 61, tv_nsec = 0\<rparr>\<rparr>"
  have o: "metrics_overdue example_server \<lparr>tv_sec = 60, tv_nsec = 0\<rparr>"
    by (simp add: metrics_overdue_def remaining_time_def example_server_def timespec_to_double_def zero_timespec_def)
  have t: "timespec_to_double \<lparr>tv_sec = 60, tv_nsec = 0\<rparr> \<le> timespec_to_double (li_now ?inp)"
    by (simp add: timespec_to_double_def)
  obtain r s' where r: "server_round ?inp 0 0 example_server = (r, s')" by fastforce
  show ?thesis using overdue_metrics_never_run [OF o t r] r by (auto simp: example_server_def)
qed

end
