(* ===== verification/Tftp_Write_Start.thy ===== *)
theory Tftp_Write_Start
  imports Tftp_Session_Write Tftp_Read_Start Tftp_Server
begin

text \<open>
  Complete write sessions: from the start event of a plain write request, over a small upload computed event
  by event, to the properties of write sessions: what they store, the file that cannot be opened, and the
  acknowledgement that is lost.
\<close>

section \<open>The start of a write session\<close>

text \<open>
  A write session that waits for the first block; \<open>fo\<close> is the file it will write, if it could open one.
\<close>

definition awaits_write :: "sockaddr \<Rightarrow> file_object option \<Rightarrow> session \<Rightarrow> bool" where
  "awaits_write a fo s \<longleftrightarrow> request_type s = SESSION_WRITE_REQUEST \<and> open_file s = fo \<and> block_size s = 512
     \<and> expected_sequence_number s = 1 \<and> \<not> valid_options_required (opts s) \<and> \<not> should_close s
     \<and> pending_jobs s = 1 \<and> out s = [(a, tftp_ack_packet_init 0)] \<and> client_address s = a \<and> sys s = []
     \<and> 512 \<le> length (recv_buffer s) \<and> ring (dispatcher s) \<noteq> []
     \<and> last (ring (dispatcher s)) = (Some (event_id (session_id s) EVENT_PACKET_RECEIVED), Req_Recvmsg (length (recv_buffer s)))"

lemma start_fields:
  assumes "just_started s"
  shows "block_size s = 512" "window_size s = 1" "\<not> is_adaptive_timeout_active s" "\<not> should_close s"
    "pending_jobs s = 0"
proof -
  obtain info req d0 w where s: "s = (tftp_session_init (session_id s) info
            (snd (dispatcher_submit True (Some (event_id (session_id s) EVENT_START)) d0)) w)
            \<lparr>request_args := req\<rparr>"
    using assms unfolding just_started_def by blast
  show "block_size s = 512" "window_size s = 1" "\<not> is_adaptive_timeout_active s" "\<not> should_close s"
    "pending_jobs s = 0"
    by (subst s, simp add: tftp_session_init_def tftp_default_blksize_def)+
qed

lemma first_ack_nominal:
  "sys s = [] \<Longrightarrow> send_first_ack s = (Ret_True, s\<lparr>out := out s @ [(client_address s, tftp_ack_packet_init 0)]\<rparr>)"
  by (simp add: send_first_ack_def sendto_def sys_call_def tftp_ack_packet_init_def)

lemma recv_async_ring:
  assumes "sys s = []"
  obtains d where "recv_async s = (Ret_True, s\<lparr>dispatcher := d, pending_jobs := pending_jobs s + 1\<rparr>)"
    and "ring d = ring (dispatcher s) @ [(Some (event_id (session_id s) EVENT_PACKET_RECEIVED), Req_Recvmsg (length (recv_buffer s)))]"
proof -
  let ?d = "snd (submit_request True (Some (ev EVENT_PACKET_RECEIVED s)) (Req_Recvmsg (length (recv_buffer s))) (dispatcher s))"
  have "recv_async s = (Ret_True, s\<lparr>dispatcher := ?d, pending_jobs := pending_jobs s + 1\<rparr>)"
    unfolding recv_async_def
    by (rule submit_nominal [OF assms]) (simp add: dispatcher_submit_recvmsg_def)
  then show thesis by (rule that) (simp add: submit_request_def ev_def)
qed

text \<open>A start that does not close the session answers a write request without options with ACK 0.\<close>

lemma write_session_listens:
  assumes s: "just_started s" "i < length (ring (dispatcher s))"
    "fst (ring (dispatcher s) ! i) = Some (event_id (session_id s) EVENT_START)"
    and x: "start (s\<lparr>dispatcher := snd (dispatcher_wait_event i 0 (dispatcher s))\<rparr>) = (Ret_True, x)"
    and f: "sys x = []" "out x = []" "\<not> should_close x" "\<not> valid_options_required (opts x)"
      "request_type x = SESSION_WRITE_REQUEST" "expected_sequence_number x = 1" "block_size x = 512"
      "512 \<le> length (recv_buffer x)" "pending_jobs x = 0"
  obtains t where "session_step i (C_Result 0) s = Some (TFTP_SESSION_STATE_IDLE, t)"
    and "awaits_write (client_address x) (open_file x) t" and "stats t = stats x"
proof -
  let ?u = "s\<lparr>dispatcher := snd (dispatcher_wait_event i 0 (dispatcher s))\<rparr>"
  let ?y = "x\<lparr>out := [(client_address x, tftp_ack_packet_init 0)]\<rparr>"
  obtain d where d: "recv_async ?y = (Ret_True, ?y\<lparr>dispatcher := d, pending_jobs := pending_jobs ?y + 1\<rparr>)"
    "ring d = ring (dispatcher ?y) @ [(Some (event_id (session_id ?y) EVENT_PACKET_RECEIVED), Req_Recvmsg (length (recv_buffer ?y)))]"
    by (rule recv_async_ring [of ?y]) (use f in simp)
  let ?t = "?y\<lparr>dispatcher := d, pending_jobs := pending_jobs ?y + 1\<rparr>"
  have a: "\<not> awaiting_options_ack x" using f by (simp add: awaiting_options_ack_def)
  have h: "handle_start ?u = (Ret_True, ?t)"
    unfolding handle_start_def chain.simps x prod.case ret.case
    using f a first_ack_nominal [OF f(1)] d(1) by simp
  moreover have "fetch_data ?t = (Ret_True, ?t)" using f by (simp add: fetch_data_def should_fetch_data_def)
  ultimately have "chain [handle_start, fetch_data] ?u = (Ret_True, ?t)" by simp
  moreover have "\<not> should_close ?t" using f by simp
  ultimately have "session_step i (C_Result 0) s = Some (TFTP_SESSION_STATE_IDLE, ?t)"
    by (rule start_event_step [OF s])
  moreover have "awaits_write (client_address x) (open_file x) ?t" using f d(2) by (simp add: awaits_write_def)
  ultimately show thesis by (rule that) simp
qed

lemma plain_write_awaits:
  assumes s: "just_started s" "i < length (ring (dispatcher s))"
    "fst (ring (dispatcher s) ! i) = Some (event_id (session_id s) EVENT_START)"
    and "sys s = []" "out s = []" "\<not> is_orig_dest_addr_ipv4 (request_args s)" "is_request_valid s"
    "requested s = SESSION_WRITE_REQUEST"
    and so: "session_options_init (take (nat (bytes_recvd (request_args s)) - 2) (drop 2 (buffer (request_args s))))
       = Some (True, so, m, None)" "options_str so = None" "\<not> valid_options_required so"
       "cstr_at (options_storage so) 0 = Some fn"
    and fi: "session_file_init (os s) fn (root_dir (server_info s)) SESSION_FILE_MODE_WRITE TFTP_READ_TYPE_FILE = r"
      "r = File_Opened fo \<or> r = File_Error code message"
  obtains t where "session_step i (C_Result 0) s = Some (TFTP_SESSION_STATE_IDLE, t)"
    and "awaits_write (peer_addr (request_args s)) (if r = File_Opened fo then Some fo else None) t"
proof -
  let ?u = "s\<lparr>dispatcher := snd (dispatcher_wait_event i 0 (dispatcher s))\<rparr>"
  note sf = start_fields [OF s(1)] just_started_fields [OF s(1)]
  have "is_request_valid ?u = is_request_valid s" unfolding is_request_valid_def by simp
  then have u: "is_request_valid ?u" "requested ?u = SESSION_WRITE_REQUEST"
    using assms(7,8) by (simp_all add: requested_def)
  show thesis
  proof (cases "r = File_Opened fo")
    case True
    obtain rb et where st: "start ?u = (Ret_True, ?u\<lparr>request_type := requested ?u,
        client_address := peer_addr (request_args ?u), sockfd := 4,
        last_message_address := peer_addr (request_args ?u), stats := tftp_session_stat_init,
        opts := so, mode := m, file_descriptor := os_descriptor (os ?u), open_file := Some fo, data_packets :=
        replicate (unat (window_size ?u)) (replicate (4 + unat (block_size ?u)) NUL), recv_buffer := rb,
        event_timeout := et\<rparr>)" (is "_ = (_, ?x)")
      by (rule start_nominal [of ?u so m fn fo])
        (use assms(4,6) so fi(1) True u start_fields [OF s(1)] in \<open>simp_all add: mode_for_def del: replicate.simps\<close>)
    have "4 + unat (block_size ?x) \<le> length (recv_buffer ?x)"
      using start_opened [OF st] sf by simp
    then have "512 \<le> length rb" using sf by simp
    then obtain t where "session_step i (C_Result 0) s = Some (TFTP_SESSION_STATE_IDLE, t)"
        "awaits_write (client_address ?x) (open_file ?x) t"
      by (rule_tac write_session_listens [OF s st]) (use assms u sf in \<open>simp_all del: replicate.simps\<close>)
    then show thesis using that True by simp
  next
    case False
    let ?s4 = "?u\<lparr>request_type := requested ?u, recv_buffer := replicate (unat tftp_default_blksize) NUL,
      client_address := peer_addr (request_args ?u), sockfd := 4,
      last_message_address := peer_addr (request_args ?u), stats := tftp_session_stat_init, opts := so, mode := m\<rparr>"
    let ?x = "set_error code message (?s4\<lparr>file_descriptor := - 1, open_file := None\<rparr>)"
    have "start_file TFTP_READ_TYPE_FILE ?s4 = (Ret_True, ?x)"
      using False fi so u(2) by (simp add: start_file_def del: replicate.simps)
    then have st: "start ?u = (Ret_True, ?x)"
      using start_plain [of ?u so m] assms(4,6) so(1,2) u(1) by (simp del: replicate.simps)
    obtain t where "session_step i (C_Result 0) s = Some (TFTP_SESSION_STATE_IDLE, t)"
        "awaits_write (client_address ?x) (open_file ?x) t"
      by (rule write_session_listens [OF s st])
        (use assms u sf in \<open>simp_all add: set_error_def tftp_default_blksize_def del: replicate.simps\<close>)
    then show thesis using that False by (simp add: set_error_def)
  qed
qed

section \<open>The arrival of a block\<close>

lemma opcode_of_DATA: "opcode_of (opcode_value TFTP_OPCODE_DATA) = Some TFTP_OPCODE_DATA"
  by (simp add: opcode_of_Some)

text \<open>The state in which a DATA packet from the client is handled.\<close>

lemma on_packet_received_data:
  assumes "is_success e" and "ev_result e = int (4 + length data)"
    and "set_address_family (last_message_address s) \<noteq> None"
    and "sockaddr_equals (last_message_address s) (client_address s)"
    and "recv_buffer s = tftp_data_packet_init block @ data @ rest" and "request_type s = SESSION_WRITE_REQUEST"
  shows "on_packet_received e s = on_data block data s"
proof -
  have "dec16 (recv_buffer s) = Some (opcode_value TFTP_OPCODE_DATA, be16 block @ data @ rest)"
    using assms(5) by (simp add: tftp_data_packet_init_def)
  moreover have "dec16 (be16 block @ data @ rest) = Some (block, data @ rest)" by simp
  moreover have "opcode_value TFTP_OPCODE_DATA \<noteq> opcode_value TFTP_OPCODE_ERROR" by simp
  ultimately show ?thesis
    using assms opcode_of_DATA by (auto simp: on_packet_received_def on_packet_def simp del: opcode_value.simps)
qed

lemma data_step:
  assumes r: "i < length (ring (dispatcher s))"
    "ring (dispatcher s) ! i = (Some (event_id (session_id s) EVENT_PACKET_RECEIVED), Req_Recvmsg (length (recv_buffer s)))"
    and p: "p = tftp_data_packet_init block @ data" "4 + length data \<le> length (recv_buffer s)"
    and a: "set_address_family a \<noteq> None" "sockaddr_equals a (client_address s)"
    and w: "request_type s = SESSION_WRITE_REQUEST" "\<not> should_close s"
    and h: "on_data block data (s\<lparr>last_message_address := a, recv_buffer := splice 0 p (recv_buffer s),
        dispatcher := snd (dispatcher_wait_event i (int (length p)) (dispatcher s)), pending_jobs := pending_jobs s - 1\<rparr>)
      = (x, u)"
  shows "session_step i (C_Datagram a p) s = Some (case x of
      Fault \<Rightarrow> (Session_Fault, u)
    | Ret_False \<Rightarrow> (TFTP_SESSION_STATE_ERROR, u)
    | Ret_True \<Rightarrow>
        (case chain [\<lambda>s. if should_close s then (Ret_True, s) else recv_async s, fetch_data] u of
           (Fault, v) \<Rightarrow> (Session_Fault, v)
         | (Ret_False, v) \<Rightarrow> (TFTP_SESSION_STATE_ERROR, v)
         | (Ret_True, v) \<Rightarrow> if should_close v \<and> pending_jobs v = 0 then (TFTP_SESSION_STATE_CLOSED, close_session v)
                          else (TFTP_SESSION_STATE_IDLE, v)))"
proof -
  let ?d = "snd (dispatcher_wait_event i (int (length p)) (dispatcher s))"
  let ?e = "\<lparr>ev_id = event_id (session_id s) EVENT_PACKET_RECEIVED, is_success = True, ev_result = int (length p)\<rparr>"
  let ?s1 = "s\<lparr>last_message_address := a, recv_buffer := splice 0 p (recv_buffer s)\<rparr>"
  let ?u = "?s1\<lparr>dispatcher := ?d, pending_jobs := pending_jobs s - 1\<rparr>"
  have lp: "length p = 4 + length data" using p(1) by (simp add: length_data_header)
  have c: "complete (Req_Recvmsg (length (recv_buffer s))) (C_Datagram a p) s = Some (int (length p), ?s1)"
    using lp p(2) by simp
  have w': "dispatcher_wait_event i (int (length p)) (dispatcher ?s1) = (Some ?e, ?d)"
    using r by (simp add: dispatcher_wait_event_def)
  have "on_packet_received ?e ?u = on_data block data ?u"
    by (rule on_packet_received_data [where rest = "drop (length p) (recv_buffer s)"])
      (use lp p(1) a w in \<open>simp_all add: splice_def\<close>)
  then have o': "on_packet_received ?e (pending_jobs_dec (?s1\<lparr>dispatcher := ?d\<rparr>)) = (x, u)"
    using h by (simp add: pending_jobs_dec_def)
  have dsp: "dispatch_event EVENT_PACKET_RECEIVED ?e (?s1\<lparr>dispatcher := ?d\<rparr>)
      = chain [on_packet_received ?e, \<lambda>s. if should_close s then (Ret_True, s) else recv_async s]
          (pending_jobs_dec (?s1\<lparr>dispatcher := ?d\<rparr>))"
    using w(2) by (simp add: pending_jobs_dec_def del: chain.simps)
  have "session_step i (C_Datagram a p) s = Some (tftp_session_handle_event ?e (?s1\<lparr>dispatcher := ?d\<rparr>))"
    unfolding session_step_def if_P [OF r(1)] r(2) fst_conv snd_conv c option.case prod.case w'
    by (simp add: event_session_id)
  also have "tftp_session_handle_event ?e (?s1\<lparr>dispatcher := ?d\<rparr>) = (case x of
      Fault \<Rightarrow> (Session_Fault, u)
    | Ret_False \<Rightarrow> (TFTP_SESSION_STATE_ERROR, u)
    | Ret_True \<Rightarrow>
        (case chain [\<lambda>s. if should_close s then (Ret_True, s) else recv_async s, fetch_data] u of
           (Fault, v) \<Rightarrow> (Session_Fault, v)
         | (Ret_False, v) \<Rightarrow> (TFTP_SESSION_STATE_ERROR, v)
         | (Ret_True, v) \<Rightarrow> if should_close v \<and> pending_jobs v = 0 then (TFTP_SESSION_STATE_CLOSED, close_session v)
                          else (TFTP_SESSION_STATE_IDLE, v)))"
    unfolding tftp_session_handle_event_def
    by (cases x) (auto simp: get_event_id dsp o' simp del: dispatch_event.simps split: prod.splits ret.splits)
  finally show ?thesis .
qed

lemma on_data_nominal:
  assumes "sys s = []" and "\<not> awaiting_options_ack s" and "block = expected_sequence_number s"
    and "open_file s = Some fo"
  shows "on_data block data s = (Ret_True, s\<lparr>open_file := Some (file_write data fo),
    stats := (stats s)\<lparr>bytes_sent := bytes_sent (stats s) + length data, packets_acked := packets_acked (stats s) + 1\<rparr>,
    out := out s @ [(client_address s, tftp_ack_packet_init block)],
    expected_sequence_number := expected_sequence_number s + 1, current_retransmission := 0,
    should_close := length data < unat (block_size s)\<rparr>)"
  using assms
  by (simp add: on_data_def write_data_def sys_call_def send_or_fail_def sendto_def assign_def tftp_ack_packet_init_def)

lemma on_data_unopened:
  assumes "sys s = []" and "\<not> awaiting_options_ack s" and "block = expected_sequence_number s" and "open_file s = None"
  shows "\<exists>u. on_data block data s = (Ret_False, u)"
  using assms by (simp add: on_data_def write_data_def sys_call_def)

lemma awaits_write_ring:
  assumes "awaits_write a fo t"
  shows "length (ring (dispatcher t)) - 1 < length (ring (dispatcher t))"
    "ring (dispatcher t) ! (length (ring (dispatcher t)) - 1)
       = (Some (event_id (session_id t) EVENT_PACKET_RECEIVED), Req_Recvmsg (length (recv_buffer t)))"
  using assms last_conv_nth [of "ring (dispatcher t)"] by (simp_all add: awaits_write_def)

lemma awaits_write_started:
  assumes "just_started s" and "out s = []" and "session_step i (C_Result 0) s = Some (TFTP_SESSION_STATE_IDLE, t)"
    and "awaits_write a (Some fo) t" and "contents fo = []" "file_offset fo = 0"
    and "length f div 512 < 65536" and "blocks_of f 512 P"
  shows "write_started f P t"
proof -
  have a: "admissible i (C_Result 0) s" by (simp add: admissible_def ECANCELED_def)
  have b: "\<not> should_close t" "writes_file f t" "unat (block_size t) = 512"
    using assms(4-7) by (simp_all add: awaits_write_def writes_file_def blocks_def)
  show ?thesis unfolding write_started_def b(3) using assms(1-3,8) a b(1,2) by blast
qed

section \<open>A small upload\<close>

definition empty_file :: file_object where
  "empty_file = \<lparr>contents = [], file_offset = 0, kind = Regular_File\<rparr>"

text \<open>A request to write the file \<open>f\<close> in octet mode; \<open>r\<close> is what \<open>open\<close> answers.\<close>

definition upload_job :: "int + file_object \<Rightarrow> session" where
  "upload_job r = (example_session (be16 2 @ zstr ''f'' @ zstr ''octet''))
     \<lparr>os := plain_os\<lparr>os_open := (\<lambda>p w. r)\<rparr>\<rparr>"

lemma upload_request:
  "request_args (upload_job r) = example_request (be16 2 @ zstr ''f'' @ zstr ''octet'')"
  "server_info (upload_job r) = example_info"
  by (simp_all add: upload_job_def example_session_def blank_session_def)

lemma upload_options:
  "\<exists>so. session_options_init (take (nat (bytes_recvd (request_args (upload_job r))) - 2)
         (drop 2 (buffer (request_args (upload_job r))))) = Some (True, so, TFTP_MODE_OCTET, None)
     \<and> options_str so = None \<and> \<not> valid_options_required so \<and> cstr_at (options_storage so) 0 = Some ''f''"
proof -
  let ?bs = "be16 2 @ zstr ''f'' @ zstr ''octet''"
  have "(case session_options_init (take (nat (bytes_recvd (example_request ?bs)) - 2)
         (drop 2 (buffer (example_request ?bs)))) of Some (ok, so, m, err) \<Rightarrow> ok \<and> m = TFTP_MODE_OCTET \<and> err = None
     \<and> options_str so = None \<and> \<not> valid_options_required so \<and> cstr_at (options_storage so) 0 = Some ''f'' | None \<Rightarrow> False)"
    by code_simp
  then show ?thesis unfolding upload_request by (auto split: option.splits)
qed

lemma upload_fields:
  "just_started (upload_job r)" "0 < length (ring (dispatcher (upload_job r)))"
  "fst (ring (dispatcher (upload_job r)) ! 0) = Some (event_id (session_id (upload_job r)) EVENT_START)"
  "sys (upload_job r) = []" "out (upload_job r) = []" "\<not> is_orig_dest_addr_ipv4 (request_args (upload_job r))"
  "is_request_valid (upload_job r)"
  "tftp_get_opcode_unsafe (buffer (request_args (upload_job r))) = Some (opcode_value TFTP_OPCODE_WRQ)"
  "session_file_init (os (upload_job r)) fn (root_dir (server_info (upload_job r))) SESSION_FILE_MODE_WRITE TFTP_READ_TYPE_FILE
     = (case r of Inr f \<Rightarrow> File_Opened f | Inl errno \<Rightarrow>
          if errno = 13 then File_Error 2 ''Permission denied.''
          else if errno = 2 then File_Error 1 ''No such file or directory.'' else File_Error 0 ''error'')"
  "peer_addr (request_args (upload_job r)) = example_peer"
proof -
  show "just_started (upload_job r)" unfolding upload_job_def by (intro just_started_os example_just_started)
  show "0 < length (ring (dispatcher (upload_job r)))"
    "fst (ring (dispatcher (upload_job r)) ! 0) = Some (event_id (session_id (upload_job r)) EVENT_START)"
    "sys (upload_job r) = []" "out (upload_job r) = []"
    by (simp_all add: upload_job_def example_session_def blank_session_def start_event_def dispatcher_submit_def
        submit_request_def dispatcher_init_def)
  show "\<not> is_orig_dest_addr_ipv4 (request_args (upload_job r))"
    "peer_addr (request_args (upload_job r)) = example_peer"
    unfolding upload_request by (simp_all add: example_request_def)
  have "tftp_get_opcode_unsafe (buffer (example_request (be16 2 @ zstr ''f'' @ zstr ''octet''))) = Some (opcode_value TFTP_OPCODE_WRQ)"
    by code_simp
  then show "tftp_get_opcode_unsafe (buffer (request_args (upload_job r))) = Some (opcode_value TFTP_OPCODE_WRQ)"
    unfolding upload_request .
  show "is_request_valid (upload_job r)"
  proof -
    have "is_request_valid (example_session (be16 2 @ zstr ''f'' @ zstr ''octet''))" by code_simp
    moreover have "is_request_valid (upload_job r) = is_request_valid (example_session (be16 2 @ zstr ''f'' @ zstr ''octet''))"
      unfolding upload_job_def is_request_valid_def by simp
    ultimately show ?thesis by simp
  qed
  show "session_file_init (os (upload_job r)) fn (root_dir (server_info (upload_job r))) SESSION_FILE_MODE_WRITE TFTP_READ_TYPE_FILE
     = (case r of Inr f \<Rightarrow> File_Opened f | Inl errno \<Rightarrow>
          if errno = 13 then File_Error 2 ''Permission denied.''
          else if errno = 2 then File_Error 1 ''No such file or directory.'' else File_Error 0 ''error'')"
    by (simp add: upload_job_def example_session_def blank_session_def example_info_def session_file_init_def plain_os_def
        split: sum.split)
qed

text \<open>The whole upload of a file of five bytes.\<close>

lemma upload_run:
  obtains t u where "session_step 0 (C_Result 0) (upload_job (Inr empty_file)) = Some (TFTP_SESSION_STATE_IDLE, t)"
    and "awaits_write example_peer (Some empty_file) t"
    and "session_step (length (ring (dispatcher t)) - 1) (C_Datagram example_peer (data_datagram ''hello'' 512 0)) t
      = Some (TFTP_SESSION_STATE_CLOSED, u)"
    and "map_option contents (open_file u) = Some ''hello''" and "should_close u" and "block_size u = 512"
    and "out u = [(example_peer, tftp_ack_packet_init 0), (example_peer, tftp_ack_packet_init 1)]"
proof -
  let ?s = "upload_job (Inr empty_file)"
  obtain so where so: "session_options_init (take (nat (bytes_recvd (request_args ?s)) - 2)
         (drop 2 (buffer (request_args ?s)))) = Some (True, so, TFTP_MODE_OCTET, None)"
    "options_str so = None" "\<not> valid_options_required so" "cstr_at (options_storage so) 0 = Some ''f''"
    using upload_options by blast
  obtain t where t: "session_step 0 (C_Result 0) ?s = Some (TFTP_SESSION_STATE_IDLE, t)"
    "awaits_write example_peer (Some empty_file) t"
    by (rule plain_write_awaits [OF upload_fields(1-7) _ so upload_fields(9), where fo = empty_file])
      (simp_all add: requested_def upload_fields)
  note tf = t(2) [unfolded awaits_write_def]
  let ?i = "length (ring (dispatcher t)) - 1"
  let ?p = "tftp_data_packet_init 1 @ ''hello''"
  have p: "data_datagram ''hello'' 512 0 = ?p" by (simp add: data_datagram_def chunk_def)
  let ?d = "snd (dispatcher_wait_event ?i (int (length ?p)) (dispatcher t))"
  let ?t = "t\<lparr>last_message_address := example_peer, recv_buffer := splice 0 ?p (recv_buffer t), dispatcher := ?d,
    pending_jobs := pending_jobs t - 1\<rparr>"
  have on: "on_data 1 ''hello'' ?t = (Ret_True, ?t\<lparr>open_file := Some (file_write ''hello'' empty_file),
    stats := (stats ?t)\<lparr>bytes_sent := bytes_sent (stats ?t) + length ''hello'', packets_acked := packets_acked (stats ?t) + 1\<rparr>,
    out := out ?t @ [(client_address ?t, tftp_ack_packet_init 1)],
    expected_sequence_number := expected_sequence_number ?t + 1, current_retransmission := 0,
    should_close := length ''hello'' < unat (block_size ?t)\<rparr>)" (is "_ = (_, ?v)")
    by (rule on_data_nominal) (use tf in \<open>simp_all add: awaiting_options_ack_def\<close>)
  have sc: "should_close ?v" using tf by simp
  have pj: "pending_jobs ?v = 0" using tf by simp
  have fd: "fetch_data ?v = (Ret_True, ?v)" using tf by (simp add: fetch_data_def should_fetch_data_def)
  have st: "session_step ?i (C_Datagram example_peer ?p) t = Some (TFTP_SESSION_STATE_CLOSED, close_session ?v)"
    by (subst data_step [OF awaits_write_ring [OF t(2)] refl _ _ _ _ _ on])
      (use tf sc pj fd in \<open>simp_all add: example_peer_def\<close>)
  show thesis
  proof (rule that [OF t])
    show "session_step ?i (C_Datagram example_peer (data_datagram ''hello'' 512 0)) t
      = Some (TFTP_SESSION_STATE_CLOSED, close_session ?v)" unfolding p by (rule st)
  qed (use tf in \<open>simp_all add: close_session_def empty_file_def file_write_def splice_def\<close>)
qed

lemma upload_job_started:
  assumes "session_step 0 (C_Result 0) (upload_job (Inr empty_file)) = Some (TFTP_SESSION_STATE_IDLE, t)"
    and "awaits_write example_peer (Some empty_file) t"
  shows "reachable_from (write_started ''hello'' {data_datagram ''hello'' 512 0}) (write_running {data_datagram ''hello'' 512 0}) t"
    and "delivers {data_datagram ''hello'' 512 0} (C_Datagram a (data_datagram ''hello'' 512 0)) t"
proof -
  have "blocks_of ''hello'' 512 {data_datagram ''hello'' 512 0}" by (simp add: blocks_of_def)
  then have "write_started ''hello'' {data_datagram ''hello'' 512 0} t"
    by (intro awaits_write_started [OF upload_fields(1,5) assms]) (simp_all add: empty_file_def)
  then show "reachable_from (write_started ''hello'' {data_datagram ''hello'' 512 0})
      (write_running {data_datagram ''hello'' 512 0}) t" by (rule reach_init)
  show "delivers {data_datagram ''hello'' 512 0} (C_Datagram a (data_datagram ''hello'' 512 0)) t"
    using assms(2) by (simp add: delivers_def whole_write_def awaits_write_def)
qed

lemma session_stores:
  assumes "reachable_from (write_started f P) (write_running P) s" and "delivers P c s"
    and "session_step i c s = Some (st, t)" and "st = TFTP_SESSION_STATE_IDLE \<or> st = TFTP_SESSION_STATE_CLOSED"
  shows "\<exists>k fo. open_file t = Some fo \<and> contents fo = concat (map (chunk f (unat (block_size t))) [0..<k])
    \<and> (\<forall>x \<in> set (out t). is_ack_packet (snd x) \<longrightarrow> (\<exists>j\<le>k. snd x = tftp_ack_packet_init (word_of_nat j)))
    \<and> (\<forall>j. 1 \<le> j \<and> j \<le> k \<longrightarrow> (client_address t, tftp_ack_packet_init (word_of_nat j)) \<in> set (out t))
    \<and> (should_close t \<and> \<not> error_occurred (stats t) \<longrightarrow> contents fo = f)"
proof -
  obtain k where k: "stored f k t" "acks_sent k t" "should_close t \<and> \<not> error_occurred (stats t) \<longrightarrow> k = blocks f t"
      "0 < unat (block_size t)"
    using next_stores [OF assms(1-3)] assms(4) by (auto simp: stores_def)
  then obtain fo where fo: "open_file t = Some fo" "contents fo = concat (map (chunk f (unat (block_size t))) [0..<k])"
    by (auto simp: stored_def)
  have "contents fo = f" if "should_close t \<and> \<not> error_occurred (stats t)"
    using whole_file_stored [of f t] k that fo(1) by simp
  then show ?thesis using fo k(2) unfolding acks_sent_def by (intro exI [of _ k] exI [of _ fo]) simp
qed

section \<open>What write sessions do\<close>

text \<open>
  C4: What a write session stores.  After every event of a write session there is a number \<open>k\<close> such that the
  file holds exactly the first \<open>k\<close> chunks of the file \<open>f\<close> the client sends, blocks 1 to \<open>k\<close> have been
  acknowledged to the client and no later one has; and if the session closes without an error, the file is \<open>f\<close>.
  Datagrams may be lost, duplicated and reordered, timers may fire at any time, other peers may send
  anything; a \<open>write\<close> either writes all of its bytes or fails (the code does not look at short counts), and \<open>f\<close> has
  at most 65536 blocks.
\<close>

theorem write_session_stores_the_file:
  assumes "reachable_from (write_started f P) (write_running P) s" and "delivers P c s"
    and "session_step i c s = Some (st, t)" and "st = TFTP_SESSION_STATE_IDLE \<or> st = TFTP_SESSION_STATE_CLOSED"
  shows "\<exists>k fo. open_file t = Some fo \<and> contents fo = concat (map (chunk f (unat (block_size t))) [0..<k])
    \<and> (\<forall>x \<in> set (out t). is_ack_packet (snd x) \<longrightarrow> (\<exists>j\<le>k. snd x = tftp_ack_packet_init (word_of_nat j)))
    \<and> (\<forall>j. 1 \<le> j \<and> j \<le> k \<longrightarrow> (client_address t, tftp_ack_packet_init (word_of_nat j)) \<in> set (out t))
    \<and> (should_close t \<and> \<not> error_occurred (stats t) \<longrightarrow> contents fo = f)"
  using session_stores [OF assms] .

theorem write_session_stores_the_file_witness:
  "\<exists>t u. session_step (length (ring (dispatcher t)) - 1) (C_Datagram example_peer (data_datagram ''hello'' 512 0)) t
       = Some (TFTP_SESSION_STATE_CLOSED, u)
     \<and> (\<exists>k fo. open_file u = Some fo \<and> contents fo = concat (map (chunk ''hello'' 512) [0..<k])
          \<and> (example_peer, tftp_ack_packet_init 1) \<in> set (out u))"
proof -
  obtain t u where t: "session_step 0 (C_Result 0) (upload_job (Inr empty_file)) = Some (TFTP_SESSION_STATE_IDLE, t)"
    "awaits_write example_peer (Some empty_file) t"
    and u: "session_step (length (ring (dispatcher t)) - 1) (C_Datagram example_peer (data_datagram ''hello'' 512 0)) t
      = Some (TFTP_SESSION_STATE_CLOSED, u)" "block_size u = 512"
    "out u = [(example_peer, tftp_ack_packet_init 0), (example_peer, tftp_ack_packet_init 1)]"
    by (rule upload_run) blast
  obtain k fo where "open_file u = Some fo" "contents fo = concat (map (chunk ''hello'' 512) [0..<k])"
    using write_session_stores_the_file [OF upload_job_started [OF t] u(1)] u(2) by auto
  then show ?thesis using u(1,3) by (intro exI [of _ t] exI [of _ u] conjI exI [of _ k] exI [of _ fo]) simp_all
qed

section \<open>Two failures\<close>

text \<open>A block for a session without a file is an error of the whole server, whatever its length.\<close>

lemma datagram_cut:
  assumes "ring (dispatcher s) ! i = (x, Req_Recvmsg n)"
  shows "session_step i (C_Datagram a p) s = session_step i (C_Datagram a (take n p)) s"
  by (simp add: session_step_def assms)

lemma unopened_block:
  assumes w: "awaits_write a None t" and a: "set_address_family a \<noteq> None"
  shows "\<exists>u. session_step (length (ring (dispatcher t)) - 1) (C_Datagram a (tftp_data_packet_init 1 @ data)) t
    = Some (TFTP_SESSION_STATE_ERROR, u)"
proof -
  note tf = w [unfolded awaits_write_def]
  let ?n = "length (recv_buffer t)"
  let ?data = "take (?n - 4) data"
  let ?i = "length (ring (dispatcher t)) - 1" and ?p = "tftp_data_packet_init 1 @ ?data"
  let ?t = "t\<lparr>last_message_address := a, recv_buffer := splice 0 ?p (recv_buffer t),
    dispatcher := snd (dispatcher_wait_event ?i (int (length ?p)) (dispatcher t)), pending_jobs := pending_jobs t - 1\<rparr>"
  have n: "4 \<le> ?n" using tf by linarith
  then have p: "take ?n (tftp_data_packet_init 1 @ data) = ?p" by (simp add: length_data_header)
  have le: "4 + length ?data \<le> ?n" using n by (auto simp: min_def)
  obtain u where u: "on_data 1 ?data ?t = (Ret_False, u)"
    using on_data_unopened [of ?t 1 ?data] tf by (auto simp: awaiting_options_ack_def)
  have "session_step ?i (C_Datagram a ?p) t = Some (TFTP_SESSION_STATE_ERROR, u)"
    by (subst data_step [OF awaits_write_ring [OF w] refl _ _ _ _ _ u])
      (use tf a le sockaddr_equals_refl in simp_all)
  then show ?thesis unfolding datagram_cut [OF awaits_write_ring(2) [OF w], of a "tftp_data_packet_init 1 @ data"] p ..
qed

lemma unopened_write:
  assumes "just_started s" and "i < length (ring (dispatcher s))"
    and "fst (ring (dispatcher s) ! i) = Some (event_id (session_id s) EVENT_START)"
    and "sys s = []" and "out s = []" and "\<not> is_orig_dest_addr_ipv4 (request_args s)" and "is_request_valid s"
    and "tftp_get_opcode_unsafe (buffer (request_args s)) = Some (opcode_value TFTP_OPCODE_WRQ)"
    and "session_options_init (take (nat (bytes_recvd (request_args s)) - 2) (drop 2 (buffer (request_args s))))
       = Some (True, so, m, None)"
    and "options_str so = None" and "\<not> valid_options_required so" and "cstr_at (options_storage so) 0 = Some fn"
    and "session_file_init (os s) fn (root_dir (server_info s)) SESSION_FILE_MODE_WRITE TFTP_READ_TYPE_FILE
       = File_Error code message"
    and "set_address_family (peer_addr (request_args s)) \<noteq> None"
  obtains t where "session_step i (C_Result 0) s = Some (TFTP_SESSION_STATE_IDLE, t)" and "\<not> should_close t"
    and "out t = [(peer_addr (request_args s), tftp_ack_packet_init 0)]" and "session_id t = session_id s"
    and "\<And>data. \<exists>u. session_step (length (ring (dispatcher t)) - 1)
                (C_Datagram (peer_addr (request_args s)) (tftp_data_packet_init 1 @ data)) t
              = Some (TFTP_SESSION_STATE_ERROR, u)"
proof -
  have "requested s = SESSION_WRITE_REQUEST" using assms(8) by (simp add: requested_def)
  then obtain t where t: "session_step i (C_Result 0) s = Some (TFTP_SESSION_STATE_IDLE, t)"
    "awaits_write (peer_addr (request_args s)) None t"
    using plain_write_awaits [OF assms(1-7) _ assms(9-13)] by auto
  have "session_id t = session_id s"
    using session_step_ring(1) [OF just_started_jobs_inv [OF assms(1)] t(1)] by simp
  then show thesis
    using that [OF t(1)] unopened_block [OF t(2) assms(14)] t(2) by (simp add: awaits_write_def)
qed

text \<open>The same as events of the worker the job belongs to.\<close>

lemma unopened_write_worker:
  assumes j: "j < length (worker_jobs w)" "j = unat (session_id (job_session (worker_jobs w ! j)))"
    and s: "s = (job_session (worker_jobs w ! j))\<lparr>dispatcher := worker_dispatcher w\<rparr>"
    and t: "session_step i (C_Result 0) s = Some (TFTP_SESSION_STATE_IDLE, t)" "session_id t = session_id s"
      "\<And>data. \<exists>u. session_step (length (ring (dispatcher t)) - 1) (C_Datagram a (tftp_data_packet_init 1 @ data)) t
         = Some (TFTP_SESSION_STATE_ERROR, u)"
  shows "\<exists>w1. worker_event i (C_Result 0) w = Some (JOB_STATE_RUNNING, w1) \<and> job_session (worker_jobs w1 ! j) = t
    \<and> (\<forall>data. \<exists>w2. worker_event (length (ring (worker_dispatcher w1)) - 1)
         (C_Datagram a (tftp_data_packet_init 1 @ data)) w1 = Some (JOB_STATE_ERROR, w2))"
proof -
  let ?w1 = "w\<lparr>worker_dispatcher := dispatcher t, worker_jobs := (worker_jobs w)[j := (worker_jobs w ! j)\<lparr>job_session := t,
      job_active := job_active (worker_jobs w ! j)\<rparr>]\<rparr>"
  have "worker_event i (C_Result 0) w = Some (JOB_STATE_RUNNING, ?w1)"
    using session_step_worker_event [OF t(1) [unfolded s] j(2,1)] by simp
  moreover have jt: "job_session (worker_jobs ?w1 ! j) = t" using j(1) by simp
  moreover have "\<exists>w2. worker_event (length (ring (worker_dispatcher ?w1)) - 1)
      (C_Datagram a (tftp_data_packet_init 1 @ data)) ?w1 = Some (JOB_STATE_ERROR, w2)" for data
  proof -
    obtain u where u: "session_step (length (ring (dispatcher t)) - 1) (C_Datagram a (tftp_data_packet_init 1 @ data)) t
        = Some (TFTP_SESSION_STATE_ERROR, u)" using t(3) by blast
    have "(job_session (worker_jobs ?w1 ! j))\<lparr>dispatcher := worker_dispatcher ?w1\<rparr> = t" using j(1) by simp
    then have "session_step (length (ring (worker_dispatcher ?w1)) - 1) (C_Datagram a (tftp_data_packet_init 1 @ data))
        ((job_session (worker_jobs ?w1 ! j))\<lparr>dispatcher := worker_dispatcher ?w1\<rparr>) = Some (TFTP_SESSION_STATE_ERROR, u)"
      using u by simp
    from session_step_worker_event [OF this] show ?thesis using j t(2) s jt by auto
  qed
  ultimately show ?thesis by blast
qed

text \<open>Without options no timer is ever started by a write session.\<close>

definition untimed :: "session \<Rightarrow> bool" where
  "untimed s \<longleftrightarrow> in_flight (event_id (session_id s) EVENT_TIMEOUT) (dispatcher s) = 0"

lemma untimed_appended: "appended E s t \<Longrightarrow> EVENT_TIMEOUT \<notin> E \<Longrightarrow> untimed s \<Longrightarrow> untimed t"
  using appended_counts(2) [of E s t EVENT_TIMEOUT] appended_session_id [of E s t] by (simp add: untimed_def)

lemma appended_on_packet:
  assumes "request_type s = SESSION_WRITE_REQUEST"
  shows "appended {} s (snd (on_packet n s))"
proof -
  have j: "same_jobs s (s\<lparr>should_close := True\<rparr>)" by (simp add: same_jobs_def)
  have "appended {} s (snd (report_client_error n (s\<lparr>should_close := True\<rparr>)))"
    by (rule submits_at [OF submits_report_client_error j])
  moreover have "appended {} s (snd (on_data b d s))" "appended {} s (snd (unexpected_opcode s))" for b d
    using submits_on_data [of "{}"] submits_unexpected_opcode [of "{}"] by (simp_all add: submits_def)
  ultimately show ?thesis using assms by (auto simp: on_packet_def split: option.splits)
qed

lemma appended_on_packet_received:
  assumes "request_type s = SESSION_WRITE_REQUEST"
  shows "appended {} s (snd (on_packet_received e s))"
proof -
  have "submits {} (chain [report_error c m d, assign (\<lambda>s. s\<lparr>stats := (stats s)\<lparr>error_occurred := False\<rparr>\<rparr>)])" for c m d
    by (auto intro!: submits_intros simp del: chain.simps)
  then show ?thesis
    using appended_on_packet [OF assms] by (auto simp: on_packet_received_def submits_def simp del: chain.simps)
qed

lemma untimed_dispatch:
  assumes u: "untimed u" and w: "request_type u = SESSION_WRITE_REQUEST"
    and ev': "ev' \<notin> {EVENT_START, EVENT_TIMEOUT, EVENT_DATA_AVAILABLE}"
    and run: "dispatch_event ev' e u = (Ret_True, v)"
  shows "untimed v"
proof -
  have pu: "untimed (pending_jobs_dec u)" "request_type (pending_jobs_dec u) = SESSION_WRITE_REQUEST"
    using u w by (simp_all add: untimed_def pending_jobs_dec_def)
  show ?thesis
  proof (cases "ev' = EVENT_PACKET_RECEIVED \<and> v \<noteq> pending_jobs_dec u")
    case True
    then have "chain [on_packet_received e, \<lambda>s. if should_close s then (Ret_True, s) else recv_async s] (pending_jobs_dec u)
        = (Ret_True, v)"
      using run by (auto simp: Let_def simp del: chain.simps split: if_splits)
    then obtain x where x: "on_packet_received e (pending_jobs_dec u) = (Ret_True, x)"
      and v: "(if should_close x then (Ret_True, x) else recv_async x) = (Ret_True, v)"
      by (elim chain2_TrueE) (rule that)
    have "untimed x"
      using untimed_appended [OF appended_on_packet_received [OF pu(2)] _ pu(1)] x by (metis empty_iff snd_conv)
    moreover have "appended {EVENT_PACKET_RECEIVED} x v"
      using v submitsD [OF submits_recv_async [of "{EVENT_PACKET_RECEIVED}"]] by (auto split: if_splits)
    ultimately show ?thesis using untimed_appended by blast
  next
    case False
    then have "v = pending_jobs_dec u" using run ev' by (cases ev') (auto simp: Let_def split: if_splits)
    then show ?thesis using pu(1) by simp
  qed
qed

lemma complete_request_type: "complete req c s = Some (res, s1) \<Longrightarrow> request_type s1 = request_type s"
  by (cases "(req, c, s)" rule: complete.cases) (auto split: if_splits option.splits prod.splits)

lemma untimed_start:
  assumes run: "handle_start u = (Ret_True, v)" and sc: "\<not> should_close v"
    and nv: "\<not> valid_options_required (opts v)" and w: "request_type v = SESSION_WRITE_REQUEST" and u: "untimed u"
  shows "untimed v"
proof -
  let ?g = "\<lambda>s. if awaiting_options_ack s then send_oack s
                else if request_type s = SESSION_WRITE_REQUEST then send_first_ack s else (Ret_True, s)"
  obtain x where x: "start u = (Ret_True, x)"
    and c: "(if should_close x then (Ret_True, x) else chain [?g, recv_async] x) = (Ret_True, v)"
    using run unfolding handle_start_def by (rule chain2_TrueE)
  have "\<not> should_close x" using c sc by auto
  then have "chain [?g, recv_async] x = (Ret_True, v)" using c by (simp del: chain.simps)
  then obtain y where g: "?g x = (Ret_True, y)" and rcv: "recv_async y = (Ret_True, v)"
    by (rule chain2_TrueE)
  have yv: "opts v = opts y" using steadily.doesD [OF steady_recv_async rcv] by (simp add: steady_def write_view_def)
  have na: "\<not> awaiting_options_ack x"
  proof
    assume a: "awaiting_options_ack x"
    then have "send_oack x = (Ret_True, y)" using g by simp
    then obtain b where "steady (x\<lparr>oack_packet := Some b\<rparr>) y" by (rule steady_send_oack)
    then have "opts y = opts x" by (simp add: steady_def write_view_def)
    then show False using a yv nv by (simp add: awaiting_options_ack_def)
  qed
  have "untimed x" by (rule untimed_appended [OF submitsD [OF submits_start [of "{}"] x] _ u]) simp
  moreover have "appended {} x y"
    using g na submitsD [OF submits_send_first_ack [of "{}"]] by (auto split: if_splits)
  ultimately have "untimed y" using untimed_appended by blast
  then show ?thesis
    by (intro untimed_appended [OF submitsD [OF submits_recv_async [of "{EVENT_PACKET_RECEIVED}"] rcv]]) simp_all
qed

text \<open>A step keeps it: without a timeout in flight, no handler submits one.\<close>

lemma untimed_step:
  assumes inv: "write_inv f P s" and jobs: "jobs_inv s" and u: "untimed s"
    and step: "session_step i c s = Some (TFTP_SESSION_STATE_IDLE, t)"
  shows "untimed t"
proof -
  obtain ev' req res s1 e x v w where
    rng: "ring (dispatcher s) ! i = (Some (event_id (session_id s) ev'), req)" "i < length (ring (dispatcher s))"
    and c: "complete req c s = Some (res, s1)" and fits: "request_fits ev' req"
    and j: "same_jobs s s1"
    and x: "x = snd (dispatcher_wait_event i res (dispatcher s1))"
    and v: "dispatch_event ev' e (s1\<lparr>dispatcher := x\<rparr>) = (Ret_True, v)" and w: "fetch_data v = (Ret_True, w)"
    and stt: "(TFTP_SESSION_STATE_IDLE, t) = (if should_close w \<and> pending_jobs w = 0 then (TFTP_SESSION_STATE_CLOSED, close_session w)
                else (TFTP_SESSION_STATE_IDLE, w))"
    by (rule step_inverts [OF jobs step]) auto
  have mem: "ring (dispatcher s) ! i \<in> set (ring (dispatcher s))" using rng(2) by simp
  have ns: "no_start s" "\<not> is_fetching_data s" using inv by (simp_all add: write_inv_def)
  have "in_flight (event_id (session_id s) EVENT_DATA_AVAILABLE) (dispatcher s) = 0"
    using jobs ns(2) by (simp add: jobs_inv_def Let_def)
  then have ev': "ev' \<notin> {EVENT_START, EVENT_TIMEOUT, EVENT_DATA_AVAILABLE}"
    using ns(1) u mem rng(1) by (auto simp: no_start_def untimed_def in_flight_zero_iff)
  have rt: "request_type s1 = SESSION_WRITE_REQUEST"
    using inv complete_request_type [OF c] by (auto simp: write_inv_def write_core_def)
  have sub: "set (ring x) \<subseteq> set (ring (dispatcher s))"
    using x j by (auto simp: dispatcher_wait_event_def same_jobs_def dest: in_set_takeD in_set_dropD)
  have "untimed (s1\<lparr>dispatcher := x\<rparr>)"
    using u sub j by (auto simp: untimed_def in_flight_zero_iff same_jobs_def)
  then have uv: "untimed v" by (rule untimed_dispatch [OF _ _ ev' v]) (simp add: rt)
  have "appended {EVENT_DATA_AVAILABLE} (v\<lparr>is_fetching_data := is_fetching_data v \<or> should_fetch_data v\<rparr>) w"
    using fetch_data_appended [of v] w by simp
  then have "untimed w" by (rule untimed_appended) (use uv in \<open>simp_all add: untimed_def\<close>)
  then show ?thesis using stt by (simp split: if_splits)
qed

definition plain_write_started :: "byte list \<Rightarrow> byte list set \<Rightarrow> session \<Rightarrow> bool" where
  "plain_write_started f P s \<longleftrightarrow> write_started f P s \<and> \<not> valid_options_required (opts s)"

lemma plain_started_untimed:
  assumes "plain_write_started f P s"
  shows "untimed s"
proof -
  obtain s0 i c where j: "just_started s0" and adm: "admissible i c s0"
    and step: "session_step i c s0 = Some (TFTP_SESSION_STATE_IDLE, s)" and sc: "\<not> should_close s"
    and wf: "writes_file f s" and nv: "\<not> valid_options_required (opts s)"
    using assms unfolding plain_write_started_def write_started_def by blast
  obtain d v where h: "handle_start (s0\<lparr>dispatcher := d\<rparr>) = (Ret_True, v)" and w: "fetch_data v = (Ret_True, s)"
    and z: "in_flight_of (session_id s0) d = 0"
    by (rule first_step [OF j adm step])
  have rt: "request_type v = SESSION_WRITE_REQUEST" using fetch_frame [OF w] wf by (simp add: writes_file_def)
  then have sv: "s = v" using w by (simp add: fetch_data_def should_fetch_data_def)
  have "untimed (s0\<lparr>dispatcher := d\<rparr>)" using z by (simp add: untimed_def in_flight_of_zero)
  then show ?thesis using untimed_start [OF h] sc nv rt sv by simp
qed

interpretation plain_write: invariant_machine "plain_write_started f P" "write_running P"
    "\<lambda>s. (jobs_inv s \<and> write_inv f P s) \<and> untimed s"
proof unfold_locales
  show "(jobs_inv s \<and> write_inv f P s) \<and> untimed s" if "plain_write_started f P s" for s
    using write_started_inv [of f P s] plain_started_untimed [OF that] that unfolding plain_write_started_def by simp
next
  fix s t
  assume i: "(jobs_inv s \<and> write_inv f P s) \<and> untimed s" and r: "write_running P s t"
  have "jobs_inv t \<and> write_inv f P t" by (rule write_transfer.inv_step [OF conjunct1 [OF i] r])
  moreover have "untimed t"
    using r i untimed_step unfolding write_running_def by blast
  ultimately show "(jobs_inv t \<and> write_inv f P t) \<and> untimed t" by simp
qed

text \<open>A block other than the expected one has no effect.\<close>

lemma duplicate_ignored:
  assumes inv: "write_inv f P s" and jobs: "jobs_inv s"
    and p: "p = tftp_data_packet_init block @ data" "block \<noteq> expected_sequence_number s"
    and a: "sockaddr_equals a (client_address s)"
    and step: "session_step i (C_Datagram a p) s = Some (st, t)"
    and st: "st = TFTP_SESSION_STATE_IDLE \<or> st = TFTP_SESSION_STATE_CLOSED"
  shows "out t = out s \<and> open_file t = open_file s"
proof -
  have st': "st \<noteq> TFTP_SESSION_STATE_ERROR" "st \<noteq> Session_Fault" using st by auto
  obtain ev' req res s1 e x v w where
    rng: "ring (dispatcher s) ! i = (Some (event_id (session_id s) ev'), req)" "i < length (ring (dispatcher s))"
    and c: "complete req (C_Datagram a p) s = Some (res, s1)" and fits: "request_fits ev' req"
    and e: "is_success e = (0 \<le> res)" "0 \<le> res \<Longrightarrow> ev_result e = res"
    and v: "dispatch_event ev' e (s1\<lparr>dispatcher := x\<rparr>) = (Ret_True, v)" and w: "fetch_data v = (Ret_True, w)"
    and stt: "(st, t) = (if should_close w \<and> pending_jobs w = 0 then (TFTP_SESSION_STATE_CLOSED, close_session w)
                else (TFTP_SESSION_STATE_IDLE, w))"
    by (rule step_inverts [OF jobs step st']) blast
  obtain bs k where core: "write_core f bs k s" using inv by (auto simp: write_inv_def)
  have ev': "ev' = EVENT_PACKET_RECEIVED" and n: "\<exists>n. req = Req_Recvmsg n"
    using c fits by (cases req; cases ev'; simp)+
  then have req: "req = Req_Recvmsg (length (recv_buffer s))"
    using core rng nth_mem [OF rng(2)] unfolding write_core_def receive_ready_def receives_whole_def by auto
  let ?n = "length (recv_buffer s)"
  have n4: "4 \<le> ?n" using core by (simp add: write_core_def)
  have s1: "s1 = s\<lparr>last_message_address := a, recv_buffer := splice 0 (take ?n p) (recv_buffer s)\<rparr>"
    and res: "res = int (length (take ?n p))" using c req by simp_all
  have tp: "take ?n p = tftp_data_packet_init block @ take (?n - 4) data"
    using n4 by (simp add: p(1) length_data_header)
  let ?u = "pending_jobs_dec (s1\<lparr>dispatcher := x\<rparr>)"
  have fu: "out ?u = out s" "open_file ?u = open_file s" "request_type ?u = SESSION_WRITE_REQUEST"
    "last_message_address ?u = a" "client_address ?u = client_address s"
    "recv_buffer ?u = tftp_data_packet_init block @ take (?n - 4) data @ drop (length (take ?n p)) (recv_buffer s)"
    using core tp by (simp_all add: pending_jobs_dec_def s1 splice_def write_core_def)
  have "set_address_family a \<noteq> None" using a by (cases a) auto
  then have "on_packet_received e ?u = on_data block (take (?n - 4) data) ?u"
    by (intro on_packet_received_data) (use e res tp fu a in \<open>simp_all add: length_data_header\<close>)
  moreover have "on_data block (take (?n - 4) data) ?u = (Ret_True, ?u)"
  proof -
    have "expected_sequence_number ?u = expected_sequence_number s" by (simp add: pending_jobs_dec_def s1)
    moreover have "\<not> (awaiting_options_ack ?u \<and> block = 1)"
      using core p(2) by (auto simp: write_core_def awaiting_options_ack_def pending_jobs_dec_def s1)
    ultimately show ?thesis using p(2) by (auto simp: on_data_def Let_def simp del: chain.simps)
  qed
  ultimately have "v = ?u \<or> recv_async ?u = (Ret_True, v)"
    using v unfolding ev' by (auto simp: Let_def split: if_splits prod.splits ret.splits)
  moreover have "out y = out z \<and> open_file y = open_file z \<and> request_type y = request_type z"
    if "recv_async z = (r, y)" for r y and z :: session
    using that by (cases "sys z") (auto simp: recv_async_def submit_def sys_call_def split: prod.splits if_splits)
  ultimately have ov: "out v = out s" "open_file v = open_file s" "request_type v = SESSION_WRITE_REQUEST"
    using fu(1-3) by auto
  then have "w = v" using w by (simp add: fetch_data_def should_fetch_data_def)
  then show ?thesis using stt ov by (auto simp: close_session_def split: if_splits)
qed

lemma stale_step:
  assumes w: "awaits_write a fo t" and a: "set_address_family a \<noteq> None" and len: "length data \<le> 508" and b: "block \<noteq> 1"
  shows "\<exists>u. session_step (length (ring (dispatcher t)) - 1) (C_Datagram a (tftp_data_packet_init block @ data)) t
    = Some (TFTP_SESSION_STATE_IDLE, u)"
proof -
  note tf = w [unfolded awaits_write_def]
  let ?i = "length (ring (dispatcher t)) - 1" and ?p = "tftp_data_packet_init block @ data"
  let ?t = "t\<lparr>last_message_address := a, recv_buffer := splice 0 ?p (recv_buffer t),
    dispatcher := snd (dispatcher_wait_event ?i (int (length ?p)) (dispatcher t)), pending_jobs := pending_jobs t - 1\<rparr>"
  have on: "on_data block data ?t = (Ret_True, ?t)"
    using tf b by (simp add: on_data_def Let_def awaiting_options_ack_def)
  obtain d where d: "recv_async ?t = (Ret_True, ?t\<lparr>dispatcher := d, pending_jobs := pending_jobs ?t + 1\<rparr>)"
    by (rule recv_async_ring [of ?t]) (use tf in simp)
  show ?thesis
    by (subst data_step [OF awaits_write_ring [OF w] refl _ _ _ _ _ on])
      (use tf a len sockaddr_equals_refl d in \<open>simp_all add: fetch_data_def should_fetch_data_def\<close>)
qed

lemma plain_write_ignores:
  assumes "reachable_from (plain_write_started f P) (write_running P) s"
    and "block \<noteq> expected_sequence_number s" and "sockaddr_equals a (client_address s)"
    and "session_step i (C_Datagram a (tftp_data_packet_init block @ data)) s = Some (st, t)"
    and "st = TFTP_SESSION_STATE_IDLE \<or> st = TFTP_SESSION_STATE_CLOSED"
  shows "in_flight (event_id (session_id s) EVENT_TIMEOUT) (dispatcher s) = 0
    \<and> out t = out s \<and> open_file t = open_file s"
  using plain_write.reachable_inv [OF assms(1)] duplicate_ignored [OF _ _ refl assms(2-5), where f = f and P = P]
  unfolding untimed_def by blast

section \<open>What write sessions do not do\<close>

text \<open>
  C12: A file that cannot be written.  A worker has just been given a job for a valid write request without
  options whose file cannot be opened.  The start event is nevertheless answered with ACK 0: no ERROR packet is
  sent and the session stays open (\<open>start\<close> returns \<open>true\<close> after it has stored the error, which is never
  reported).  The first block, of any length, is then an event of the worker with the result
  \<open>JOB_STATE_ERROR\<close>, and on this result \<open>worker_routine\<close> ends the process: the whole server stops.
\<close>

theorem unopened_write_is_fatal:
  assumes "j < length (worker_jobs w)" and "j = unat (session_id (job_session (worker_jobs w ! j)))"
    and "s = (job_session (worker_jobs w ! j))\<lparr>dispatcher := worker_dispatcher w\<rparr>"
    and "just_started s" and "i < length (ring (dispatcher s))"
    and "fst (ring (dispatcher s) ! i) = Some (event_id (session_id s) EVENT_START)"
    and "sys s = []" and "out s = []" and "\<not> is_orig_dest_addr_ipv4 (request_args s)" and "is_request_valid s"
    and "tftp_get_opcode_unsafe (buffer (request_args s)) = Some (opcode_value TFTP_OPCODE_WRQ)"
    and "session_options_init (take (nat (bytes_recvd (request_args s)) - 2) (drop 2 (buffer (request_args s))))
       = Some (True, so, m, None)"
    and "options_str so = None" and "\<not> valid_options_required so" and "cstr_at (options_storage so) 0 = Some fn"
    and "session_file_init (os s) fn (root_dir (server_info s)) SESSION_FILE_MODE_WRITE TFTP_READ_TYPE_FILE
       = File_Error code message"
    and "set_address_family (peer_addr (request_args s)) \<noteq> None"
  shows "\<exists>w1. worker_event i (C_Result 0) w = Some (JOB_STATE_RUNNING, w1)
    \<and> out (job_session (worker_jobs w1 ! j)) = [(peer_addr (request_args s), tftp_ack_packet_init 0)]
    \<and> \<not> should_close (job_session (worker_jobs w1 ! j))
    \<and> (\<forall>data. \<exists>w2. worker_event (length (ring (worker_dispatcher w1)) - 1)
           (C_Datagram (peer_addr (request_args s)) (tftp_data_packet_init 1 @ data)) w1 = Some (JOB_STATE_ERROR, w2)
         \<and> (\<forall>n y. aborted (after_event n JOB_STATE_ERROR (y\<lparr>sv := set_worker n w2 (sv y)\<rparr>))))"
proof -
  obtain t where t: "session_step i (C_Result 0) s = Some (TFTP_SESSION_STATE_IDLE, t)" "\<not> should_close t"
    "out t = [(peer_addr (request_args s), tftp_ack_packet_init 0)]" "session_id t = session_id s"
    "\<And>data. \<exists>u. session_step (length (ring (dispatcher t)) - 1)
         (C_Datagram (peer_addr (request_args s)) (tftp_data_packet_init 1 @ data)) t = Some (TFTP_SESSION_STATE_ERROR, u)"
    by (rule unopened_write [OF assms(4-17)]) blast
  have "aborted (after_event n JOB_STATE_ERROR y)" for n y by (simp add: after_event_def)
  then show ?thesis using unopened_write_worker [OF assms(1-3) t(1,4,5)] t(2,3) by blast
qed

definition upload_worker :: "int + file_object \<Rightarrow> worker" where
  "upload_worker r = \<lparr>worker_id = 0, max_jobs = 1, worker_dispatcher = dispatcher (upload_job r), available_jobs = 0,
     worker_jobs = [\<lparr>job_id = 0, job_active = True, job_session = upload_job r\<rparr>]\<rparr>"

theorem unopened_write_is_fatal_witness:
  "\<exists>w1 w2. worker_event 0 (C_Result 0) (upload_worker (Inl 13)) = Some (JOB_STATE_RUNNING, w1)
     \<and> out (job_session (worker_jobs w1 ! 0)) = [(example_peer, tftp_ack_packet_init 0)]
     \<and> worker_event (length (ring (worker_dispatcher w1)) - 1)
         (C_Datagram example_peer (tftp_data_packet_init 1 @ replicate 512 (CHR ''x''))) w1 = Some (JOB_STATE_ERROR, w2)"
proof -
  let ?s = "upload_job (Inl 13)" and ?w = "upload_worker (Inl 13)"
  obtain so where so: "session_options_init (take (nat (bytes_recvd (request_args ?s)) - 2)
         (drop 2 (buffer (request_args ?s)))) = Some (True, so, TFTP_MODE_OCTET, None)"
    "options_str so = None" "\<not> valid_options_required so" "cstr_at (options_storage so) 0 = Some ''f''"
    using upload_options by blast
  have fe: "session_file_init (os ?s) ''f'' (root_dir (server_info ?s)) SESSION_FILE_MODE_WRITE TFTP_READ_TYPE_FILE
      = File_Error 2 ''Permission denied.''" by (simp add: upload_fields(9))
  have a: "set_address_family (peer_addr (request_args ?s)) \<noteq> None" by (simp add: upload_fields(10) example_peer_def)
  have sid: "session_id ?s = 0" by (simp add: upload_job_def example_session_def blank_session_def)
  have j: "0 < length (worker_jobs ?w)" "0 = unat (session_id (job_session (worker_jobs ?w ! 0)))"
    "?s = (job_session (worker_jobs ?w ! 0))\<lparr>dispatcher := worker_dispatcher ?w\<rparr>"
    by (simp_all add: upload_worker_def sid)
  from unopened_write_is_fatal [OF j upload_fields(1-8) so fe a]
  show ?thesis unfolding upload_fields(10) by blast
qed

text \<open>
  C13: A lost acknowledgement is never repeated.  In a write session without options no timer is ever
  running, and a data packet of the client with another block number than the expected one, in
  particular the repetition of a block whose ACK was lost, changes neither the file nor what has been sent.
\<close>

theorem lost_acknowledgement_never_repeated:
  assumes "reachable_from (plain_write_started f P) (write_running P) s"
    and "block \<noteq> expected_sequence_number s" and "sockaddr_equals a (client_address s)"
    and "session_step i (C_Datagram a (tftp_data_packet_init block @ data)) s = Some (st, t)"
    and "st = TFTP_SESSION_STATE_IDLE \<or> st = TFTP_SESSION_STATE_CLOSED"
  shows "in_flight (event_id (session_id s) EVENT_TIMEOUT) (dispatcher s) = 0
    \<and> out t = out s \<and> open_file t = open_file s"
  by (rule plain_write_ignores [OF assms])

theorem lost_acknowledgement_never_repeated_witness:
  "\<exists>t u. session_step (length (ring (dispatcher t)) - 1)
       (C_Datagram example_peer (tftp_data_packet_init 0 @ ''hello'')) t = Some (TFTP_SESSION_STATE_IDLE, u)
     \<and> in_flight (event_id (session_id t) EVENT_TIMEOUT) (dispatcher t) = 0
     \<and> out u = [(example_peer, tftp_ack_packet_init 0)] \<and> open_file u = Some empty_file"
proof -
  obtain t where t: "session_step 0 (C_Result 0) (upload_job (Inr empty_file)) = Some (TFTP_SESSION_STATE_IDLE, t)"
    "awaits_write example_peer (Some empty_file) t" by (rule upload_run) blast
  have tf: "expected_sequence_number t = 1" "client_address t = example_peer" "\<not> valid_options_required (opts t)"
    "out t = [(example_peer, tftp_ack_packet_init 0)]" "open_file t = Some empty_file"
    using t(2) by (simp_all add: awaits_write_def)
  have "plain_write_started ''hello'' {data_datagram ''hello'' 512 0} t"
    unfolding plain_write_started_def using tf(3)
    by (intro conjI awaits_write_started [OF upload_fields(1,5) t]) (simp_all add: empty_file_def blocks_of_def)
  then have r: "reachable_from (plain_write_started ''hello'' {data_datagram ''hello'' 512 0})
      (write_running {data_datagram ''hello'' 512 0}) t" by (rule reach_init)
  obtain u where u: "session_step (length (ring (dispatcher t)) - 1)
       (C_Datagram example_peer (tftp_data_packet_init 0 @ ''hello'')) t = Some (TFTP_SESSION_STATE_IDLE, u)"
    using stale_step [OF t(2), of "''hello''" 0] by (auto simp: example_peer_def)
  have "in_flight (event_id (session_id t) EVENT_TIMEOUT) (dispatcher t) = 0 \<and> out u = out t \<and> open_file u = open_file t"
    by (rule lost_acknowledgement_never_repeated [OF r _ _ u]) (simp_all add: tf example_peer_def)
  then show ?thesis using u tf(4,5) by auto
qed

end
