(* ===== verification/Tftp_Client.thy ===== *)
theory Tftp_Client
  imports Tftp_Packet_Ops Tftp_Window Tftp_Inet Tftp_Adaptive_Timeout Tftp_Session_Options
begin

text \<open>
  The client, \<open>tftp/src/client\<close>: its request (\<open>struct request\<close> with the connection, the options and
  the statistics), the sends, the negotiation of options and the reception of packets.

  The environment is part of the state.  \<open>c_inbox\<close> is what \<open>recvfrom\<close> will see, in order: datagrams
  with their sender, time-outs and errors; after the last of them nothing arrives any more, so a
  receive times out, or blocks forever if the socket has no time-out.  \<open>c_blocked\<close> records that a call
  blocks forever or a loop never ends; the request then has no result (\<open>Client_Hangs\<close>).
  \<open>c_sys\<close> scripts the results of the other system calls (\<open>None\<close> and the end of the script are
  success), \<open>c_clock\<close> the readings of the clock and \<open>c_heap\<close> what \<open>malloc\<close> leaves in a new block.
  Log lines have no effect and are left out, except the one that is undefined behaviour.
\<close>

section \<open>State\<close>

datatype request_type = REQUEST_GET | REQUEST_PUT

text \<open>\<open>struct tftp_client_options\<close> of the caller; a null pointer is \<open>None\<close>.\<close>

record tftp_client_options =
  given_timeout_s :: "u8 option"
  given_block_size :: "u16 option"
  given_window_size :: "u16 option"
  given_use_tsize :: bool
  given_adaptive_timeout :: bool
  given_read_type_list :: bool

text \<open>\<open>struct options\<close>; the arrays the option values point to are \<open>Cstr\<close> values of \<open>o_options\<close>.\<close>

record client_options =
  o_options :: tftp_options
  o_timeout_s :: u8
  o_block_size :: u16
  o_window_size :: u16
  o_use_tsize :: bool
  o_tsize :: nat
  o_adaptive_timeout :: bool

definition zero_options :: client_options where
  "zero_options = \<lparr>o_options = no_options, o_timeout_s = 0, o_block_size = 0, o_window_size = 0,
     o_use_tsize = False, o_tsize = 0, o_adaptive_timeout = False\<rparr>"

datatype arrival = Arrives sockaddr "byte list" | Recv_Timeout | Recv_Failed

text \<open>
  \<open>struct request\<close>.  \<open>c_last_packet\<close> is the last packet sent, \<open>c_file\<close> the bytes written so far
  (a download) or still to be read (an upload), \<open>c_stack_buffer\<close> whether the receive buffer is an
  array on the stack, \<open>c_trace\<close> whether the logger formats trace messages.
\<close>

record client =
  c_retries :: u8
  c_use_options :: bool
  c_options :: client_options
  c_request_type :: request_type
  c_filename :: string
  c_mode :: tftp_mode
  c_last_packet :: "byte list"
  c_recv_buffer :: "byte list"
  c_stack_buffer :: bool
  c_may_not_support_options :: bool
  c_bytes_transferred :: nat
  c_start_time :: timespec
  c_server :: sockaddr
  c_rcvtimeo :: timeval
  c_file :: "byte list"
  c_trace :: bool
  c_inbox :: "arrival list"
  c_sys :: "int option list"
  c_disk_full :: bool
  c_clock :: "timespec list"
  c_heap :: "byte list"
  c_out :: "(sockaddr \<times> byte list) list"
  c_closed :: bool
  c_blocked :: bool

datatype tftp_client_response =
    Client_Success nat
  | Client_Error bool
  | Client_Fault
  | Client_Hangs

section \<open>Calls to the system\<close>

definition c_sys_call :: "int \<Rightarrow> client \<Rightarrow> int \<times> client" where
  "c_sys_call nominal c =
     (case c_sys c of
        [] \<Rightarrow> (nominal, c)
      | r # rs \<Rightarrow> ((case r of None \<Rightarrow> nominal | Some v \<Rightarrow> v), c\<lparr>c_sys := rs\<rparr>))"

text \<open>A call that is only tested for failure, such as \<open>setsockopt\<close>, \<open>getsockname\<close> or \<open>malloc\<close>.\<close>

definition c_call :: "client op" where
  "c_call c = (case c_sys_call 0 c of (r, c') \<Rightarrow> (if r = - 1 then Ret_False else Ret_True, c'))"

definition c_clock_gettime :: "client \<Rightarrow> timespec \<times> client" where
  "c_clock_gettime c =
     (case c_clock c of [] \<Rightarrow> (zero_timespec, c) | t # ts \<Rightarrow> (t, c\<lparr>c_clock := ts\<rparr>))"

definition c_sendto :: "sockaddr \<Rightarrow> byte list \<Rightarrow> client \<Rightarrow> int \<times> client" where
  "c_sendto dest packet c =
     (case c_sys_call (int (length packet)) c of
        (r, c') \<Rightarrow> (r, if r < 0 then c' else c'\<lparr>c_out := c_out c' @ [(dest, packet)]\<rparr>))"

definition malloc_bytes :: "nat \<Rightarrow> client \<Rightarrow> byte list" where
  "malloc_bytes n c = take n (c_heap c @ replicate n NUL)"

text \<open>
  \<open>recvfrom\<close> into the receive buffer.  Without a time-out on the socket it waits on.
\<close>

datatype recv_result = Received sockaddr nat | Would_Block | Recv_Error | Waits_Forever

definition no_recv_timeout :: "client \<Rightarrow> bool" where
  "no_recv_timeout c \<longleftrightarrow> c_rcvtimeo c = \<lparr>val_sec = 0, val_usec = 0\<rparr>"

fun next_arrival :: "bool \<Rightarrow> arrival list \<Rightarrow> arrival option \<times> arrival list" where
  "next_arrival waits [] = (if waits then None else Some Recv_Timeout, [])"
| "next_arrival waits (Recv_Timeout # as) =
     (if waits then next_arrival waits as else (Some Recv_Timeout, as))"
| "next_arrival waits (a # as) = (Some a, as)"

definition c_recvfrom :: "client \<Rightarrow> recv_result \<times> client" where
  "c_recvfrom c =
     (case next_arrival (no_recv_timeout c) (c_inbox c) of
        (None, as) \<Rightarrow> (Waits_Forever, c\<lparr>c_inbox := as, c_blocked := True\<rparr>)
      | (Some Recv_Timeout, as) \<Rightarrow> (Would_Block, c\<lparr>c_inbox := as\<rparr>)
      | (Some Recv_Failed, as) \<Rightarrow> (Recv_Error, c\<lparr>c_inbox := as\<rparr>)
      | (Some (Arrives a bs), as) \<Rightarrow>
          let bs = take (length (c_recv_buffer c)) bs
          in (Received a (length bs),
              c\<lparr>c_inbox := as, c_recv_buffer := splice 0 bs (c_recv_buffer c)\<rparr>))"

section \<open>Sending\<close>

definition c_send :: "byte list \<Rightarrow> client op" where
  "c_send packet c =
     (case c_sendto (c_server c) packet c of (r, c') \<Rightarrow> (if r < 0 then Ret_False else Ret_True, c'))"

definition send_rrq_packet :: "byte list \<Rightarrow> client op" where
  "send_rrq_packet packet = c_send packet"

definition send_wrq_packet :: "byte list \<Rightarrow> client op" where
  "send_wrq_packet packet = c_send packet"

definition send_ack_packet :: "byte list \<Rightarrow> client op" where
  "send_ack_packet packet = c_send (take 4 packet)"

text \<open>The trace message prints the error code, a number, with \<open>%s\<close>.\<close>

definition client_send_error_packet :: "byte list \<Rightarrow> client op" where
  "client_send_error_packet packet =
     chain [c_send packet, \<lambda>c. if c_trace c then (Fault, c) else (Ret_True, c)]"

definition send_rrq :: "client op" where
  "send_rrq c =
     (case tftp_rrq_packet_init [] (length (c_filename c) + 1) (zstr (c_filename c)) (c_mode c)
             (o_options (c_options c)) of
        (Ret_True, packet) \<Rightarrow> chain [send_rrq_packet packet, assign (c_last_packet_update (\<lambda>_. packet))] c
      | (r, _) \<Rightarrow> (r, c))"

definition send_wrq :: "client op" where
  "send_wrq c =
     (case tftp_wrq_packet_init [] (length (c_filename c) + 1) (zstr (c_filename c)) (c_mode c)
             (o_options (c_options c)) of
        (Ret_True, packet) \<Rightarrow> chain [send_wrq_packet packet, assign (c_last_packet_update (\<lambda>_. packet))] c
      | (r, _) \<Rightarrow> (r, c))"

definition send_ack :: "u16 \<Rightarrow> client op" where
  "send_ack block =
     chain [send_ack_packet (tftp_ack_packet_init block),
            assign (c_last_packet_update (\<lambda>_. tftp_ack_packet_init block))]"

definition send_error :: "tftp_error_code \<Rightarrow> client op" where
  "send_error code c =
     (case tftp_error_packet_info code of
        None \<Rightarrow> (Ret_False, c)
      | Some packet \<Rightarrow> client_send_error_packet packet c)"

text \<open>The result of \<open>send_error\<close> is not looked at.\<close>

definition try_send_error :: "tftp_error_code \<Rightarrow> client op" where
  "try_send_error code c =
     (case send_error code c of (Fault, c') \<Rightarrow> (Fault, c') | (_, c') \<Rightarrow> (Ret_True, c'))"

definition retransmit_last_packet_sent :: "client op" where
  "retransmit_last_packet_sent c =
     (case Option.bind (tftp_get_opcode_unsafe (c_last_packet c)) opcode_of of
        Some TFTP_OPCODE_RRQ \<Rightarrow> send_rrq_packet (c_last_packet c) c
      | Some TFTP_OPCODE_WRQ \<Rightarrow> send_wrq_packet (c_last_packet c) c
      | Some TFTP_OPCODE_ACK \<Rightarrow> send_ack_packet (c_last_packet c) c
      | _ \<Rightarrow> (Ret_False, c))"

definition send_read_request :: "client op" where
  "send_read_request = chain [send_rrq, c_call]"

definition send_write_request :: "client op" where
  "send_write_request = chain [send_wrq, c_call]"

text \<open>Only the ERROR packet is an effect; its failure is logged.\<close>

definition handle_unexpected_peer :: "sockaddr \<Rightarrow> client \<Rightarrow> client" where
  "handle_unexpected_peer actual c =
     snd (c_sendto actual (error_packet (error_code_value TFTP_ERROR_UNKNOWN_TRANSFER_ID)
       (error_code_message TFTP_ERROR_UNKNOWN_TRANSFER_ID)) c)"

section \<open>Options\<close>

definition tftp_packet_buffer_size :: "u16 \<Rightarrow> nat" where
  "tftp_packet_buffer_size required_block_size = max 516 (4 + unat required_block_size)"

definition default_timeout_s :: u8 where
  "default_timeout_s = 2"

definition requested_options :: "request_type \<Rightarrow> tftp_client_options \<Rightarrow> client_options" where
  "requested_options type options =
     (let is_timeout_required = (case given_timeout_s options of None \<Rightarrow> False | Some t \<Rightarrow> t \<noteq> 0);
          is_block_size_required = (case given_block_size options of None \<Rightarrow> False
                                    | Some b \<Rightarrow> 8 \<le> b \<and> b \<le> 65464);
          is_window_size_required = (case given_window_size options of None \<Rightarrow> False
                                     | Some w \<Rightarrow> w \<noteq> 0 \<and> type \<noteq> REQUEST_PUT);
          is_adaptive_timeout_required = (given_adaptive_timeout options \<and> type = REQUEST_GET);
          timeout = (if is_timeout_required then the (given_timeout_s options) else default_timeout_s);
          block_size = (if is_block_size_required then the (given_block_size options) else tftp_default_blksize);
          window_size = (if is_window_size_required then the (given_window_size options)
                         else tftp_default_window_size)
      in \<lparr>o_options = (\<lambda>o'. case o' of
            TFTP_OPTION_BLKSIZE \<Rightarrow> \<lparr>is_active = is_block_size_required,
              val = Cstr (if is_block_size_required then show_dec (unat block_size) else '''')\<rparr>
          | TFTP_OPTION_TIMEOUT \<Rightarrow> \<lparr>is_active = (is_timeout_required \<or> is_adaptive_timeout_required),
              val = Cstr (if is_adaptive_timeout_required then ''adaptive''
                          else if is_timeout_required then show_dec (unat timeout) else '''')\<rparr>
          | TFTP_OPTION_TSIZE \<Rightarrow> \<lparr>is_active = given_use_tsize options, val = Cstr ''0''\<rparr>
          | TFTP_OPTION_WINDOWSIZE \<Rightarrow> \<lparr>is_active = is_window_size_required,
              val = Cstr (if is_window_size_required then show_dec (unat window_size) else '''')\<rparr>
          | TFTP_OPTION_READ_TYPE \<Rightarrow> \<lparr>is_active = given_read_type_list options, val = Cstr ''directory''\<rparr>),
          o_timeout_s = timeout, o_block_size = block_size, o_window_size = window_size,
          o_use_tsize = given_use_tsize options, o_tsize = 0,
          o_adaptive_timeout = given_adaptive_timeout options\<rparr>)"

text \<open>The result and whether any option is requested; without options the structure stays zero.\<close>

definition options_init :: "request_type \<Rightarrow> tftp_client_options option \<Rightarrow> bool \<times> client_options" where
  "options_init type options =
     (case options of
        None \<Rightarrow> (False, zero_options)
      | Some given \<Rightarrow>
          let r = requested_options type given
          in (list_ex (\<lambda>o'. is_active (o_options r o')) all_options, r))"

section \<open>The OACK packet\<close>

record oack_params =
  q_block_size :: u16
  q_timeout :: u16
  q_window_size :: u16
  q_tsize :: nat

definition oack_number :: "byte list \<Rightarrow> tftp_option \<Rightarrow> nat option" where
  "oack_number mem o' = map_option (\<lambda>v. fst (strtoul_c v)) (deref mem (val o'))"

fun apply_oack_option ::
    "byte list \<Rightarrow> bool \<Rightarrow> tftp_option_recognized \<Rightarrow> tftp_option \<Rightarrow> oack_params \<Rightarrow> oack_params option" where
  "apply_oack_option mem adaptive' TFTP_OPTION_BLKSIZE v q =
     map_option (\<lambda>n. q\<lparr>q_block_size := word_of_nat n\<rparr>) (oack_number mem v)"
| "apply_oack_option mem adaptive' TFTP_OPTION_TIMEOUT v q =
     (if adaptive' then Some q
      else map_option (\<lambda>n. q\<lparr>q_timeout := word_of_nat n\<rparr>) (oack_number mem v))"
| "apply_oack_option mem adaptive' TFTP_OPTION_TSIZE v q =
     map_option (\<lambda>n. q\<lparr>q_tsize := n\<rparr>) (oack_number mem v)"
| "apply_oack_option mem adaptive' TFTP_OPTION_WINDOWSIZE v q =
     map_option (\<lambda>n. q\<lparr>q_window_size := word_of_nat n\<rparr>) (oack_number mem v)"
| "apply_oack_option mem adaptive' TFTP_OPTION_READ_TYPE v q = Some q"

text \<open>The loop over the acknowledged options; the first part tells whether one was not requested.\<close>

fun oack_loop ::
    "byte list \<Rightarrow> bool \<Rightarrow> tftp_options \<Rightarrow> tftp_options \<Rightarrow> tftp_option_recognized list \<Rightarrow> oack_params
     \<Rightarrow> (bool \<times> oack_params) option" where
  "oack_loop mem adaptive' requested ackd [] q = Some (False, q)"
| "oack_loop mem adaptive' requested ackd (o' # os) q =
     (if \<not> is_active (ackd o') then oack_loop mem adaptive' requested ackd os q
      else if \<not> is_active (requested o') then Some (True, q)
      else case apply_oack_option mem adaptive' o' (ackd o') q of
          None \<Rightarrow> None
        | Some q' \<Rightarrow> oack_loop mem adaptive' requested ackd os q')"

text \<open>
  The options of the packet of \<open>n\<close> bytes in the receive buffer, and whether the adaptive time-out is
  in use afterwards.
\<close>

definition oack_options :: "nat \<Rightarrow> client \<Rightarrow> (tftp_options \<times> bool) option" where
  "oack_options n c =
     (case tftp_parse_options no_options (c_recv_buffer c) 2 (n - 2) of
        None \<Rightarrow> None
      | Some ackd \<Rightarrow>
          if o_adaptive_timeout (c_options c) \<and> c_request_type c = REQUEST_GET
          then (case find_adaptive (c_recv_buffer c) 2 n of
                  None \<Rightarrow> None
                | Some True \<Rightarrow> Some (ackd(TFTP_OPTION_TIMEOUT := \<lparr>is_active = True, val = Cstr ''adaptive''\<rparr>), True)
                | Some False \<Rightarrow> Some (ackd, False))
          else Some (ackd, o_adaptive_timeout (c_options c)))"

text \<open>
  \<open>realloc\<close> keeps the contents up to the smaller size; on an array of the stack it is undefined.
\<close>

definition resize_recv_buffer :: "client op" where
  "resize_recv_buffer c =
     (let n = tftp_packet_buffer_size (o_block_size (c_options c))
      in if c_stack_buffer c then (Fault, c)
         else chain [c_call, assign (\<lambda>c. c\<lparr>c_recv_buffer :=
                take n (c_recv_buffer c @ malloc_bytes (n - length (c_recv_buffer c)) c)\<rparr>)] c)"

definition apply_oack_sizes :: "oack_params \<Rightarrow> client op" where
  "apply_oack_sizes q c =
     (if q_block_size q \<noteq> o_block_size (c_options c) \<or> q_window_size q \<noteq> o_window_size (c_options c)
      then resize_recv_buffer
             (c\<lparr>c_options := (c_options c)\<lparr>o_block_size := q_block_size q, o_window_size := q_window_size q\<rparr>\<rparr>)
      else (Ret_True, c))"

definition apply_oack_timeout :: "oack_params \<Rightarrow> client op" where
  "apply_oack_timeout q c =
     (if \<not> o_adaptive_timeout (c_options c) \<and> q_timeout q \<noteq> ucast (o_timeout_s (c_options c))
      then chain [assign (\<lambda>c. c\<lparr>c_options := (c_options c)\<lparr>o_timeout_s := ucast (q_timeout q)\<rparr>\<rparr>),
                  c_call,
                  assign (\<lambda>c. c\<lparr>c_rcvtimeo := \<lparr>val_sec = int (unat (o_timeout_s (c_options c))), val_usec = 0\<rparr>\<rparr>)] c
      else (Ret_True, c))"

definition drop_read_type :: "tftp_options \<Rightarrow> client \<Rightarrow> client" where
  "drop_read_type ackd c =
     (let opts = o_options (c_options c); rt = TFTP_OPTION_READ_TYPE
      in if is_active (opts rt) \<and> \<not> is_active (ackd rt)
         then c\<lparr>c_options := (c_options c)\<lparr>o_options := opts(rt := (opts rt)\<lparr>is_active := False\<rparr>)\<rparr>\<rparr>
         else c)"

definition handle_oack_packet :: "nat \<Rightarrow> client op" where
  "handle_oack_packet n c =
     (case oack_options n c of
        None \<Rightarrow> (Fault, c)
      | Some (ackd, adaptive') \<Rightarrow>
          let c = c\<lparr>c_options := (c_options c)\<lparr>o_adaptive_timeout := adaptive'\<rparr>\<rparr>;
              opts = c_options c
          in case oack_loop (c_recv_buffer c) adaptive' (o_options opts) ackd all_options
                    \<lparr>q_block_size = o_block_size opts, q_timeout = ucast (o_timeout_s opts),
                     q_window_size = o_window_size opts, q_tsize = o_tsize opts\<rparr> of
               None \<Rightarrow> (Fault, c)
             | Some (unrequested, q) \<Rightarrow>
                 let c = c\<lparr>c_options := opts\<lparr>o_tsize := q_tsize q\<rparr>\<rparr>
                 in if unrequested then chain [try_send_error TFTP_ERROR_INVALID_OPTIONS, return_false] c
                    else chain [apply_oack_sizes q, apply_oack_timeout q, assign (drop_read_type ackd)] c)"

section \<open>Receiving a packet\<close>

datatype packet_result =
    Packet sockaddr nat
  | RECEIVE_PACKET_ERROR
  | RECEIVE_PACKET_TIMEOUT
  | Packet_Fault

lemma next_arrival_shorter: "next_arrival w as = (a, bs) \<Longrightarrow> length bs \<le> length as"
  by (induction w as rule: next_arrival.induct) (auto split: if_splits)

lemma recvfrom_frame: "c_recvfrom c = (r, c') \<Longrightarrow> c_retries c' = c_retries c"
  by (auto simp: c_recvfrom_def Let_def split: prod.splits option.splits arrival.splits)

lemma retransmission_counts:
  assumes "unat k < Suc (unat r)" and "k \<noteq> r"
  shows "256 - unat (k + 1 :: u8) < 256 - unat k"
proof -
  have "unat k \<noteq> unat r" using assms(2) by (simp add: word_unat_eq_iff)
  moreover have "unat r < 256" using unsigned_less [of r, where 'a = nat] by simp
  ultimately have "unat k < 255" using assms(1) by simp
  then show ?thesis by (simp add: unat_word_ariths)
qed

function receive_packet_loop :: "u8 \<Rightarrow> client \<Rightarrow> packet_result \<times> client" where
  "receive_packet_loop retransmissions c =
     (if \<not> unat retransmissions < 1 + unat (c_retries c) then (RECEIVE_PACKET_ERROR, c)
      else case c_recvfrom c of
          (Received a n, c') \<Rightarrow> (Packet a n, c')
        | (Recv_Error, c') \<Rightarrow> (RECEIVE_PACKET_ERROR, c')
        | (Waits_Forever, c') \<Rightarrow> (Packet_Fault, c')
        | (Would_Block, c') \<Rightarrow>
            if retransmissions = c_retries c' then (RECEIVE_PACKET_TIMEOUT, c')
            else case retransmit_last_packet_sent c' of
                (Ret_True, c'') \<Rightarrow> receive_packet_loop (retransmissions + 1) c''
              | (Ret_False, c'') \<Rightarrow> (RECEIVE_PACKET_ERROR, c'')
              | (Fault, c'') \<Rightarrow> (Packet_Fault, c''))"
  by pat_completeness auto

termination
  by (relation "measure (\<lambda>(k, c). 256 - unat k)")
    (auto dest!: recvfrom_frame [OF sym] intro!: retransmission_counts)

declare receive_packet_loop.simps [simp del]

definition receive_packet :: "client \<Rightarrow> packet_result \<times> client" where
  "receive_packet c = receive_packet_loop 0 c"

text \<open>The message that is logged for an ERROR packet of \<open>n\<close> bytes.\<close>

definition log_error_packet_received :: "byte list \<Rightarrow> nat \<Rightarrow> (u16 \<times> string) option" where
  "log_error_packet_received mem n =
     (if n < 5 then None
      else case dec16 (drop 2 mem) of
          None \<Rightarrow> None
        | Some (code, message) \<Rightarrow>
            let len = n - 4
            in Some (code, if strnlen_c len message = len then ''Error message is not null-terminated.''
                           else takeWhile (\<lambda>c. c \<noteq> NUL) message))"

end
