(* ===== verification/Tftp_Client_Get.thy ===== *)
theory Tftp_Client_Get
  imports Tftp_Client
begin

text \<open>
  Downloads: \<open>receive_file\<close>, \<open>handle_get_request\<close>, \<open>tftp_client_read\<close> and the connection they use.
  The loop of \<open>receive_file\<close> is cut into the handling of one packet, \<open>receive_step\<close>; it ends because
  every packet consumes an arrival of the inbox.
\<close>

section \<open>One packet\<close>

text \<open>How an iteration ends: with \<open>return\<close>, or with the three variables of the loop.\<close>

datatype receive_next = Return ret | Continue bool bool u16

definition then_next ::
    "client op \<Rightarrow> (client \<Rightarrow> receive_next \<times> client) \<Rightarrow> client \<Rightarrow> receive_next \<times> client" where
  "then_next f k c = (case f c of (Ret_True, c') \<Rightarrow> k c' | (r, c') \<Rightarrow> (Return r, c'))"

definition read_type_active :: "client \<Rightarrow> bool" where
  "read_type_active c \<longleftrightarrow> is_active (o_options (c_options c) TFTP_OPTION_READ_TYPE)"

definition default_parameters :: "client \<Rightarrow> client" where
  "default_parameters c =
     c\<lparr>c_options := (c_options c)\<lparr>o_window_size := tftp_default_window_size,
         o_block_size := tftp_default_blksize, o_timeout_s := default_timeout_s,
         o_adaptive_timeout := False, o_use_tsize := False\<rparr>\<rparr>"

text \<open>The first packet is DATA: the server has ignored the options.\<close>

definition on_first_data :: "client op" where
  "on_first_data c =
     (let d = c\<lparr>c_use_options := False\<rparr>
      in if c_use_options c \<and> read_type_active c
         then chain [try_send_error TFTP_ERROR_INVALID_OPTIONS,
                     assign (c_may_not_support_options_update (\<lambda>_. True)), return_false] d
         else (Ret_True, default_parameters d))"

text \<open>
  \<open>fwrite\<close> of the \<open>len\<close> bytes behind the header; for a packet of less than four bytes \<open>len\<close> has
  wrapped around and the read leaves the buffer.
\<close>

definition store_data :: "nat \<Rightarrow> client op" where
  "store_data len c =
     (if length (c_recv_buffer c) < 4 + len then (Fault, c)
      else
        let data = take len (drop 4 (c_recv_buffer c))
        in case c_sys_call (int len) c of
            (r, c') \<Rightarrow>
              let c' = c'\<lparr>c_file := c_file c' @ take (nat r) data\<rparr>
              in if r \<noteq> int len
                 then chain [try_send_error (if c_disk_full c' then TFTP_ERROR_DISK_FULL
                                             else TFTP_ERROR_NOT_DEFINED), return_false] c'
                 else (Ret_True, c'\<lparr>c_bytes_transferred := c_bytes_transferred c' + len\<rparr>))"

definition received_block :: "client \<Rightarrow> u16 option" where
  "received_block c = map_option fst (dec16 (drop 2 (c_recv_buffer c)))"

definition receive_block :: "u16 \<Rightarrow> nat \<Rightarrow> client \<Rightarrow> receive_next \<times> client" where
  "receive_block expected n c =
     (case received_block c of
        None \<Rightarrow> (Return Fault, c)
      | Some block \<Rightarrow>
          if block \<noteq> expected
          then then_next retransmit_last_packet_sent (\<lambda>c. (Continue False False expected, c)) c
          else
            let len = size_sub n 4
            in then_next (chain [store_data len, send_ack block])
                 (\<lambda>c. (Continue False (len < unat (o_block_size (c_options c))) (expected + 1), c)) c)"

definition receive_data :: "bool \<Rightarrow> u16 \<Rightarrow> nat \<Rightarrow> client \<Rightarrow> receive_next \<times> client" where
  "receive_data first expected n =
     then_next (if first then on_first_data else (\<lambda>c. (Ret_True, c))) (receive_block expected n)"

definition check_read_type :: "bool \<Rightarrow> client op" where
  "check_read_type is_list_request c =
     (if is_list_request \<and> \<not> read_type_active c
      then chain [try_send_error TFTP_ERROR_INVALID_OPTIONS, return_false] c
      else (Ret_True, c))"

definition receive_oack :: "bool \<Rightarrow> u16 \<Rightarrow> nat \<Rightarrow> client \<Rightarrow> receive_next \<times> client" where
  "receive_oack first expected n c =
     (if \<not> first then (Continue False False expected, c)
      else then_next (chain [handle_oack_packet n, check_read_type (read_type_active c), send_ack 0])
             (\<lambda>c. (Continue False False expected, c)) c)"

definition receive_packet_of :: "bool \<Rightarrow> u16 \<Rightarrow> nat \<Rightarrow> client \<Rightarrow> receive_next \<times> client" where
  "receive_packet_of first expected n c =
     (case Option.bind (tftp_get_opcode_unsafe (c_recv_buffer c)) opcode_of of
        Some TFTP_OPCODE_OACK \<Rightarrow> receive_oack first expected n c
      | Some TFTP_OPCODE_DATA \<Rightarrow> receive_data first expected n c
      | Some TFTP_OPCODE_ERROR \<Rightarrow>
          (Return Ret_False, c\<lparr>c_may_not_support_options := (first \<and> c_use_options c)\<rparr>)
      | _ \<Rightarrow> (Return Ret_False, c))"

definition receive_step :: "bool \<Rightarrow> u16 \<Rightarrow> client \<Rightarrow> receive_next \<times> client" where
  "receive_step first expected c =
     (case receive_packet c of
        (Packet_Fault, c) \<Rightarrow> (Return Fault, c)
      | (RECEIVE_PACKET_ERROR, c) \<Rightarrow> (Return Ret_False, c)
      | (RECEIVE_PACKET_TIMEOUT, c) \<Rightarrow>
          (Return Ret_False,
           if first \<and> c_use_options c then c\<lparr>c_may_not_support_options := True\<rparr> else c)
      | (Packet a n, c) \<Rightarrow>
          if n = 0 then (Return Ret_False, c)
          else
            let c = (if first then c\<lparr>c_server := a\<rparr> else c)
            in if \<not> sockaddr_equals (c_server c) a
               then (Continue first False expected, handle_unexpected_peer a c)
               else receive_packet_of first expected n c)"

section \<open>What the operations leave alone\<close>

text \<open>What sending keeps, and what the negotiation of options keeps.\<close>

definition sent_view where
  "sent_view c = (c_retries c, c_use_options c, c_options c, c_request_type c, c_recv_buffer c,
     c_server c, c_rcvtimeo c, c_file c, c_bytes_transferred c, c_inbox c, c_stack_buffer c)"

definition oack_view where
  "oack_view c = (c_retries c, c_use_options c, c_request_type c, c_server c, c_file c,
     c_bytes_transferred c, c_inbox c, c_stack_buffer c)"

definition sends_only :: "client \<Rightarrow> client \<Rightarrow> bool" where
  "sends_only c c' \<longleftrightarrow> sent_view c' = sent_view c"

definition negotiates :: "client \<Rightarrow> client \<Rightarrow> bool" where
  "negotiates c c' \<longleftrightarrow> oack_view c' = oack_view c"

interpretation sending: op_effect sends_only
  by unfold_locales (auto simp: sends_only_def)

interpretation negotiating: op_effect negotiates
  by unfold_locales (auto simp: negotiates_def)

named_theorems client_intros \<open>operations of the client that only send or only negotiate\<close>

lemmas [client_intros] =
  sending.does_chain sending.does_assign sending.does_return sending.does_if
  negotiating.does_chain negotiating.does_assign negotiating.does_return negotiating.does_if

lemma sends_only_negotiates: "sends_only c c' \<Longrightarrow> negotiates c c'"
  by (simp add: sends_only_def negotiates_def sent_view_def oack_view_def)

lemma sending_negotiating: "sending.does f \<Longrightarrow> negotiating.does f"
  by (simp add: sending.does_def negotiating.does_def sends_only_negotiates)

lemma sends_only_simps [simp]:
  "sends_only c (c'\<lparr>c_sys := y\<rparr>) = sends_only c c'" "sends_only c (c'\<lparr>c_out := x\<rparr>) = sends_only c c'"
  "sends_only c (c'\<lparr>c_last_packet := p\<rparr>) = sends_only c c'" "sends_only c c"
  "sends_only c (c'\<lparr>c_may_not_support_options := b\<rparr>) = sends_only c c'"
  by (simp_all add: sends_only_def sent_view_def)

lemma negotiates_simps [simp]:
  "negotiates c (c'\<lparr>c_options := y\<rparr>) = negotiates c c'" "negotiates c c"
  "negotiates c (c'\<lparr>c_recv_buffer := b\<rparr>) = negotiates c c'" "negotiates c (c'\<lparr>c_rcvtimeo := t\<rparr>) = negotiates c c'"
  by (simp_all add: negotiates_def oack_view_def)

lemma sends_only_sys_call: "sends_only c (snd (c_sys_call n c))"
  by (simp add: c_sys_call_def split: list.split)

lemma sends_only_sendto: "sends_only c (snd (c_sendto d p c))"
  using sends_only_sys_call [of c "int (length p)"] by (auto simp: c_sendto_def split: prod.split)

lemma sending_send [client_intros]: "sending.does (c_send p)"
  using sends_only_sendto by (auto simp: sending.does_def c_send_def split: prod.split)
    (metis snd_conv)

lemma sending_call [client_intros]: "sending.does c_call"
  by (rule sending.doesI) (metis c_call_def sends_only_sys_call prod.case_eq_if snd_conv)

lemma sending_return_false [client_intros]: "sending.does return_false"
  by (rule sending.doesI) (simp add: return_false_def)

lemma sending_retransmit: "sending.does retransmit_last_packet_sent"
  unfolding retransmit_last_packet_sent_def send_rrq_packet_def send_wrq_packet_def send_ack_packet_def
  using sending_send by (simp add: sending.does_def split: option.split tftp_opcode.split)

lemma sending_send_error: "sending.does (send_error e)"
proof -
  have "sending.does (client_send_error_packet p)" for p
    unfolding client_send_error_packet_def
    by (rule sending.does_chain) (auto intro: client_intros)
  then show ?thesis by (simp add: sending.does_def send_error_def split: option.split)
qed

lemma sending_try_send_error: "sending.does (try_send_error e)"
proof (rule sending.doesI)
  fix c :: client
  show "sends_only c (snd (try_send_error e c))"
    using sending.doesD [OF sending_send_error, of e c]
    by (cases "send_error e c") (auto simp: try_send_error_def split: ret.split)
qed

lemma sending_send_ack: "sending.does (send_ack b)"
  unfolding send_ack_def send_ack_packet_def
  by (rule sending.does_chain) (auto intro: client_intros)

lemma negotiating_resize: "negotiating.does resize_recv_buffer"
proof (rule negotiating.doesI)
  fix c :: client
  let ?n = "tftp_packet_buffer_size (o_block_size (c_options c))"
  have "negotiating.does (chain [c_call, assign (\<lambda>c. c\<lparr>c_recv_buffer :=
                take ?n (c_recv_buffer c @ malloc_bytes (?n - length (c_recv_buffer c)) c)\<rparr>)])"
    by (rule negotiating.does_chain) (auto intro!: client_intros sending_negotiating [OF sending_call])
  then show "negotiates c (snd (resize_recv_buffer c))"
    by (simp add: resize_recv_buffer_def negotiating.does_def Let_def del: chain.simps)
qed

lemma negotiating_sizes: "negotiating.does (apply_oack_sizes q)"
proof (rule negotiating.doesI)
  fix c :: client
  have "negotiates c (c\<lparr>c_options := p\<rparr>)" for p by simp
  from negotiating.does_after [OF negotiating_resize this]
  show "negotiates c (snd (apply_oack_sizes q c))" by (simp add: apply_oack_sizes_def)
qed

lemma negotiating_timeout: "negotiating.does (apply_oack_timeout q)"
  unfolding apply_oack_timeout_def
  by (intro negotiating.does_if negotiating.does_chain)
    (auto intro!: client_intros sending_negotiating [OF sending_call])

lemma negotiating_oack: "negotiating.does (handle_oack_packet n)"
proof (rule negotiating.doesI)
  fix c :: client
  have d: "negotiates c (drop_read_type x c)" for x and c :: client
    by (simp add: drop_read_type_def Let_def)
  have ok: "negotiating.does (chain [apply_oack_sizes q, apply_oack_timeout q, assign (drop_read_type x)])" for q x
    by (rule negotiating.does_chain)
      (auto intro!: negotiating_sizes negotiating_timeout d negotiating.does_assign)
  have bad: "negotiating.does (chain [try_send_error TFTP_ERROR_INVALID_OPTIONS, return_false])"
    by (rule negotiating.does_chain)
      (auto intro: sending_negotiating sending_try_send_error sending_return_false)
  have up: "negotiates c (c\<lparr>c_options := p\<rparr>)" for p by simp
  show "negotiates c (snd (handle_oack_packet n c))"
    unfolding handle_oack_packet_def Let_def
    using negotiating.does_after [OF ok up] negotiating.does_after [OF bad up]
    by (simp del: chain.simps split: option.split prod.split)
qed

section \<open>What a packet consumes\<close>

lemma next_arrival_consumes:
  "next_arrival w as = (Some a, bs) \<Longrightarrow> a \<noteq> Recv_Timeout \<Longrightarrow> length bs < length as"
  by (induction w as rule: next_arrival.induct) (auto split: if_splits)

lemma recvfrom_consumes:
  "c_recvfrom c = (r, c') \<Longrightarrow> length (c_inbox c') \<le> length (c_inbox c)"
  "c_recvfrom c = (Received a n, c') \<Longrightarrow> length (c_inbox c') < length (c_inbox c)"
  by (auto simp: c_recvfrom_def Let_def split: prod.splits option.splits arrival.splits
      dest: next_arrival_consumes next_arrival_shorter)

lemma next_arrival_split:
  "next_arrival w as = (Some a, bs) \<Longrightarrow> a \<noteq> Recv_Timeout
    \<Longrightarrow> \<exists>ts. as = ts @ a # bs \<and> set ts \<subseteq> {Recv_Timeout}"
proof (induction w as rule: next_arrival.induct)
  case (2 w as)
  then obtain ts where "as = ts @ a # bs" "set ts \<subseteq> {Recv_Timeout}" by (auto split: if_splits)
  then show ?case by (intro exI [of _ "Recv_Timeout # ts"]) auto
qed (auto split: if_splits intro: exI [of _ "[]"])

lemma recvfrom_splits:
  assumes "c_recvfrom c = (Received a n, c')"
  shows "\<exists>ts p. c_inbox c = ts @ Arrives a p # c_inbox c' \<and> set ts \<subseteq> {Recv_Timeout}
    \<and> n = min (length p) (length (c_recv_buffer c))
    \<and> c' = c\<lparr>c_inbox := c_inbox c', c_recv_buffer := splice 0 (take (length (c_recv_buffer c)) p) (c_recv_buffer c)\<rparr>"
proof -
  obtain p as where n: "next_arrival (no_recv_timeout c) (c_inbox c) = (Some (Arrives a p), as)"
    and r: "n = length (take (length (c_recv_buffer c)) p)"
      "c' = c\<lparr>c_inbox := as, c_recv_buffer := splice 0 (take (length (c_recv_buffer c)) p) (c_recv_buffer c)\<rparr>"
    using assms by (auto simp: c_recvfrom_def Let_def split: prod.splits option.splits arrival.splits)
  obtain ts where "c_inbox c = ts @ Arrives a p # as" "set ts \<subseteq> {Recv_Timeout}"
    using next_arrival_split [OF n] by auto
  then show ?thesis using r by (intro exI [of _ ts] exI [of _ p]) (simp add: min.commute)
qed

lemma would_block_drops:
  assumes "c_recvfrom c = (Would_Block, d)"
  shows "\<exists>ts as. d = c\<lparr>c_inbox := as\<rparr> \<and> c_inbox c = ts @ as \<and> set ts \<subseteq> {Recv_Timeout}"
proof -
  have n: "next_arrival w as = (Some Recv_Timeout, bs) \<Longrightarrow> \<exists>ts. as = ts @ bs \<and> set ts \<subseteq> {Recv_Timeout}"
    for w as bs
  proof (induction w as rule: next_arrival.induct)
    case (2 w as)
    show ?case
    proof (cases w)
      case True
      then obtain ts where "as = ts @ bs" "set ts \<subseteq> {Recv_Timeout}" using 2 by auto
      then show ?thesis by (intro exI [of _ "Recv_Timeout # ts"]) auto
    next
      case False
      then show ?thesis using 2 by (intro exI [of _ "[Recv_Timeout]"]) auto
    qed
  qed (auto split: if_splits)
  show ?thesis
    using assms n by (fastforce simp: c_recvfrom_def Let_def split: prod.splits option.splits arrival.splits)
qed

text \<open>A packet is received from \<open>d\<close>, a state after some repetitions of the last packet.\<close>

lemma receive_packet_waits:
  assumes "receive_packet_loop k c = (Packet a n, c')"
  shows "\<exists>d ts as. c_recvfrom d = (Received a n, c') \<and> c_inbox c = ts @ as \<and> set ts \<subseteq> {Recv_Timeout}
    \<and> sends_only (c\<lparr>c_inbox := as\<rparr>) d"
  using assms
proof (induction k c rule: receive_packet_loop.induct)
  case (1 k c)
  obtain r d where rd: "c_recvfrom c = (r, d)" by fastforce
  have lim: "unat k < 1 + unat (c_retries c)"
    using "1.prems" by (subst (asm) receive_packet_loop.simps) (auto split: if_splits)
  show ?case
  proof (cases "r = Would_Block")
    case False
    then have "r = Received a n \<and> d = c'"
      using "1.prems" lim rd by (subst (asm) receive_packet_loop.simps) (auto split: recv_result.splits)
    then show ?thesis using rd by (intro exI [of _ c] exI [of _ "[]"] exI [of _ "c_inbox c"]) simp
  next
    case True
    then obtain ts as where d: "d = c\<lparr>c_inbox := as\<rparr>" and ts: "c_inbox c = ts @ as" "set ts \<subseteq> {Recv_Timeout}"
      using would_block_drops rd by blast
    obtain r' e where e: "retransmit_last_packet_sent d = (r', e)" by fastforce
    have "receive_packet_loop k c = (Packet a n, c')" using "1.prems" .
    then have k: "k \<noteq> c_retries d" "r' = Ret_True" "receive_packet_loop (k + 1) e = (Packet a n, c')"
      using lim rd True e unfolding receive_packet_loop.simps [of k c] by (auto split: if_splits ret.splits)
    have "\<exists>f us bs. c_recvfrom f = (Received a n, c') \<and> c_inbox e = us @ bs \<and> set us \<subseteq> {Recv_Timeout}
        \<and> sends_only (e\<lparr>c_inbox := bs\<rparr>) f"
      using "1.IH" lim rd True k e by auto
    then obtain f us bs where f: "c_recvfrom f = (Received a n, c')" "c_inbox e = us @ bs"
      "set us \<subseteq> {Recv_Timeout}" "sends_only (e\<lparr>c_inbox := bs\<rparr>) f" by blast
    have se: "sends_only d e" by (rule sending.doesD [OF sending_retransmit e])
    then have "c_inbox c = (ts @ us) @ bs" using d ts(1) f(2) by (simp add: sends_only_def sent_view_def)
    moreover have "sends_only (c\<lparr>c_inbox := bs\<rparr>) f"
      using se f(4) d by (simp add: sends_only_def sent_view_def)
    moreover have "set (ts @ us) \<subseteq> {Recv_Timeout}" using ts(2) f(3) by simp
    ultimately show ?thesis using f(1) by blast
  qed
qed

text \<open>
  A received packet is the first datagram of the inbox, cut to the size of the receive buffer and
  written to its beginning.
\<close>

lemma receive_packet_splits:
  assumes "receive_packet c = (Packet a n, c')"
  obtains ts p where "c_inbox c = ts @ Arrives a p # c_inbox c'" and "set ts \<subseteq> {Recv_Timeout}"
    and "n = min (length p) (length (c_recv_buffer c))"
    and "sends_only (c\<lparr>c_inbox := c_inbox c',
      c_recv_buffer := splice 0 (take (length (c_recv_buffer c)) p) (c_recv_buffer c)\<rparr>) c'"
proof -
  obtain d ts as where d: "c_recvfrom d = (Received a n, c')" "c_inbox c = ts @ as" "set ts \<subseteq> {Recv_Timeout}"
    "sends_only (c\<lparr>c_inbox := as\<rparr>) d"
    using receive_packet_waits assms unfolding receive_packet_def by blast
  obtain us p where u: "c_inbox d = us @ Arrives a p # c_inbox c'" "set us \<subseteq> {Recv_Timeout}"
    "n = min (length p) (length (c_recv_buffer d))"
    "c' = d\<lparr>c_inbox := c_inbox c', c_recv_buffer := splice 0 (take (length (c_recv_buffer d)) p) (c_recv_buffer d)\<rparr>"
    using recvfrom_splits [OF d(1)] by blast
  have f: "c_recv_buffer d = c_recv_buffer c" "c_inbox d = as"
    using d(4) by (simp_all add: sends_only_def sent_view_def)
  show thesis
  proof (rule that [of "ts @ us" p])
    show "c_inbox c = (ts @ us) @ Arrives a p # c_inbox c'" using d(2) u(1) f by simp
    show "set (ts @ us) \<subseteq> {Recv_Timeout}" using d(3) u(2) by simp
    show "n = min (length p) (length (c_recv_buffer c))" using u(3) f by simp
    show "sends_only (c\<lparr>c_inbox := c_inbox c',
        c_recv_buffer := splice 0 (take (length (c_recv_buffer c)) p) (c_recv_buffer c)\<rparr>) c'"
      using d(4) f by (subst u(4)) (simp add: sends_only_def sent_view_def)
  qed
qed

lemma receive_packet_consumes:
  "receive_packet c = (Packet a n, c') \<Longrightarrow> length (c_inbox c') < length (c_inbox c)"
  by (erule receive_packet_splits) simp

definition same_inbox :: "client \<Rightarrow> client \<Rightarrow> bool" where
  "same_inbox c c' \<longleftrightarrow> c_inbox c' = c_inbox c"

interpretation inbox: op_effect same_inbox
  by unfold_locales (auto simp: same_inbox_def)

lemma negotiating_inbox: "negotiating.does f \<Longrightarrow> inbox.does f"
  by (simp add: negotiating.does_def inbox.does_def negotiates_def same_inbox_def oack_view_def)

lemmas sending_inbox = negotiating_inbox [OF sending_negotiating]

lemma same_inbox_simps [simp]:
  "same_inbox c (c'\<lparr>c_file := y\<rparr>) = same_inbox c c'" "same_inbox c c"
  "same_inbox c (c'\<lparr>c_bytes_transferred := b\<rparr>) = same_inbox c c'"
  "same_inbox c (c'\<lparr>c_options := p\<rparr>) = same_inbox c c'"
  "same_inbox c (c'\<lparr>c_use_options := u\<rparr>) = same_inbox c c'"
  "same_inbox c (c'\<lparr>c_may_not_support_options := m\<rparr>) = same_inbox c c'"
  "same_inbox c (default_parameters c') = same_inbox c c'"
  by (simp_all add: same_inbox_def default_parameters_def)

lemma sending_fails: "sending.does (chain [try_send_error e, return_false])"
  by (rule sending.does_chain) (auto intro: sending_try_send_error sending_return_false)

lemma inbox_first_data: "inbox.does on_first_data"
proof (rule inbox.doesI)
  fix c :: client
  have "inbox.does (chain [try_send_error TFTP_ERROR_INVALID_OPTIONS,
                     assign (c_may_not_support_options_update (\<lambda>_. True)), return_false])"
    by (rule inbox.does_chain)
      (auto intro!: sending_inbox sending_try_send_error sending_return_false sending.does_assign)
  then have "same_inbox c (snd (chain [try_send_error TFTP_ERROR_INVALID_OPTIONS,
                     assign (c_may_not_support_options_update (\<lambda>_. True)), return_false]
                     (c\<lparr>c_use_options := False\<rparr>)))"
    by (rule inbox.does_after) simp
  then show "same_inbox c (snd (on_first_data c))"
    by (simp add: on_first_data_def Let_def del: chain.simps)
qed

lemma inbox_store_data: "inbox.does (store_data n)"
proof (rule inbox.doesI)
  fix c :: client
  obtain r d where rd: "c_sys_call (int n) c = (r, d)" by fastforce
  then have cd: "same_inbox c d"
    using sends_only_sys_call [of c "int n"] by (simp add: sends_only_def sent_view_def same_inbox_def)
  have "same_inbox c (snd (chain [try_send_error e, return_false] (d\<lparr>c_file := x\<rparr>)))" for e x
    by (rule inbox.does_after [OF sending_inbox [OF sending_fails]]) (simp add: cd)
  then show "same_inbox c (snd (store_data n c))"
    using cd by (simp add: store_data_def rd Let_def del: chain.simps)
qed

lemma inbox_check_read_type: "inbox.does (check_read_type b)"
  using sending_inbox [OF sending_fails, of TFTP_ERROR_INVALID_OPTIONS]
  by (simp add: inbox.does_def check_read_type_def del: chain.simps)

lemma then_next_inbox:
  assumes "inbox.does f" and "\<And>d. same_inbox d (snd (k d))"
  shows "same_inbox c (snd (then_next f k c))"
  using inbox.doesD [OF assms(1), of c] assms(2) inbox.rel_trans
  unfolding then_next_def by (cases "f c") (auto split: ret.split intro: inbox.rel_trans)

lemma inbox_receive_block: "same_inbox c (snd (receive_block expected n c))"
proof -
  have st: "inbox.does (chain [store_data l, send_ack b])" for l b
    by (rule inbox.does_chain) (auto intro: inbox_store_data sending_inbox [OF sending_send_ack])
  show ?thesis
    unfolding receive_block_def Let_def
    by (auto intro!: then_next_inbox st sending_inbox [OF sending_retransmit] split: option.split)
qed

lemma inbox_receive_packet_of: "same_inbox c (snd (receive_packet_of first expected n c))"
proof -
  have oack: "inbox.does (chain [handle_oack_packet n, check_read_type b, send_ack 0])" for b
    by (rule inbox.does_chain)
      (auto intro: negotiating_inbox [OF negotiating_oack] inbox_check_read_type sending_inbox [OF sending_send_ack])
  have "inbox.does (if first then on_first_data else (\<lambda>c. (Ret_True, c)))"
    by (simp add: inbox_first_data inbox.does_return)
  then have "same_inbox c (snd (receive_data first expected n c))"
    unfolding receive_data_def by (rule then_next_inbox) (rule inbox_receive_block)
  then show ?thesis
    by (auto simp: receive_packet_of_def receive_oack_def split: option.split tftp_opcode.split
        intro!: then_next_inbox oack)
qed

lemma receive_step_consumes:
  assumes "receive_step first expected c = (Continue f d e, c')"
  shows "length (c_inbox c') < length (c_inbox c)"
proof -
  obtain a n p where p: "receive_packet c = (Packet a n, p)"
    using assms by (auto simp: receive_step_def split: prod.splits packet_result.splits)
  let ?p = "if first then p\<lparr>c_server := a\<rparr> else p"
  have "same_inbox ?p (handle_unexpected_peer a ?p)"
    using sends_only_sendto [of ?p a] by (simp add: handle_unexpected_peer_def sends_only_def sent_view_def same_inbox_def)
  then have "same_inbox ?p c'"
    using assms inbox_receive_packet_of [of ?p first expected n]
    by (auto simp: receive_step_def p Let_def split: if_splits)
  then have "c_inbox c' = c_inbox p" by (simp add: same_inbox_def split: if_splits)
  then show ?thesis using receive_packet_consumes [OF p] by simp
qed

section \<open>The loop, and the request\<close>

function receive_file_loop :: "bool \<Rightarrow> bool \<Rightarrow> u16 \<Rightarrow> client op" where
  "receive_file_loop first finished expected c =
     (if finished then (Ret_True, c)
      else case receive_step first expected c of
          (Return r, c') \<Rightarrow> (r, c')
        | (Continue first' complete' expected', c') \<Rightarrow> receive_file_loop first' complete' expected' c')"
  by pat_completeness auto

termination
  by (relation "measure (\<lambda>(first, finished, expected, c). length (c_inbox c))")
    (auto dest: receive_step_consumes [OF sym])

declare receive_file_loop.simps [simp del]

definition receive_file :: "client op" where
  "receive_file = receive_file_loop True False 1"

definition get_failed :: "client \<Rightarrow> tftp_client_response" where
  "get_failed c = Client_Error (c_may_not_support_options c)"

definition allocate_recv_buffer :: "client op" where
  "allocate_recv_buffer =
     chain [c_call, assign (\<lambda>c. c\<lparr>c_recv_buffer :=
              malloc_bytes (tftp_packet_buffer_size (o_block_size (c_options c))) c\<rparr>)]"

definition check_tsize :: "client op" where
  "check_tsize c =
     (if o_use_tsize (c_options c) \<and> c_bytes_transferred c \<noteq> o_tsize (c_options c)
      then (Ret_False, c) else (Ret_True, c))"

text \<open>A request without a result: its behaviour is undefined, or it does not return.\<close>

definition no_result :: "client \<Rightarrow> tftp_client_response" where
  "no_result c = (if c_blocked c then Client_Hangs else Client_Fault)"

lemma no_result_fails [simp]: "no_result c \<noteq> Client_Success n"
  by (simp add: no_result_def)

definition handle_get_request :: "client \<Rightarrow> tftp_client_response \<times> client" where
  "handle_get_request c =
     (case chain [send_read_request, allocate_recv_buffer, receive_file, check_tsize] c of
        (Ret_True, c') \<Rightarrow> (Client_Success (c_bytes_transferred c'), c')
      | (Ret_False, c') \<Rightarrow> (get_failed c', c')
      | (Fault, c') \<Rightarrow> (no_result c', c'))"

section \<open>Connections\<close>

text \<open>
  \<open>is_ipv6\<close> and \<open>gai\<close> are what the resolver says of the host: whether it is an IPv6 address, and the
  result of \<open>getaddrinfo\<close> with the first address of its list.
\<close>

definition connection_init :: "bool \<Rightarrow> int \<times> sockaddr \<Rightarrow> client op" where
  "connection_init is_ipv6 gai c =
     (if fst gai \<noteq> 0 then (Ret_False, c)
      else case c_call c of
          (Ret_True, c) \<Rightarrow>
            (case chain [c_call, if is_ipv6 then c_call else (\<lambda>c. (Ret_True, c))] c of
               (Ret_True, c) \<Rightarrow> (Ret_True, c\<lparr>c_server := snd gai\<rparr>)
             | (r, c) \<Rightarrow> (Ret_False, c\<lparr>c_closed := True\<rparr>))
        | (r, c) \<Rightarrow> (Ret_False, c))"

definition connection_set_recv_timeout :: "u8 \<Rightarrow> client op" where
  "connection_set_recv_timeout t =
     chain [c_call, assign (c_rcvtimeo_update (\<lambda>_. \<lparr>val_sec = int (unat t), val_usec = 0\<rparr>))]"

definition connection_destroy :: "client \<Rightarrow> client" where
  "connection_destroy c = snd (c_call (c\<lparr>c_closed := True\<rparr>))"

definition stats_init :: "client \<Rightarrow> client" where
  "stats_init c =
     (case c_clock_gettime (c\<lparr>c_bytes_transferred := 0\<rparr>) of (t, c') \<Rightarrow> c'\<lparr>c_start_time := t\<rparr>)"

text \<open>The initialised \<open>struct request\<close>; everything not mentioned is zero.\<close>

definition request_init ::
    "request_type \<Rightarrow> u8 \<Rightarrow> string \<Rightarrow> tftp_mode \<Rightarrow> tftp_client_options option \<Rightarrow> client \<Rightarrow> client" where
  "request_init type retries filename mode options c =
     (case options_init type options of
        (use, opts) \<Rightarrow>
          c\<lparr>c_retries := retries, c_use_options := use, c_options := opts, c_request_type := type,
            c_filename := filename, c_mode := mode, c_last_packet := [], c_recv_buffer := [],
            c_stack_buffer := False, c_may_not_support_options := False, c_bytes_transferred := 0,
            c_start_time := zero_timespec, c_blocked := False\<rparr>)"

definition run_request ::
    "(client \<Rightarrow> tftp_client_response \<times> client) \<Rightarrow> client \<Rightarrow> tftp_client_response \<times> client" where
  "run_request handle c =
     (case connection_set_recv_timeout (o_timeout_s (c_options c)) c of
        (Ret_True, c) \<Rightarrow> (case handle (stats_init c) of
           (r, c') \<Rightarrow> (r, if r = Client_Hangs then c' else connection_destroy c'))
      | (r, c) \<Rightarrow> (Client_Error (c_may_not_support_options c), connection_destroy c))"

definition tftp_client_read ::
    "u8 \<Rightarrow> bool \<Rightarrow> int \<times> sockaddr \<Rightarrow> string \<Rightarrow> tftp_mode \<Rightarrow> tftp_client_options option
     \<Rightarrow> client \<Rightarrow> tftp_client_response \<times> client" where
  "tftp_client_read retries is_ipv6 gai filename mode options c =
     (case connection_init is_ipv6 gai c of
        (Ret_True, c) \<Rightarrow> run_request handle_get_request (request_init REQUEST_GET retries filename mode options c)
      | (r, c) \<Rightarrow> (Client_Error False, c))"

end
