(* ===== verification/Tftp_Download.thy ===== *)
theory Tftp_Download
  imports Tftp_Client_Get Tftp_File_Blocks
begin

text \<open>
  Correctness of downloads: the loop of \<open>receive_file\<close> against the abstract sender of
  \<open>Tftp_File_Blocks\<close>.  The invariant \<open>downloading\<close> says how many chunks have been stored; it is kept by
  every iteration whatever the network does with the datagrams of the server.
\<close>

section \<open>One block\<close>

lemma sends_only_fields:
  assumes "sends_only c c'"
  shows "c_file c' = c_file c" "c_inbox c' = c_inbox c" "c_options c' = c_options c" "c_server c' = c_server c"
    "c_recv_buffer c' = c_recv_buffer c" "c_bytes_transferred c' = c_bytes_transferred c"
    "c_use_options c' = c_use_options c" "c_retries c' = c_retries c" "c_stack_buffer c' = c_stack_buffer c"
  using assms by (simp_all add: sends_only_def sent_view_def)

lemma then_next_Continue:
  assumes "then_next f k c = (Continue a b e, c')"
  obtains d where "f c = (Ret_True, d)" and "k d = (Continue a b e, c')"
  using assms by (auto simp: then_next_def split: prod.splits ret.splits)

declare length_data_header [simp]

lemma chain_return_false: "chain [f, return_false] s \<noteq> (Ret_True, t)"
  by (auto simp: return_false_def split: prod.split ret.split)

lemma store_data_True:
  assumes "store_data n c = (Ret_True, c')" and "length (c_recv_buffer c) < 2 ^ 64"
  shows "4 + n \<le> length (c_recv_buffer c)"
    and "\<exists>d. sends_only c d \<and> c' = d\<lparr>c_file := c_file c @ take n (drop 4 (c_recv_buffer c)),
      c_bytes_transferred := c_bytes_transferred c + n\<rparr>"
proof -
  show n: "4 + n \<le> length (c_recv_buffer c)" using assms(1) by (auto simp: store_data_def split: if_splits)
  obtain r d where rd: "c_sys_call (int n) c = (r, d)" by fastforce
  have so: "sends_only c d" using sends_only_sys_call [of c "int n"] rd by simp
  have "r = int n"
  proof (rule ccontr)
    assume "r \<noteq> int n"
    then have "\<exists>e x. chain [try_send_error e, return_false] x = (Ret_True, c')"
      using assms(1) n rd by (auto simp: store_data_def Let_def simp del: chain.simps split: if_splits)
    then show False using chain_return_false [where t = c'] by auto
  qed
  then have "c' = d\<lparr>c_file := c_file d @ take n (drop 4 (c_recv_buffer c)),
      c_bytes_transferred := c_bytes_transferred d + n\<rparr>"
    using assms(1) n rd by (simp add: store_data_def Let_def)
  then show "\<exists>d. sends_only c d \<and> c' = d\<lparr>c_file := c_file c @ take n (drop 4 (c_recv_buffer c)),
      c_bytes_transferred := c_bytes_transferred c + n\<rparr>"
    using so by (auto simp: sends_only_fields)
qed

text \<open>What a DATA packet in the receive buffer does to the file.\<close>

lemma receive_block_genuine:
  assumes run: "receive_block expected n c = (Continue first' finished' expected', c')"
    and p: "take n (c_recv_buffer c) = tftp_data_packet_init b @ data" and n: "n = 4 + length data"
    and "length (c_recv_buffer c) < 2 ^ 64"
  shows "\<not> first' \<and> c_inbox c' = c_inbox c \<and> c_options c' = c_options c \<and> c_server c' = c_server c
    \<and> c_recv_buffer c' = c_recv_buffer c
    \<and> (if b \<noteq> expected
       then \<not> finished' \<and> expected' = expected \<and> c_file c' = c_file c
         \<and> c_bytes_transferred c' = c_bytes_transferred c
       else finished' = (length data < unat (o_block_size (c_options c))) \<and> expected' = expected + 1
         \<and> c_file c' = c_file c @ data \<and> c_bytes_transferred c' = c_bytes_transferred c + length data)"
proof -
  obtain rest where buf: "c_recv_buffer c = tftp_data_packet_init b @ data @ rest"
    using p by (metis append_take_drop_id append.assoc)
  have blk: "received_block c = Some b"
    by (simp add: received_block_def buf tftp_data_packet_init_def wire_simps)
  have len: "n < 2 ^ 64" "4 \<le> n" using assms(4) n buf by simp_all
  have sz: "size_sub n 4 = length data" using size_sub_le [of 4 n] len n by simp
  show ?thesis
  proof (cases "b = expected")
    case False
    then have "then_next retransmit_last_packet_sent (\<lambda>c. (Continue False False expected, c)) c
        = (Continue first' finished' expected', c')"
      using run blk by (simp add: receive_block_def)
    then obtain d where "retransmit_last_packet_sent c = (Ret_True, d)"
      "(Continue False False expected, d) = (Continue first' finished' expected', c')"
      by (rule then_next_Continue)
    then show ?thesis
      using False sends_only_fields [OF sending.doesD [OF sending_retransmit]] by auto
  next
    case True
    then have "then_next (chain [store_data (length data), send_ack b])
        (\<lambda>c. (Continue False (length data < unat (o_block_size (c_options c))) (expected + 1), c)) c
        = (Continue first' finished' expected', c')"
      using run blk sz by (simp add: receive_block_def Let_def del: chain.simps)
    then obtain d where d: "chain [store_data (length data), send_ack b] c = (Ret_True, d)"
      "(Continue False (length data < unat (o_block_size (c_options d))) (expected + 1), d)
        = (Continue first' finished' expected', c')"
      by (rule then_next_Continue)
    obtain e where e: "store_data (length data) c = (Ret_True, e)" "send_ack b e = (Ret_True, d)"
      using d(1) by (rule chain2_TrueE)
    obtain x where x: "sends_only c x" "e = x\<lparr>c_file := c_file c @ data,
        c_bytes_transferred := c_bytes_transferred c + length data\<rparr>"
      using store_data_True(2) [OF e(1) assms(4)] buf by auto
    have "sends_only e d" by (rule sending.doesD [OF sending_send_ack e(2)])
    note fe = sends_only_fields [OF this]
    note fx = sends_only_fields [OF x(1)]
    have "c_inbox d = c_inbox c" "c_options d = c_options c" "c_server d = c_server c"
      "c_recv_buffer d = c_recv_buffer c" "c_file d = c_file c @ data"
      "c_bytes_transferred d = c_bytes_transferred c + length data"
      by (simp_all add: fe x(2) fx)
    then show ?thesis using d(2) True by simp
  qed
qed


section \<open>One packet\<close>

lemma receive_block_frame:
  assumes run: "receive_block expected n c = (Continue first' finished' expected', c')"
    and "length (c_recv_buffer c) < 2 ^ 64"
  shows "\<not> first'" "c_inbox c' = c_inbox c" "c_options c' = c_options c" "c_server c' = c_server c"
    "c_recv_buffer c' = c_recv_buffer c"
proof -
  obtain b where b: "received_block c = Some b"
    using run by (auto simp: receive_block_def split: option.splits)
  have "\<not> first' \<and> c_inbox c' = c_inbox c \<and> c_options c' = c_options c \<and> c_server c' = c_server c
    \<and> c_recv_buffer c' = c_recv_buffer c"
  proof (cases "b = expected")
    case False
    then have "then_next retransmit_last_packet_sent (\<lambda>c. (Continue False False expected, c)) c
        = (Continue first' finished' expected', c')"
      using run b by (simp add: receive_block_def)
    then show ?thesis
      by (rule then_next_Continue) (use sends_only_fields [OF sending.doesD [OF sending_retransmit]] in auto)
  next
    case True
    then have "then_next (chain [store_data (size_sub n 4), send_ack b])
        (\<lambda>c. (Continue False (size_sub n 4 < unat (o_block_size (c_options c))) (expected + 1), c)) c
        = (Continue first' finished' expected', c')"
      using run b by (simp add: receive_block_def Let_def del: chain.simps)
    then obtain d where d: "chain [store_data (size_sub n 4), send_ack b] c = (Ret_True, d)"
      "\<not> first'" "d = c'" by (rule then_next_Continue) auto
    obtain e where e: "store_data (size_sub n 4) c = (Ret_True, e)" "send_ack b e = (Ret_True, d)"
      using d(1) by (rule chain2_TrueE)
    obtain x where x: "sends_only c x" "e = x\<lparr>c_file := c_file c @ take (size_sub n 4) (drop 4 (c_recv_buffer c)),
        c_bytes_transferred := c_bytes_transferred c + size_sub n 4\<rparr>"
      using store_data_True(2) [OF e(1) assms(2)] by auto
    have "sends_only e c'" using sending.doesD [OF sending_send_ack e(2)] d(3) by simp
    note fe = sends_only_fields [OF this]
    note fx = sends_only_fields [OF x(1)]
    show ?thesis using d(2) by (simp add: fe x(2) fx)
  qed
  then show "\<not> first'" "c_inbox c' = c_inbox c" "c_options c' = c_options c" "c_server c' = c_server c"
    "c_recv_buffer c' = c_recv_buffer c" by simp_all
qed

text \<open>The receive buffer always has room for a DATA packet of the block size in use.\<close>

definition buffer_fits :: "client \<Rightarrow> bool" where
  "buffer_fits c \<longleftrightarrow> tftp_packet_buffer_size (o_block_size (c_options c)) \<le> length (c_recv_buffer c)
     \<and> length (c_recv_buffer c) \<le> 65539"

lemma buffer_size_bound: "tftp_packet_buffer_size b \<le> 65539"
  using unat_u16_less [of b] by (simp add: tftp_packet_buffer_size_def)

lemma buffer_fits_bounds:
  assumes "buffer_fits c"
  shows "length (c_recv_buffer c) < 2 ^ 64" "516 \<le> length (c_recv_buffer c)"
    "4 + unat (o_block_size (c_options c)) \<le> length (c_recv_buffer c)"
  using assms by (simp_all add: buffer_fits_def tftp_packet_buffer_size_def)

lemma resize_fits:
  assumes "resize_recv_buffer c = (Ret_True, c')"
  shows "buffer_fits c' \<and> o_block_size (c_options c') = o_block_size (c_options c)"
proof -
  let ?n = "tftp_packet_buffer_size (o_block_size (c_options c))"
  have "chain [c_call, assign (\<lambda>c. c\<lparr>c_recv_buffer :=
                take ?n (c_recv_buffer c @ malloc_bytes (?n - length (c_recv_buffer c)) c)\<rparr>)] c = (Ret_True, c')"
    using assms by (simp add: resize_recv_buffer_def Let_def del: chain.simps split: if_splits)
  then obtain d where d: "c_call c = (Ret_True, d)"
    "c' = d\<lparr>c_recv_buffer := take ?n (c_recv_buffer d @ malloc_bytes (?n - length (c_recv_buffer d)) d)\<rparr>"
    by (rule chain2_TrueE) (simp add: assign_def)
  note f = sends_only_fields [OF sending.doesD [OF sending_call d(1)]]
  have m: "length (malloc_bytes k d) = k" for k by (simp add: malloc_bytes_def)
  have "length (c_recv_buffer c') = ?n" by (simp add: d(2) f m)
  moreover have "o_block_size (c_options c') = o_block_size (c_options c)" by (simp add: d(2) f)
  ultimately show ?thesis using buffer_size_bound unfolding buffer_fits_def by (metis order_refl)
qed

lemma sizes_fit:
  assumes "apply_oack_sizes q c = (Ret_True, c')" and "buffer_fits c"
  shows "buffer_fits c'"
  using assms resize_fits by (auto simp: apply_oack_sizes_def split: if_splits)

lemma timeout_fits:
  assumes "apply_oack_timeout q c = (Ret_True, c')" and "buffer_fits c"
  shows "buffer_fits c'"
proof (cases "c' = c")
  case False
  then have "chain [assign (\<lambda>c. c\<lparr>c_options := (c_options c)\<lparr>o_timeout_s := ucast (q_timeout q)\<rparr>\<rparr>),
                  c_call,
                  assign (\<lambda>c. c\<lparr>c_rcvtimeo := \<lparr>val_sec = int (unat (o_timeout_s (c_options c))), val_usec = 0\<rparr>\<rparr>)] c
      = (Ret_True, c')"
    using assms(1) by (simp add: apply_oack_timeout_def del: chain.simps split: if_splits)
  then obtain d where "c_call (c\<lparr>c_options := (c_options c)\<lparr>o_timeout_s := ucast (q_timeout q)\<rparr>\<rparr>) = (Ret_True, d)"
    "c' = d\<lparr>c_rcvtimeo := \<lparr>val_sec = int (unat (o_timeout_s (c_options d))), val_usec = 0\<rparr>\<rparr>"
    by (elim chain_TrueE) (auto simp: assign_def)
  then show ?thesis
    using assms(2) sends_only_fields [OF sending.doesD [OF sending_call]] by (auto simp: buffer_fits_def)
qed (use assms in simp)

lemma oack_fits:
  assumes "handle_oack_packet n c = (Ret_True, c')" and "buffer_fits c"
  shows "buffer_fits c'"
proof -
  have d: "buffer_fits (drop_read_type x e) = buffer_fits e" for x e
    by (simp add: buffer_fits_def drop_read_type_def Let_def)
  obtain x ad q where run: "chain [apply_oack_sizes q, apply_oack_timeout q, assign (drop_read_type x)]
      (c\<lparr>c_options := (c_options c)\<lparr>o_adaptive_timeout := ad, o_tsize := q_tsize q\<rparr>\<rparr>) = (Ret_True, c')"
    using assms(1) chain_return_false [where t = c']
    by (auto simp: handle_oack_packet_def Let_def simp del: chain.simps split: option.splits if_splits)
  then obtain e1 e2 where "apply_oack_sizes q
      (c\<lparr>c_options := (c_options c)\<lparr>o_adaptive_timeout := ad, o_tsize := q_tsize q\<rparr>\<rparr>) = (Ret_True, e1)"
    "apply_oack_timeout q e1 = (Ret_True, e2)" "c' = drop_read_type x e2"
    by (elim chain_TrueE) (auto simp: assign_def)
  moreover have "buffer_fits (c\<lparr>c_options := (c_options c)\<lparr>o_adaptive_timeout := ad, o_tsize := q_tsize q\<rparr>\<rparr>)"
    using assms(2) by (simp add: buffer_fits_def)
  ultimately show ?thesis using sizes_fit timeout_fits by (metis d)
qed


text \<open>
  How an iteration that goes on has gone: a datagram has been received into \<open>q\<close>, and either it came
  from another peer, or it was an OACK, or a DATA packet.
\<close>

definition server_set :: "bool \<Rightarrow> sockaddr \<Rightarrow> client \<Rightarrow> client" where
  "server_set first a c = (if first then c\<lparr>c_server := a\<rparr> else c)"

definition opcode_in :: "byte list \<Rightarrow> tftp_opcode option" where
  "opcode_in mem = Option.bind (tftp_get_opcode_unsafe mem) opcode_of"

lemma on_first_data_True:
  "on_first_data c = (Ret_True, d) \<Longrightarrow> d = default_parameters (c\<lparr>c_use_options := False\<rparr>)"
  by (auto simp: on_first_data_def Let_def return_false_def assign_def split: if_splits prod.splits ret.splits)

lemma receive_step_Continue:
  assumes "receive_step first expected c = (Continue first' finished' expected', c')"
  obtains a n p q where "receive_packet c = (Packet a n, p)" and "n \<noteq> 0" and "q = server_set first a p"
    and "\<not> sockaddr_equals (c_server q) a \<and> first' = first \<and> \<not> finished' \<and> expected' = expected
           \<and> sends_only q c'
       \<or> sockaddr_equals (c_server q) a \<and> opcode_in (c_recv_buffer q) = Some TFTP_OPCODE_OACK
           \<and> \<not> first' \<and> \<not> finished' \<and> expected' = expected \<and> negotiates q c' \<and> (buffer_fits q \<longrightarrow> buffer_fits c')
           \<and> (\<not> first \<longrightarrow> c' = q)
       \<or> sockaddr_equals (c_server q) a \<and> opcode_in (c_recv_buffer q) = Some TFTP_OPCODE_DATA
           \<and> receive_block expected n (if first then default_parameters (q\<lparr>c_use_options := False\<rparr>) else q)
             = (Continue first' finished' expected', c')"
proof -
  obtain a n p where p: "receive_packet c = (Packet a n, p)"
    using assms by (auto simp: receive_step_def split: prod.splits packet_result.splits)
  define q where "q = server_set first a p"
  have n: "n \<noteq> 0" using assms by (auto simp: receive_step_def p split: if_splits)
  have run: "(if \<not> sockaddr_equals (c_server q) a
               then (Continue first False expected, handle_unexpected_peer a q)
               else receive_packet_of first expected n q) = (Continue first' finished' expected', c')"
    using assms n unfolding receive_step_def p prod.case packet_result.case q_def server_set_def Let_def
    by (simp split del: if_split)
  show thesis
  proof (cases "sockaddr_equals (c_server q) a")
    case False
    then have "first' = first \<and> \<not> finished' \<and> expected' = expected \<and> c' = handle_unexpected_peer a q"
      using run by auto
    moreover have "sends_only q (handle_unexpected_peer a q)"
      by (simp add: handle_unexpected_peer_def sends_only_sendto)
    ultimately show thesis using that [OF p n q_def] False by blast
  next
    case True
    then have run': "receive_packet_of first expected n q = (Continue first' finished' expected', c')"
      using run by simp
    then consider (oack) "opcode_in (c_recv_buffer q) = Some TFTP_OPCODE_OACK"
        "receive_oack first expected n q = (Continue first' finished' expected', c')"
      | (data) "opcode_in (c_recv_buffer q) = Some TFTP_OPCODE_DATA"
        "receive_data first expected n q = (Continue first' finished' expected', c')"
      by (auto simp: receive_packet_of_def opcode_in_def split: option.splits tftp_opcode.splits)
    then show thesis
    proof cases
      case oack
      show thesis
      proof (cases first)
        case False
        then show thesis
          using oack that [OF p n q_def] True by (auto simp: receive_oack_def)
      next
        case f: True
        have "then_next (chain [handle_oack_packet n, check_read_type (read_type_active q), send_ack 0])
            (\<lambda>c. (Continue False False expected, c)) q = (Continue first' finished' expected', c')"
          using oack(2) f by (simp add: receive_oack_def del: chain.simps)
        then have d: "chain [handle_oack_packet n, check_read_type (read_type_active q), send_ack 0] q = (Ret_True, c')"
          "\<not> first'" "\<not> finished'" "expected' = expected"
          by (auto elim: then_next_Continue simp del: chain.simps)
        then obtain e1 e2 where e: "handle_oack_packet n q = (Ret_True, e1)"
          "check_read_type (read_type_active q) e1 = (Ret_True, e2)" "send_ack 0 e2 = (Ret_True, c')"
          by (elim chain_TrueE) auto
        have "e2 = e1" using e(2) chain_return_false [where t = e2]
          by (auto simp: check_read_type_def simp del: chain.simps split: if_splits)
        then have s: "sends_only e1 c'" using sending.doesD [OF sending_send_ack e(3)] by simp
        have "negotiates q c'"
          using negotiating.doesD [OF negotiating_oack e(1)] sends_only_negotiates [OF s] negotiating.rel_trans by blast
        moreover have "buffer_fits c'" if "buffer_fits q"
          using oack_fits [OF e(1) that] sends_only_fields [OF s] by (simp add: buffer_fits_def)
        ultimately show thesis using d that [OF p n q_def] True oack(1) f by blast
      qed
    next
      case data
      then have "receive_block expected n (if first then default_parameters (q\<lparr>c_use_options := False\<rparr>) else q)
             = (Continue first' finished' expected', c')"
        by (auto simp: receive_data_def elim!: then_next_Continue dest!: on_first_data_True split: if_splits)
      then show thesis using that [OF p n q_def] True data(1) by blast
    qed
  qed
qed


section \<open>The whole download\<close>

lemma then_next_Return: "then_next f k c = (Return Ret_True, c') \<Longrightarrow> \<exists>d. k d = (Return Ret_True, c')"
  by (auto simp: then_next_def split: prod.splits ret.splits)

lemma receive_step_not_done: "receive_step first expected c \<noteq> (Return Ret_True, c')"
proof
  assume a: "receive_step first expected c = (Return Ret_True, c')"
  have blk: "receive_block expected n d \<noteq> (Return Ret_True, c')" for n d
    by (auto simp: receive_block_def Let_def simp del: chain.simps split: option.splits if_splits dest!: then_next_Return)
  have "receive_packet_of first expected n d \<noteq> (Return Ret_True, c')" for n d
    by (auto simp: receive_packet_of_def receive_oack_def receive_data_def blk simp del: chain.simps
        split: option.splits tftp_opcode.splits if_splits dest!: then_next_Return)
  then show False
    using a by (auto simp: receive_step_def Let_def split: prod.splits packet_result.splits if_splits)
qed

lemma loop_step:
  assumes "receive_file_loop first finished expected c = (Ret_True, c')" and "\<not> finished"
  obtains f d e c1 where "receive_step first expected c = (Continue f d e, c1)"
    and "receive_file_loop f d e c1 = (Ret_True, c')"
proof -
  obtain x c1 where x: "receive_step first expected c = (x, c1)" by fastforce
  then obtain f d e where "x = Continue f d e"
    using assms receive_step_not_done [of first expected c] unfolding receive_file_loop.simps [of first finished]
    by (cases x) auto
  then show thesis using assms x that unfolding receive_file_loop.simps [of first finished] by simp
qed

lemma receive_file_induct [consumes 1, case_names finished step]:
  assumes "receive_file_loop first finished expected c = (Ret_True, c')"
    and fin: "\<And>first expected. P first True expected c'"
    and step: "\<And>first expected c f d e c1. receive_step first expected c = (Continue f d e, c1)
      \<Longrightarrow> receive_file_loop f d e c1 = (Ret_True, c') \<Longrightarrow> P f d e c1 \<Longrightarrow> P first False expected c"
  shows "P first finished expected c"
  using assms(1)
proof (induction first finished expected c rule: receive_file_loop.induct)
  case (1 first finished expected c)
  show ?case
  proof (cases finished)
    case True
    then show ?thesis using "1.prems" fin by (simp add: receive_file_loop.simps)
  next
    case False
    with "1.prems" obtain f d e c1 where st: "receive_step first expected c = (Continue f d e, c1)"
      and run: "receive_file_loop f d e c1 = (Ret_True, c')"
      by (rule loop_step)
    have "P f d e c1" using "1.IH" False st run by auto
    then show ?thesis using step [OF st run] False by simp
  qed
qed

lemma step_fixed:
  assumes "receive_step False expected c = (Continue f d e, c1)" and "buffer_fits c"
  shows "\<not> f \<and> c_server c1 = c_server c \<and> o_block_size (c_options c1) = o_block_size (c_options c)
    \<and> buffer_fits c1"
  using assms(1)
proof (rule receive_step_Continue)
  fix a n p q
  assume p: "receive_packet c = (Packet a n, p)" and q: "q = server_set False a p"
    and alt: "\<not> sockaddr_equals (c_server q) a \<and> f = False \<and> \<not> d \<and> e = expected \<and> sends_only q c1
       \<or> sockaddr_equals (c_server q) a \<and> opcode_in (c_recv_buffer q) = Some TFTP_OPCODE_OACK
           \<and> \<not> f \<and> \<not> d \<and> e = expected \<and> negotiates q c1 \<and> (buffer_fits q \<longrightarrow> buffer_fits c1)
           \<and> (\<not> False \<longrightarrow> c1 = q)
       \<or> sockaddr_equals (c_server q) a \<and> opcode_in (c_recv_buffer q) = Some TFTP_OPCODE_DATA
           \<and> receive_block expected n (if False then default_parameters (q\<lparr>c_use_options := False\<rparr>) else q)
             = (Continue f d e, c1)"
  obtain ts x where "sends_only (c\<lparr>c_inbox := c_inbox p,
      c_recv_buffer := splice 0 (take (length (c_recv_buffer c)) x) (c_recv_buffer c)\<rparr>) p"
    using receive_packet_splits [OF p] by metis
  note fp = sends_only_fields [OF this]
  have q: "c_server q = c_server c" "c_options q = c_options c" "length (c_recv_buffer q) = length (c_recv_buffer c)"
    using fp q by (simp_all add: server_set_def)
  then have fits: "buffer_fits q" using assms(2) by (simp add: buffer_fits_def)
  show ?thesis
    using alt
  proof (elim disjE conjE)
    assume "receive_block expected n (if False then default_parameters (q\<lparr>c_use_options := False\<rparr>) else q)
             = (Continue f d e, c1)"
    then have "receive_block expected n q = (Continue f d e, c1)" by simp
    from receive_block_frame [OF this buffer_fits_bounds(1) [OF fits]] q fits show ?thesis
      by (simp add: buffer_fits_def)
  qed (use q fits sends_only_fields [of q c1] in \<open>auto simp: buffer_fits_def\<close>)
qed

lemma loop_fixed:
  assumes "receive_file_loop first finished expected c = (Ret_True, c')" and "\<not> first" and "buffer_fits c"
  shows "c_server c' = c_server c \<and> o_block_size (c_options c') = o_block_size (c_options c)"
  using assms
proof (induction rule: receive_file_induct)
  case (step first expected c f d e c1)
  then have "\<not> f \<and> c_server c1 = c_server c \<and> o_block_size (c_options c1) = o_block_size (c_options c)
    \<and> buffer_fits c1"
    using step_fixed [of expected c f d e c1] by simp
  then show ?case using step by simp
qed simp

text \<open>What the datagrams of a server that sends file \<open>f\<close> in blocks of \<open>bs\<close> bytes look like.\<close>

definition server_packet :: "byte list \<Rightarrow> nat \<Rightarrow> byte list \<Rightarrow> bool" where
  "server_packet f bs p \<longleftrightarrow> length p \<noteq> 1
     \<and> (is_data_packet p \<longrightarrow> (\<exists>j \<le> length f div bs. p = data_datagram f bs j))"


lemma same_block:
  assumes "j < 65536" and "k < 65536"
  shows "(word_of_nat (j + 1) :: u16) = word_of_nat (k + 1) \<longleftrightarrow> j = k"
proof
  assume "(word_of_nat (j + 1) :: u16) = word_of_nat (k + 1)"
  then have "(word_of_nat j :: u16) = word_of_nat k" by simp
  then have "unat (word_of_nat j :: u16) = unat (word_of_nat k :: u16)" by simp
  then show "j = k" using assms by (simp add: unat_of_nat take_bit_nat_eq_self)
qed simp

lemma opcode_of_received:
  assumes "2 \<le> length p" and "2 \<le> length mem"
  shows "opcode_in (splice 0 (take (length mem) p) mem) = opcode_in p"
proof -
  obtain x y r where p: "p = x # y # r"
    using assms(1) by (metis Suc_le_length_iff numeral_2_eq_2)
  obtain l where l: "length mem = Suc (Suc l)" using assms(2) by (metis Suc_le_D numeral_2_eq_2 Suc_le_mono)
  have "take (length mem) p = x # y # take l r" unfolding l p by simp
  then show ?thesis unfolding p by (simp add: opcode_in_def tftp_get_opcode_unsafe_def splice_def)
qed

lemma data_opcode: "opcode_in p = Some TFTP_OPCODE_DATA \<longleftrightarrow> is_data_packet p"
  by (auto simp: opcode_in_def is_data_packet_def bind_eq_Some_conv opcode_of_Some)

text \<open>
  The invariant of the loop: \<open>k\<close> chunks have been stored.  \<open>srv\<close> and \<open>bs\<close> are the server and the
  block size, which are settled by the first datagram; \<open>old\<close> and \<open>base\<close> are the contents of the file
  and the count of bytes at the beginning.
\<close>

definition stored :: "byte list \<Rightarrow> nat \<Rightarrow> byte list \<Rightarrow> nat \<Rightarrow> nat \<Rightarrow> client \<Rightarrow> bool" where
  "stored f bs old base k c \<longleftrightarrow> c_file c = old @ concat (map (chunk f bs) [0..<k])
     \<and> c_bytes_transferred c = base + length (concat (map (chunk f bs) [0..<k]))"

definition downloading ::
    "byte list \<Rightarrow> nat \<Rightarrow> sockaddr \<Rightarrow> byte list \<Rightarrow> nat \<Rightarrow> bool \<Rightarrow> bool \<Rightarrow> u16 \<Rightarrow> client \<Rightarrow> bool" where
  "downloading f bs srv old base first finished expected c \<longleftrightarrow>
     (\<forall>a p. Arrives a p \<in> set (c_inbox c) \<longrightarrow> sockaddr_equals srv a \<longrightarrow> server_packet f bs p)
     \<and> buffer_fits c
     \<and> (first \<longrightarrow> stored f bs old base 0 c \<and> expected = 1 \<and> \<not> finished)
     \<and> (\<not> first \<longrightarrow> (if bs = 0 then \<not> finished
          else \<exists>k. expected = word_of_nat (k + 1) \<and> stored f bs old base k c
             \<and> (if finished then k = length f div bs + 1 else k \<le> length f div bs)))"

lemma downloading_step:
  assumes inv: "downloading f bs srv old base first False expected c"
    and step: "receive_step first expected c = (Continue first' d e, c1)"
    and fixed: "\<not> first' \<Longrightarrow> buffer_fits c1 \<Longrightarrow> c_server c1 = srv \<and> unat (o_block_size (c_options c1)) = bs"
    and small: "length f div bs < 65536"
  shows "downloading f bs srv old base first' d e c1"
  using step
proof (rule receive_step_Continue)
  let ?N = "length f div bs"
  fix a n p q
  assume p: "receive_packet c = (Packet a n, p)" and n0: "n \<noteq> 0" and q: "q = server_set first a p"
    and alt: "\<not> sockaddr_equals (c_server q) a \<and> first' = first \<and> \<not> d \<and> e = expected \<and> sends_only q c1
       \<or> sockaddr_equals (c_server q) a \<and> opcode_in (c_recv_buffer q) = Some TFTP_OPCODE_OACK
           \<and> \<not> first' \<and> \<not> d \<and> e = expected \<and> negotiates q c1 \<and> (buffer_fits q \<longrightarrow> buffer_fits c1)
           \<and> (\<not> first \<longrightarrow> c1 = q)
       \<or> sockaddr_equals (c_server q) a \<and> opcode_in (c_recv_buffer q) = Some TFTP_OPCODE_DATA
           \<and> receive_block expected n (if first then default_parameters (q\<lparr>c_use_options := False\<rparr>) else q)
             = (Continue first' d e, c1)"
  obtain ts x where ts: "c_inbox c = ts @ Arrives a x # c_inbox p" and n: "n = min (length x) (length (c_recv_buffer c))"
    and fp: "sends_only (c\<lparr>c_inbox := c_inbox p,
      c_recv_buffer := splice 0 (take (length (c_recv_buffer c)) x) (c_recv_buffer c)\<rparr>) p"
    using receive_packet_splits [OF p] by metis
  note fp = sends_only_fields [OF fp]
  have q: "c_options q = c_options c" "c_file q = c_file c" "c_bytes_transferred q = c_bytes_transferred c"
    "c_recv_buffer q = splice 0 (take (length (c_recv_buffer c)) x) (c_recv_buffer c)"
    "length (c_recv_buffer q) = length (c_recv_buffer c)" "c_inbox q = c_inbox p"
    using fp q by (simp_all add: server_set_def)
  have fits: "buffer_fits q" using inv q by (simp add: downloading_def buffer_fits_def)
  have sub: "set (c_inbox q) \<subseteq> set (c_inbox c)" using ts q by auto
  have st: "stored f bs old base k q = stored f bs old base k c" for k by (simp add: stored_def q)
  show ?thesis
    using alt
  proof (elim disjE conjE)
    assume a: "first' = first" "\<not> d" "e = expected" "sends_only q c1"
    note fc = sends_only_fields [OF a(4)]
    have "stored f bs old base k c1 = stored f bs old base k c" for k by (simp add: stored_def q fc)
    moreover have "buffer_fits c1" using fits by (simp add: buffer_fits_def fc)
    ultimately show ?thesis using inv a sub by (auto simp: downloading_def fc)
  next
    assume a: "\<not> first'" "\<not> d" "e = expected" "negotiates q c1" "buffer_fits q \<longrightarrow> buffer_fits c1"
      "\<not> first \<longrightarrow> c1 = q"
    have "stored f bs old base k c1 = stored f bs old base k c" for k
      using a(4) by (simp add: stored_def q negotiates_def oack_view_def)
    moreover have "c_inbox c1 = c_inbox q" using a(4) by (simp add: negotiates_def oack_view_def)
    ultimately show ?thesis
    proof (cases first)
      case True
      then show ?thesis
        using inv a fits sub \<open>c_inbox c1 = c_inbox q\<close> \<open>\<And>k. stored f bs old base k c1 = stored f bs old base k c\<close>
        by (auto simp: downloading_def intro!: exI [of _ 0])
    next
      case False
      then show ?thesis using inv a fits sub st by (auto simp: downloading_def)
    qed
  next
    let ?q = "if first then default_parameters (q\<lparr>c_use_options := False\<rparr>) else q"
    assume eq: "sockaddr_equals (c_server q) a" and op: "opcode_in (c_recv_buffer q) = Some TFTP_OPCODE_DATA"
      and run: "receive_block expected n ?q = (Continue first' d e, c1)"
    have fq: "buffer_fits ?q" "c_server ?q = c_server q" "c_recv_buffer ?q = c_recv_buffer q"
      "c_inbox ?q = c_inbox q" "stored f bs old base k ?q = stored f bs old base k q" for k
      using fits by (auto simp: buffer_fits_def default_parameters_def stored_def tftp_packet_buffer_size_def
          tftp_default_blksize_def)
    note fr = receive_block_frame [OF run buffer_fits_bounds(1) [OF fq(1)]]
    have f1: "buffer_fits c1" using fq(1) by (simp add: buffer_fits_def fr)
    then have sb: "c_server q = srv" "unat (o_block_size (c_options ?q)) = bs"
      using fixed [OF fr(1)] fr(3,4) fq(2) by simp_all
    have sp: "server_packet f bs x"
      using inv ts eq sb(1) by (auto simp: downloading_def)
    have "length x \<noteq> 0" "length x \<noteq> 1" using sp n0 n by (auto simp: server_packet_def)
    then have lx: "2 \<le> length x" by linarith
    have lb: "516 \<le> length (c_recv_buffer c)" using buffer_fits_bounds(2) [OF fits] q by simp
    have "is_data_packet x"
      using op opcode_of_received [OF lx, of "c_recv_buffer c"] lb unfolding q(4) data_opcode [symmetric] by simp
    then obtain j where j: "j \<le> ?N" "x = data_datagram f bs j" using sp by (auto simp: server_packet_def)
    have "length x \<le> 4 + bs" by (simp add: j(2) data_datagram_def length_chunk)
    also have "\<dots> \<le> length (c_recv_buffer c)" using buffer_fits_bounds(3) [OF fq(1)] sb(2) fq(3) q(5) by simp
    finally have nx: "n = length x" "take n (c_recv_buffer ?q) = x"
      using n by (simp_all add: fq(3) q(4) splice_def)
    have g: "\<not> first'" "c_inbox c1 = c_inbox q"
      "if word_of_nat (j + 1) \<noteq> expected
       then \<not> d \<and> e = expected \<and> c_file c1 = c_file q \<and> c_bytes_transferred c1 = c_bytes_transferred q
       else d = (length (chunk f bs j) < bs) \<and> e = expected + 1
         \<and> c_file c1 = c_file q @ chunk f bs j \<and> c_bytes_transferred c1 = c_bytes_transferred q + length (chunk f bs j)"
      using receive_block_genuine [OF run, of "word_of_nat (j + 1)" "chunk f bs j"] nx j(2)
        buffer_fits_bounds(1) [OF fq(1)] sb(2) fq(4)
      by (auto simp: data_datagram_def default_parameters_def split: if_splits)
    show ?thesis
    proof (cases "bs = 0")
      case True
      then have "\<not> d" using g(3) by (auto split: if_splits)
      then show ?thesis using inv g(1,2) f1 sub True by (auto simp: downloading_def)
    next
      case bs: False
      obtain k where k: "expected = word_of_nat (k + 1)" "stored f bs old base k q" "k \<le> ?N"
      proof (cases first)
        case True
        then show thesis using inv bs st that [of 0] by (simp add: downloading_def)
      next
        case False
        then show thesis using inv bs st that by (auto simp: downloading_def)
      qed
      have eqk: "word_of_nat (j + 1) = expected \<longleftrightarrow> j = k"
        unfolding k(1) using same_block j(1) k(3) small by simp
      show ?thesis
      proof (cases "j = k")
        case False
        then have "\<not> d" "e = expected" "stored f bs old base k c1"
          using g(3) eqk k(2) by (simp_all add: stored_def split: if_splits)
        then show ?thesis using inv g(1,2) f1 sub bs k by (auto simp: downloading_def)
      next
        case True
        then have g3: "d = (length (chunk f bs k) < bs)" "e = word_of_nat (k + 1 + 1)"
          "stored f bs old base (k + 1) c1"
          using g(3) eqk k(1,2) by (simp_all add: stored_def split: if_splits)
        have "d \<longleftrightarrow> k = ?N"
          using chunks_make_file(2) [of bs k f] chunks_make_file(3) [of bs f] bs k(3) g3(1)
          by (cases "k = ?N") auto
        then show ?thesis using inv g(1,2) g3(2,3) f1 sub bs k(3)
          by (auto simp: downloading_def simp del: of_nat_add of_nat_Suc intro!: exI [of _ "k + 1"])
      qed
    qed
  qed
qed

lemma downloading_file:
  assumes "receive_file_loop first finished expected c = (Ret_True, c')"
    and "downloading f (unat (o_block_size (c_options c'))) (c_server c') old base first finished expected c"
    and "length f div unat (o_block_size (c_options c')) < 65536"
  shows "c_file c' = old @ f \<and> c_bytes_transferred c' = base + length f"
  using assms
proof (induction rule: receive_file_induct)
  case (finished first expected)
  let ?bs = "unat (o_block_size (c_options c'))"
  have bs: "0 < ?bs" and "stored f ?bs old base (length f div ?bs + 1) c'"
    using finished by (auto simp: downloading_def split: if_splits)
  then show ?case unfolding stored_def chunks_make_file(1) [OF bs] by simp
next
  case (step first expected c f' d e c1)
  have "downloading f (unat (o_block_size (c_options c'))) (c_server c') old base f' d e c1"
    by (rule downloading_step [OF step.prems(1) step.hyps(1) _ step.prems(2)])
      (use loop_fixed [OF step.hyps(2)] in simp)
  then show ?case using step by simp
qed


lemma sending_send_rrq: "sending.does send_rrq"
proof (rule sending.doesI)
  fix c :: client
  have "sending.does (chain [send_rrq_packet p, assign (c_last_packet_update (\<lambda>_. p))])" for p
    unfolding send_rrq_packet_def by (rule sending.does_chain) (auto intro: client_intros)
  then show "sends_only c (snd (send_rrq c))"
    by (simp add: send_rrq_def sending.does_def del: chain.simps split: prod.split ret.split)
qed

lemma sending_read_request: "sending.does send_read_request"
  unfolding send_read_request_def
  by (rule sending.does_chain) (auto intro: sending_send_rrq sending_call)

lemma get_request_file:
  assumes run: "handle_get_request c = (Client_Success n, c')"
    and srv: "\<And>a p. Arrives a p \<in> set (c_inbox c) \<Longrightarrow> sockaddr_equals (c_server c') a
      \<Longrightarrow> server_packet f (unat (o_block_size (c_options c'))) p"
    and small: "length f div unat (o_block_size (c_options c')) < 65536"
  shows "c_file c' = c_file c @ f \<and> n = c_bytes_transferred c + length f"
proof -
  have "chain [send_read_request, allocate_recv_buffer, receive_file, check_tsize] c = (Ret_True, c')"
    and n: "n = c_bytes_transferred c'"
    using run by (auto simp: handle_get_request_def get_failed_def simp del: chain.simps split: prod.splits ret.splits)
  then obtain c1 c2 c3 where c1: "send_read_request c = (Ret_True, c1)" and c2: "allocate_recv_buffer c1 = (Ret_True, c2)"
    and c3: "receive_file c2 = (Ret_True, c3)" and c': "check_tsize c3 = (Ret_True, c')"
    by (elim chain_TrueE) auto
  have c': "c' = c3" using c' by (simp add: check_tsize_def split: if_splits)
  note f1 = sends_only_fields [OF sending.doesD [OF sending_read_request c1]]
  let ?n = "\<lambda>c. tftp_packet_buffer_size (o_block_size (c_options c))"
  obtain d where d: "c_call c1 = (Ret_True, d)" "c2 = d\<lparr>c_recv_buffer := malloc_bytes (?n d) d\<rparr>"
    using c2 unfolding allocate_recv_buffer_def by (rule chain2_TrueE) (simp add: assign_def)
  note fd = sends_only_fields [OF sending.doesD [OF sending_call d(1)]]
  have f2: "c_file c2 = c_file c" "c_bytes_transferred c2 = c_bytes_transferred c" "c_inbox c2 = c_inbox c"
    using d(2) by (simp_all add: fd f1)
  have "length (c_recv_buffer c2) = ?n c2" using d(2) by (simp add: malloc_bytes_def)
  then have "buffer_fits c2" using buffer_size_bound unfolding buffer_fits_def by (metis order_refl)
  then have "downloading f (unat (o_block_size (c_options c3))) (c_server c3) (c_file c) (c_bytes_transferred c)
      True False 1 c2"
    using srv unfolding c' by (simp add: downloading_def stored_def f2)
  from downloading_file [OF c3 [unfolded receive_file_def] this] show ?thesis
    using small n unfolding c' by simp
qed

lemma client_read_file:
  assumes "tftp_client_read retries is_ipv6 gai filename mode options c = (Client_Success n, c')"
    and "\<And>a p. Arrives a p \<in> set (c_inbox c) \<Longrightarrow> sockaddr_equals (c_server c') a
      \<Longrightarrow> server_packet f (unat (o_block_size (c_options c'))) p"
    and "length f div unat (o_block_size (c_options c')) < 65536"
  shows "c_file c' = c_file c @ f \<and> n = length f"
proof -
  have call: "sends_only x y" if "c_call x = (r, y)" for r x y
    by (rule sending.doesD [OF sending_call that])
  obtain c1 where c1: "connection_init is_ipv6 gai c = (Ret_True, c1)"
    and run: "run_request handle_get_request (request_init REQUEST_GET retries filename mode options c1) = (Client_Success n, c')"
    using assms(1) by (auto simp: tftp_client_read_def split: prod.splits ret.splits)
  have f1: "c_inbox c1 = c_inbox c \<and> c_file c1 = c_file c"
    using c1 sends_only_fields [OF call]
    by (auto simp: connection_init_def split: if_splits prod.splits ret.splits)
  let ?c2 = "request_init REQUEST_GET retries filename mode options c1"
  have f2: "c_inbox ?c2 = c_inbox c" "c_file ?c2 = c_file c"
    using f1 by (simp_all add: request_init_def split: prod.split)
  obtain c3 c4 where c3: "connection_set_recv_timeout (o_timeout_s (c_options ?c2)) ?c2 = (Ret_True, c3)"
    and h: "handle_get_request (stats_init c3) = (Client_Success n, c4)" and c': "c' = connection_destroy c4"
    using run by (auto simp: run_request_def split: prod.splits ret.splits)
  have f3: "c_inbox c3 = c_inbox c" "c_file c3 = c_file c"
    using c3 f2 sends_only_fields [OF call]
    by (auto simp: connection_set_recv_timeout_def assign_def split: prod.splits ret.splits)
  have f4: "c_inbox (stats_init c3) = c_inbox c" "c_file (stats_init c3) = c_file c"
    "c_bytes_transferred (stats_init c3) = 0"
    using f3 by (simp_all add: stats_init_def c_clock_gettime_def split: list.split)
  have f5: "c_server c' = c_server c4" "c_options c' = c_options c4" "c_file c' = c_file c4"
  proof -
    obtain r y where y: "c_call (c4\<lparr>c_closed := True\<rparr>) = (r, y)" by fastforce
    then have "c' = y" by (simp add: c' connection_destroy_def)
    then show "c_server c' = c_server c4" "c_options c' = c_options c4" "c_file c' = c_file c4"
      using sends_only_fields [OF call [OF y]] by simp_all
  qed
  show ?thesis
    using get_request_file [OF h, of f] assms(2,3) unfolding f4 f5 by simp
qed

section \<open>An example\<close>

text \<open>A client without options and one DATA packet of five bytes on its way.\<close>

definition example_server :: sockaddr where
  "example_server = Sockaddr_In 49152 2130706433"

definition example_client :: client where
  "example_client = \<lparr>c_retries = 0, c_use_options = False, c_options = zero_options,
     c_request_type = REQUEST_GET, c_filename = [], c_mode = TFTP_MODE_OCTET, c_last_packet = [],
     c_recv_buffer = [], c_stack_buffer = False, c_may_not_support_options = False,
     c_bytes_transferred = 0, c_start_time = zero_timespec, c_server = Sockaddr_Other 0,
     c_rcvtimeo = \<lparr>val_sec = 0, val_usec = 0\<rparr>, c_file = [], c_trace = False, c_inbox = [],
     c_sys = [], c_disk_full = False, c_clock = [], c_heap = [], c_out = [], c_closed = False,
     c_blocked = False\<rparr>"

definition lucky_client :: client where
  "lucky_client = example_client\<lparr>c_inbox := [Arrives example_server (data_datagram ''hello'' 512 0)]\<rparr>"

lemma lucky_download:
  "case tftp_client_read 3 False (0, Sockaddr_In 69 2130706433) ''f'' TFTP_MODE_OCTET None lucky_client of
     (r, c') \<Rightarrow> r = Client_Success 5 \<and> o_block_size (c_options c') = 512"
  by code_simp

section \<open>Downloads are correct\<close>

text \<open>
  C2: A download that succeeds has the file.  If \<open>tftp_client_read\<close> reports success, and every DATA
  packet that arrived from the server it settled on is a block of the file \<open>f\<close>, cut with the block
  size it settled on, then the bytes it has written are exactly \<open>f\<close>, once and in order, and their
  number is reported.  Datagrams may be lost, repeated and reordered, time-outs may occur anywhere
  and other peers may send anything; only a file of more than 65536 blocks is excluded.
\<close>

theorem download_is_the_file:
  assumes "tftp_client_read retries is_ipv6 gai filename mode options c = (Client_Success n, c')"
    and "\<And>a p. Arrives a p \<in> set (c_inbox c) \<Longrightarrow> sockaddr_equals (c_server c') a
      \<Longrightarrow> server_packet f (unat (o_block_size (c_options c'))) p"
    and "length f div unat (o_block_size (c_options c')) < 65536"
  shows "c_file c' = c_file c @ f \<and> n = length f"
  using assms by (rule client_read_file)

theorem download_is_the_file_witness:
  "\<exists>c'. tftp_client_read 3 False (0, Sockaddr_In 69 2130706433) ''f'' TFTP_MODE_OCTET None lucky_client
       = (Client_Success 5, c') \<and> c_file c' = ''hello''"
proof -
  obtain c' where run: "tftp_client_read 3 False (0, Sockaddr_In 69 2130706433) ''f'' TFTP_MODE_OCTET None lucky_client
       = (Client_Success 5, c')" and b: "o_block_size (c_options c') = 512"
    using lucky_download by (auto split: prod.splits)
  have f: "c_inbox lucky_client = [Arrives example_server (data_datagram ''hello'' 512 0)]" "c_file lucky_client = []"
    by (simp_all add: lucky_client_def example_client_def)
  have g: "server_packet ''hello'' 512 (data_datagram ''hello'' 512 0)"
    by (auto simp: server_packet_def data_datagram_def)
  show ?thesis
    using download_is_the_file [OF run, of "''hello''"] run b g unfolding f by auto
qed

end
