(* ===== verification/Tftp_End_To_End.thy ===== *)
theory Tftp_End_To_End
  imports Tftp_Download Tftp_Read_Start
begin

text \<open>
  The two programs together: a download whose datagrams come from a read session of the server.
  The network is only what happens to be in the inbox of the client.
\<close>

lemma session_packets:
  assumes "reachable_from (read_started f) read_running s" and "2 \<le> length p" and "p \<in> snd ` set (out s)"
  shows "server_packet f (unat (block_size s)) p"
proof -
  obtain k where k: "k \<le> length f div unat (block_size s) + 1" "sends_file f (unat (block_size s)) k (out s)"
    using session_sends_blocks [OF assms(1)] by blast
  have "\<exists>j \<le> length f div unat (block_size s). p = data_datagram f (unat (block_size s)) j" if dp: "is_data_packet p"
  proof -
    obtain x where x: "x \<in> set (out s)" "p = snd x" using assms(3) by blast
    then obtain j where "j < k" "p = data_datagram f (unat (block_size s)) j"
      using k(2) dp unfolding sends_file_def by blast
    then show ?thesis using k(1) by (intro exI [of _ j]) simp
  qed
  then show ?thesis using assms(2) by (simp add: server_packet_def)
qed

text \<open>
  C1: End to end.  If a client downloads from a read session of the server, that is, every datagram
  that reached it from its server is one the session has sent, in any number and order, both sides
  use the same block size, and the client reports success, then it has written the file the session
  was reading.
\<close>

theorem end_to_end_download:
  assumes "reachable_from (read_started f) read_running s"
    and "tftp_client_read attempts is_ipv6 gai filename transfer_mode given c = (Client_Success n, c')"
    and "\<And>a p. Arrives a p \<in> set (c_inbox c) \<Longrightarrow> sockaddr_equals (c_server c') a
      \<Longrightarrow> 2 \<le> length p \<and> p \<in> snd ` set (out s)"
    and "o_block_size (c_options c') = block_size s"
    and "length f div unat (block_size s) < 65536"
  shows "c_file c' = c_file c @ f \<and> n = length f"
  by (rule client_read_file [OF assms(2)])
    (use session_packets [OF assms(1)] assms(3-5) in auto)

theorem end_to_end_download_witness:
  "\<exists>(u :: session) c'. out u = [(example_peer, data_datagram ''hello'' 512 0)]
     \<and> tftp_client_read 3 False (0, Sockaddr_In 69 2130706433) ''f'' TFTP_MODE_OCTET None lucky_client
       = (Client_Success 5, c') \<and> c_file c' = ''hello''"
proof -
  obtain u :: session where r: "reachable_from (read_started ''hello'') read_running u" and b: "block_size u = 512"
    and o': "out u = [(example_peer, tftp_data_packet_init 1 @ ''hello'')]"
    by (rule download_run) simp
  obtain c' where run: "tftp_client_read 3 False (0, Sockaddr_In 69 2130706433) ''f'' TFTP_MODE_OCTET None lucky_client
       = (Client_Success 5, c')" and cb: "o_block_size (c_options c') = 512"
    using lucky_download by (auto split: prod.splits)
  have d: "data_datagram ''hello'' 512 0 = tftp_data_packet_init 1 @ ''hello''"
    by (simp add: data_datagram_def chunk_def)
  have f: "c_inbox lucky_client = [Arrives example_server (tftp_data_packet_init 1 @ ''hello'')]" "c_file lucky_client = []"
    by (simp_all add: lucky_client_def example_client_def d)
  have "c_file c' = c_file lucky_client @ ''hello'' \<and> (5::nat) = length ''hello''"
    by (rule end_to_end_download [OF r run]) (simp_all add: f o' b cb)
  then show ?thesis using run o' unfolding d f by (intro exI [of _ u] exI [of _ c']) simp
qed

end
