(* ===== verification/Tftp_Client_Put.thy ===== *)
theory Tftp_Client_Put
  imports Tftp_Client_Get
begin

text \<open>
  Uploads: \<open>send_file\<close>, \<open>handle_put_request\<close> and \<open>tftp_client_write\<close> of \<open>tftp/src/client/client.c\<close>.  The
  local variables of \<open>send_file\<close> are the record \<open>sender\<close>; its loops are partial functions, whose value
  \<open>None\<close> means that they do not return: they run forever, or a \<open>recvfrom\<close> blocks forever.
\<close>

section \<open>The variables of \<open>send_file\<close>\<close>

record sender =
  u_last_packet_size :: nat
  u_window_begin :: u16
  u_next :: u16
  u_end_of_file :: bool
  u_retransmissions :: u8
  u_packets :: "byte list list"
  u_rto :: rat
  u_start_time :: timespec
  u_adaptive :: adaptive_timeout

type_synonym upload = "sender \<times> client"

definition on_client :: "client op \<Rightarrow> upload op" where
  "on_client f u = (case f (snd u) of (r, c) \<Rightarrow> (r, (fst u, c)))"

definition window_size_of :: "upload \<Rightarrow> u16" where
  "window_size_of u = o_window_size (c_options (snd u))"

definition block_size_of :: "upload \<Rightarrow> nat" where
  "block_size_of u = unat (o_block_size (c_options (snd u)))"

definition uses_adaptive :: "upload \<Rightarrow> bool" where
  "uses_adaptive u \<longleftrightarrow> o_adaptive_timeout (c_options (snd u))"

definition read_start_time :: "upload \<Rightarrow> upload" where
  "read_start_time u = (case c_clock_gettime (snd u) of (t, c) \<Rightarrow> ((fst u)\<lparr>u_start_time := t\<rparr>, c))"

section \<open>Filling the window\<close>

text \<open>\<open>fread\<close> of at most \<open>n\<close> bytes: what it delivers and whether it has set the error indicator.\<close>

definition c_fread :: "nat \<Rightarrow> client \<Rightarrow> byte list \<times> bool \<times> client" where
  "c_fread n c =
     (let m = min n (length (c_file c))
      in case c_sys_call (int m) c of
          (r, c') \<Rightarrow> let k = min m (nat r)
                     in (take k (c_file c'), k < m, c'\<lparr>c_file := drop k (c_file c')\<rparr>))"

definition start_upload_timer :: "upload \<Rightarrow> upload" where
  "start_upload_timer u =
     (if uses_adaptive u
      then case c_clock_gettime (snd u) of (t, c) \<Rightarrow>
             ((fst u)\<lparr>u_adaptive := (snd (adaptive_timeout_start_timer (Some t) (u_adaptive (fst u))))
                         \<lparr>starting_block_number := u_next (fst u)\<rparr>\<rparr>, c)
      else u)"

definition store_packet :: "byte list \<Rightarrow> upload op" where
  "store_packet data u =
     (let s = fst u; k = packet_slot (window_size_of u) (u_next s)
      in if window_size_of u = 0 \<or> length (u_packets s) \<le> k then (Fault, u)
         else (Ret_True,
               (s\<lparr>u_packets := (u_packets s)[k := splice 0 (tftp_data_packet_init (u_next s))
                                                 (splice 4 data (u_packets s ! k))],
                  u_last_packet_size := 4 + length data\<rparr>, snd u)))"

definition transmit_packet :: "upload op" where
  "transmit_packet u =
     (let s = fst u; k = packet_slot (window_size_of u) (u_next s)
      in on_client (c_send (take (u_last_packet_size s) (u_packets s ! k))) u)"

definition send_next_packet :: "upload op" where
  "send_next_packet u =
     (if window_size_of u = 0 then (Fault, u)
      else case c_fread (block_size_of u) (snd u) of
          (data, failed, c) \<Rightarrow>
            let s = fst u
            in if length data < block_size_of u \<and> failed then (Ret_False, (s, c))
               else chain
                 [assign (map_prod (u_end_of_file_update (\<lambda>e. e \<or> length data < block_size_of u)) id),
                  store_packet data, transmit_packet,
                  assign (map_prod id (c_bytes_transferred_update (\<lambda>b. b + length data))),
                  assign (\<lambda>u. if u_window_begin (fst u) = u_next (fst u)
                              then start_upload_timer (read_start_time u) else u),
                  assign (map_prod (u_next_update (\<lambda>b. b + 1)) id)] (s, c))"

definition window_open :: "upload \<Rightarrow> bool" where
  "window_open u \<longleftrightarrow> \<not> u_end_of_file (fst u)
     \<and> is_in_range (u_next (fst u)) (u_window_begin (fst u)) (u_window_begin (fst u) + window_size_of u - 1)"

partial_function (option) fill_window :: "upload \<Rightarrow> (ret \<times> upload) option" where
  "fill_window u =
     (if window_open u
      then case send_next_packet u of
          (r, u') \<Rightarrow> if r = Ret_True then fill_window u' else Some (r, u')
      else Some (Ret_True, u))"

section \<open>Waiting for an acknowledgement\<close>

datatype wait_result = Wait_Return ret | Wait_Forever | Wait_Timeout | Wait_Other_Peer | Wait_Packet

definition wait_for_packet :: "upload \<Rightarrow> wait_result \<times> upload" where
  "wait_for_packet u =
     (case c_clock_gettime (snd u) of
        (now, c) \<Rightarrow>
          let s = fst u;
              remaining = u_rto s - (timespec_to_double now - timespec_to_double (u_start_time s))
          in if remaining \<le> 0 then (Wait_Timeout, (s, c))
             else case c_call c of
                 (Ret_True, c) \<Rightarrow>
                   (case c_recvfrom (c\<lparr>c_rcvtimeo := double_to_timeval remaining\<rparr>) of
                      (Waits_Forever, c) \<Rightarrow> (Wait_Forever, (s, c))
                    | (Recv_Error, c) \<Rightarrow> (Wait_Return Ret_False, (s, c))
                    | (Would_Block, c) \<Rightarrow> (Wait_Timeout, (s, c))
                    | (Received a n, c) \<Rightarrow>
                        if sockaddr_equals (c_server c) a then (Wait_Packet, (s, c))
                        else (Wait_Other_Peer, (s, handle_unexpected_peer a c)))
               | (r, c) \<Rightarrow> (Wait_Return Ret_False, (s, c)))"

section \<open>Sending the window again\<close>

text \<open>
  \<open>(i - 1) % window_size\<close> is computed on \<open>int\<close>: for \<open>i = 0\<close> it is \<open>-1\<close>, or \<open>0\<close> with a window of one,
  and is stored in an unsigned 16-bit index.  \<open>i == next - 1\<close> is a comparison of \<open>int\<close>s, too.
\<close>

definition resend_slot :: "u16 \<Rightarrow> u16 \<Rightarrow> nat" where
  "resend_slot ws i =
     (if i = 0 then (if ws = 1 then 0 else 65535) else (unat i - 1) mod unat ws)"

definition resend_size :: "sender \<Rightarrow> nat \<Rightarrow> u16 \<Rightarrow> nat" where
  "resend_size s block_size i =
     (if uint i = uint (u_next s) - 1 then u_last_packet_size s else 4 + block_size)"

definition resend_packet :: "u16 \<Rightarrow> upload op" where
  "resend_packet i u =
     (let s = fst u; k = resend_slot (window_size_of u) i; n = resend_size s (block_size_of u) i
      in if window_size_of u = 0 \<or> length (u_packets s) \<le> k then (Fault, u)
         else case c_sendto (c_server (snd u)) (take n (u_packets s ! k)) (snd u) of
             (r, c) \<Rightarrow> (if r = - 1 \<or> r < int n then Ret_False else Ret_True, (s, c)))"

partial_function (option) resend_window :: "u16 \<Rightarrow> upload \<Rightarrow> (ret \<times> upload) option" where
  "resend_window i u =
     (if is_in_range i (u_window_begin (fst u)) (u_next (fst u) - 1)
      then case resend_packet i u of
          (r, u') \<Rightarrow> if r = Ret_True then resend_window (i + 1) u' else Some (r, u')
      else Some (Ret_True, u))"

definition upload_backoff :: "upload \<Rightarrow> upload" where
  "upload_backoff u =
     (if uses_adaptive u
      then let a = adaptive_timeout_backoff (adaptive_timeout_cancel_timer (u_adaptive (fst u)))
           in ((fst u)\<lparr>u_adaptive := a, u_rto := timespec_to_double (rto a)\<rparr>, snd u)
      else u)"

definition on_upload_timeout :: "upload \<Rightarrow> (ret \<times> upload) option" where
  "on_upload_timeout u =
     (if c_retries (snd u) < u_retransmissions (fst u) then Some (Ret_False, u)
      else
        let u = map_prod (u_retransmissions_update (\<lambda>k. k + 1)) id u;
            u = read_start_time (upload_backoff u)
        in resend_window (u_window_begin (fst u)) u)"

section \<open>Acknowledgements\<close>

definition upload_stop_timer :: "u16 \<Rightarrow> upload \<Rightarrow> upload" where
  "upload_stop_timer block u =
     (if uses_adaptive u
         \<and> is_in_range block (starting_block_number (u_adaptive (fst u))) (u_next (fst u) - 1)
      then case c_clock_gettime (snd u) of (t, c) \<Rightarrow>
             let a = snd (adaptive_timeout_stop_timer (Some t) (u_adaptive (fst u)))
             in ((fst u)\<lparr>u_adaptive := a, u_rto := timespec_to_double (rto a)\<rparr>, c)
      else u)"

text \<open>The first part is \<open>transfer_completed\<close>.\<close>

definition on_upload_ack :: "u16 \<Rightarrow> upload \<Rightarrow> bool \<times> upload" where
  "on_upload_ack block u =
     (if \<not> is_in_range block (u_window_begin (fst u)) (u_next (fst u) - 1) then (False, u)
      else
        let u = map_prod (u_window_begin_update (\<lambda>_. block + 1)) id u;
            u = (if u_window_begin (fst u) \<noteq> u_next (fst u) then read_start_time u else u);
            completed = (u_end_of_file (fst u) \<and> uint block = uint (u_next (fst u)) - 1);
            u = map_prod (u_retransmissions_update (\<lambda>_. 0)) id u
        in (completed, upload_stop_timer block u))"

definition on_upload_packet :: "upload \<Rightarrow> ret option \<times> upload" where
  "on_upload_packet u =
     (let mem = c_recv_buffer (snd u)
      in case Option.bind (tftp_get_opcode_unsafe mem) opcode_of of
          Some TFTP_OPCODE_ACK \<Rightarrow>
            (case dec16 (drop 2 mem) of
               None \<Rightarrow> (Some Fault, u)
             | Some (block, _) \<Rightarrow>
                 (case on_upload_ack block u of
                    (completed, u') \<Rightarrow> (if completed then Some Ret_True else None, u')))
        | _ \<Rightarrow> (Some Ret_False, u))"

section \<open>The loop\<close>

partial_function (option) send_loop :: "upload \<Rightarrow> (ret \<times> upload) option" where
  "send_loop u =
     (case fill_window u of
        None \<Rightarrow> None
      | Some (r, u1) \<Rightarrow>
          if r \<noteq> Ret_True then Some (r, u1)
          else case wait_for_packet u1 of
              (w, u2) \<Rightarrow>
                (case w of
                   Wait_Return r' \<Rightarrow> Some (r', u2)
                 | Wait_Forever \<Rightarrow> None
                 | Wait_Other_Peer \<Rightarrow> send_loop u2
                 | Wait_Timeout \<Rightarrow>
                     (case on_upload_timeout u2 of
                        None \<Rightarrow> None
                      | Some (r', u3) \<Rightarrow> if r' = Ret_True then send_loop u3 else Some (r', u3))
                 | Wait_Packet \<Rightarrow>
                     (case on_upload_packet u2 of
                        (None, u3) \<Rightarrow> send_loop u3
                      | (Some r', u3) \<Rightarrow> Some (r', u3))))"

definition sender_init :: "client \<Rightarrow> sender" where
  "sender_init c =
     (let a = adaptive_timeout_init
      in \<lparr>u_last_packet_size = 0, u_window_begin = 1, u_next = 1, u_end_of_file = False,
          u_retransmissions = 0,
          u_packets = replicate (unat (o_window_size (c_options c)))
                        (malloc_bytes (4 + unat (o_block_size (c_options c))) c),
          u_rto = (if o_adaptive_timeout (c_options c) then timespec_to_double (rto a)
                   else of_nat (unat (o_timeout_s (c_options c)))),
          u_start_time = zero_timespec, u_adaptive = a\<rparr>)"

definition send_file :: "client op" where
  "send_file =
     chain [c_call,
            \<lambda>c. case send_loop (sender_init c, c) of
                None \<Rightarrow> (Fault, c\<lparr>c_blocked := True\<rparr>)
              | Some (r, u) \<Rightarrow> (r, snd u)]"

section \<open>The request\<close>

text \<open>The first answer to the write request; the address of its sender becomes the server's.\<close>

function write_request_loop :: "u8 \<Rightarrow> client \<Rightarrow> packet_result \<times> client" where
  "write_request_loop retransmissions c =
     (if \<not> unat retransmissions < 1 + unat (c_retries c) then (RECEIVE_PACKET_ERROR, c)
      else case send_write_request c of
          (Fault, c1) \<Rightarrow> (Packet_Fault, c1)
        | (Ret_False, c1) \<Rightarrow> (RECEIVE_PACKET_ERROR, c1)
        | (Ret_True, c1) \<Rightarrow>
            (case c_recvfrom c1 of
               (Received a n, c2) \<Rightarrow> (Packet a n, c2)
             | (Recv_Error, c2) \<Rightarrow> (RECEIVE_PACKET_ERROR, c2)
             | (Waits_Forever, c2) \<Rightarrow> (Packet_Fault, c2)
             | (Would_Block, c2) \<Rightarrow>
                 if retransmissions = c_retries c then (RECEIVE_PACKET_TIMEOUT, c2)
                 else write_request_loop (retransmissions + 1) c2))"
  by pat_completeness auto

termination
  by (relation "measure (\<lambda>(k, c). 256 - unat k)") (auto intro!: retransmission_counts)

declare write_request_loop.simps [simp del]

text \<open>
  The switch on the opcode of the answer.  A rejected OACK and an acknowledgement of another block
  are reported and then \<open>break\<close> leaves the switch only.
\<close>

definition on_write_answer :: "nat \<Rightarrow> client op" where
  "on_write_answer n c =
     (case Option.bind (tftp_get_opcode_unsafe (c_recv_buffer c)) opcode_of of
        Some TFTP_OPCODE_OACK \<Rightarrow>
          if \<not> c_use_options c then (Ret_False, c)
          else (case handle_oack_packet n c of (Fault, c') \<Rightarrow> (Fault, c') | (_, c') \<Rightarrow> (Ret_True, c'))
      | Some TFTP_OPCODE_ACK \<Rightarrow>
          (case dec16 (drop 2 (c_recv_buffer c)) of
             None \<Rightarrow> (Fault, c)
           | Some (block, _) \<Rightarrow>
               (Ret_True,
                if block = 0 \<and> c_use_options c
                then c\<lparr>c_use_options := False,
                       c_options := (c_options c)\<lparr>o_block_size := tftp_default_blksize,
                         o_timeout_s := default_timeout_s, o_use_tsize := False\<rparr>\<rparr>
                else c))
      | Some TFTP_OPCODE_ERROR \<Rightarrow> (Ret_False, c\<lparr>c_may_not_support_options := c_use_options c\<rparr>)
      | _ \<Rightarrow> (Ret_False, c))"

definition await_write_answer :: "client op" where
  "await_write_answer c =
     (case write_request_loop 0 c of
        (Packet a n, c') \<Rightarrow> on_write_answer n (c'\<lparr>c_server := a\<rparr>)
      | (RECEIVE_PACKET_TIMEOUT, c') \<Rightarrow> (Ret_False, c'\<lparr>c_may_not_support_options := c_use_options c'\<rparr>)
      | (RECEIVE_PACKET_ERROR, c') \<Rightarrow> (Ret_False, c')
      | (Packet_Fault, c') \<Rightarrow> (Fault, c'))"

definition tftp_oack_packet_max_size :: nat where
  "tftp_oack_packet_max_size = 512"

definition use_stack_buffer :: "client \<Rightarrow> client" where
  "use_stack_buffer c =
     c\<lparr>c_recv_buffer := malloc_bytes tftp_oack_packet_max_size c, c_stack_buffer := True\<rparr>"

definition handle_put_request :: "client \<Rightarrow> tftp_client_response \<times> client" where
  "handle_put_request c =
     (case chain [assign use_stack_buffer, await_write_answer, send_file] c of
        (Ret_True, c') \<Rightarrow> (Client_Success (c_bytes_transferred c'), c')
      | (Ret_False, c') \<Rightarrow> (get_failed c', c')
      | (Fault, c') \<Rightarrow> (no_result c', c'))"

definition tftp_client_write ::
    "u8 \<Rightarrow> bool \<Rightarrow> int \<times> sockaddr \<Rightarrow> string \<Rightarrow> tftp_mode \<Rightarrow> tftp_client_options option
     \<Rightarrow> client \<Rightarrow> tftp_client_response \<times> client" where
  "tftp_client_write retries is_ipv6 gai filename mode options c =
     (case connection_init is_ipv6 gai c of
        (Ret_True, c) \<Rightarrow> run_request handle_put_request (request_init REQUEST_PUT retries filename mode options c)
      | (r, c) \<Rightarrow> (Client_Error False, c))"

end
