(* ===== verification/Tftp_Upload.thy ===== *)
theory Tftp_Upload
  imports Tftp_Client_Put Tftp_Download
begin

text \<open>
  Correctness of uploads.  An upload always has a window of one block.  The invariant relates the
  state of \<open>send_file\<close> to the number \<open>k\<close> of blocks it has sent; with it \<open>send_file\<close> is shown to return,
  and to send the blocks of the file.  The last section shows what goes wrong when the number of
  blocks makes the 16-bit counter wrap at the end.
\<close>

section \<open>The invariant\<close>

text \<open>
  \<open>k\<close> blocks of the file have been read and sent, into an output that was \<open>old\<close> before.
\<close>

definition sent_blocks :: "byte list \<Rightarrow> nat \<Rightarrow> (sockaddr \<times> byte list) list \<Rightarrow> nat \<Rightarrow> client \<Rightarrow> bool" where
  "sent_blocks f bs old k c \<longleftrightarrow>
     (\<exists>new. c_out c = old @ new \<and> sends_file f bs k new \<and> all_sent f bs k new)"

definition uploading ::
    "byte list \<Rightarrow> nat \<Rightarrow> (sockaddr \<times> byte list) list \<Rightarrow> nat \<Rightarrow> nat \<Rightarrow> upload \<Rightarrow> bool" where
  "uploading f bs old base k u \<longleftrightarrow>
     window_size_of u = 1 \<and> block_size_of u = bs \<and> 0 < bs \<and> 4 \<le> length (c_recv_buffer (snd u))
     \<and> (\<exists>slot. u_packets (fst u) = [slot] \<and> length slot = 4 + bs)
     \<and> u_next (fst u) = word_of_nat (k + 1) \<and> k \<le> length f div bs + 1
     \<and> (u_end_of_file (fst u) \<longleftrightarrow> k = length f div bs + 1)
     \<and> c_file (snd u) = drop (k * bs) f
     \<and> c_bytes_transferred (snd u) = base + length (take (k * bs) f)
     \<and> sent_blocks f bs old k (snd u)"

definition nothing_outstanding where
  "nothing_outstanding f bs old base k u \<longleftrightarrow> uploading f bs old base k u
     \<and> u_window_begin (fst u) = word_of_nat (k + 1) \<and> k \<le> length f div bs"

definition one_outstanding where
  "one_outstanding f bs old base k u \<longleftrightarrow> uploading f bs old base k u
     \<and> u_window_begin (fst u) = word_of_nat k \<and> 1 \<le> k
     \<and> take (u_last_packet_size (fst u)) (hd (u_packets (fst u))) = data_datagram f bs (k - 1)
     \<and> u_last_packet_size (fst u) \<le> 4 + bs"

text \<open>What holds however the upload ends.\<close>

definition only_blocks :: "byte list \<Rightarrow> nat \<Rightarrow> (sockaddr \<times> byte list) list \<Rightarrow> client \<Rightarrow> bool" where
  "only_blocks f bs old c \<longleftrightarrow>
     (\<exists>k new. k \<le> length f div bs + 1 \<and> c_out c = old @ new \<and> sends_file f bs k new)"

lemma uploading_only_blocks: "uploading f bs old base k u \<Longrightarrow> only_blocks f bs old (snd u)"
  by (auto simp: uploading_def sent_blocks_def only_blocks_def)

lemma only_blocks_same: "c_out c' = c_out c \<Longrightarrow> only_blocks f bs old c' = only_blocks f bs old c"
  by (simp add: only_blocks_def)

section \<open>Sending one packet\<close>

lemma packet_slot_one [simp]: "packet_slot 1 i = 0"
  by (simp add: packet_slot_def)

text \<open>A block that has been read completely is sent, recorded, and the window has moved on.\<close>

lemma c_fread_complete:
  assumes "c_fread n c = (data, failed, c')"
  shows "c_out c' = c_out c" "c_inbox c' = c_inbox c" "c_options c' = c_options c" "c_retries c' = c_retries c"
    "c_recv_buffer c' = c_recv_buffer c" "c_bytes_transferred c' = c_bytes_transferred c"
    "\<not> (length data < n \<and> failed) \<Longrightarrow> data = take n (c_file c) \<and> c_file c' = drop n (c_file c)"
  using assms by (auto simp: c_fread_def Let_def c_sys_call_def min_def split: list.splits option.splits if_splits)

lemma take_packet:
  assumes "length data \<le> bs" and "length slot = 4 + bs"
  shows "take (4 + length data) (splice 0 (tftp_data_packet_init b) (splice 4 data slot)) = tftp_data_packet_init b @ data"
    and "length (splice 0 (tftp_data_packet_init b) (splice 4 data slot)) = 4 + bs"
  using assms by (simp_all add: splice_def)

lemma sent_blocks_next:
  assumes "sent_blocks f bs old k c" and "c_out c' = c_out c @ [(a, data_datagram f bs k)]"
  shows "sent_blocks f bs old (k + 1) c'"
proof -
  obtain new where new: "c_out c = old @ new" "sends_file f bs k new" "all_sent f bs k new"
    using assms(1) by (auto simp: sent_blocks_def)
  have "sends_file f bs (k + 1) (new @ [(a, data_datagram f bs k)])"
    using sends_file_mono [OF new(2), of "k + 1"] by (auto simp: sends_file_append) (auto simp: sends_file_def)
  moreover have "all_sent f bs (k + 1) (new @ [(a, data_datagram f bs k)])"
    using new(3) by (auto simp: all_sent_def less_Suc_eq)
  ultimately show ?thesis using assms(2) new(1) by (auto simp: sent_blocks_def)
qed

lemma start_upload_timer_frame:
  "c_out (snd (start_upload_timer u)) = c_out (snd u)" "c_inbox (snd (start_upload_timer u)) = c_inbox (snd u)"
  "c_options (snd (start_upload_timer u)) = c_options (snd u)" "c_retries (snd (start_upload_timer u)) = c_retries (snd u)"
  "c_recv_buffer (snd (start_upload_timer u)) = c_recv_buffer (snd u)"
  "c_bytes_transferred (snd (start_upload_timer u)) = c_bytes_transferred (snd u)"
  "c_file (snd (start_upload_timer u)) = c_file (snd u)"
  "u_next (fst (start_upload_timer u)) = u_next (fst u)" "u_window_begin (fst (start_upload_timer u)) = u_window_begin (fst u)"
  "u_packets (fst (start_upload_timer u)) = u_packets (fst u)" "u_end_of_file (fst (start_upload_timer u)) = u_end_of_file (fst u)"
  "u_last_packet_size (fst (start_upload_timer u)) = u_last_packet_size (fst u)"
  "u_retransmissions (fst (start_upload_timer u)) = u_retransmissions (fst u)"
  by (simp_all add: start_upload_timer_def c_clock_gettime_def split: prod.split list.split)

lemma read_start_time_frame:
  "c_out (snd (read_start_time u)) = c_out (snd u)" "c_inbox (snd (read_start_time u)) = c_inbox (snd u)"
  "c_options (snd (read_start_time u)) = c_options (snd u)" "c_retries (snd (read_start_time u)) = c_retries (snd u)"
  "c_recv_buffer (snd (read_start_time u)) = c_recv_buffer (snd u)"
  "c_bytes_transferred (snd (read_start_time u)) = c_bytes_transferred (snd u)"
  "c_file (snd (read_start_time u)) = c_file (snd u)"
  "u_next (fst (read_start_time u)) = u_next (fst u)" "u_window_begin (fst (read_start_time u)) = u_window_begin (fst u)"
  "u_packets (fst (read_start_time u)) = u_packets (fst u)" "u_end_of_file (fst (read_start_time u)) = u_end_of_file (fst u)"
  "u_last_packet_size (fst (read_start_time u)) = u_last_packet_size (fst u)"
  "u_retransmissions (fst (read_start_time u)) = u_retransmissions (fst u)"
  by (simp_all add: read_start_time_def c_clock_gettime_def split: prod.split list.split)


lemma c_send_cases:
  assumes "c_send p c = (r, c')"
  shows "(r = Ret_True \<and> c_out c' = c_out c @ [(c_server c, p)] \<or> r = Ret_False \<and> c_out c' = c_out c) \<and> sends_only c c'
    \<and> c_clock c' = c_clock c"
  using assms sending.doesD [OF sending_send assms]
  by (auto simp: c_send_def c_sendto_def c_sys_call_def split: list.splits option.splits if_splits)

lemma send_next_block:
  assumes inv: "nothing_outstanding f bs old base k u"
    and run: "send_next_packet u = (r, u')"
  shows "only_blocks f bs old (snd u') \<and> r \<noteq> Fault
    \<and> (r = Ret_True \<longrightarrow> one_outstanding f bs old base (k + 1) u'
         \<and> c_inbox (snd u') = c_inbox (snd u) \<and> c_retries (snd u') = c_retries (snd u)
         \<and> u_retransmissions (fst u') = u_retransmissions (fst u))"
proof -
  obtain s c where u: "u = (s, c)" by (cases u)
  have up: "uploading f bs old base k u" and wb: "u_window_begin s = word_of_nat (k + 1)" and k: "k \<le> length f div bs"
    using inv by (simp_all add: nothing_outstanding_def u)
  obtain slot where slot: "u_packets s = [slot]" "length slot = 4 + bs"
    using up by (auto simp: uploading_def u)
  have ws: "window_size_of (x, c) = 1" and bsz: "block_size_of (x, c) = bs" and bs: "0 < bs" for x
    using up by (simp_all add: uploading_def u window_size_of_def block_size_of_def)
  have nx: "u_next s = word_of_nat (k + 1)" and e: "\<not> u_end_of_file s"
    using up k by (simp_all add: uploading_def u)
  obtain data failed c1 where rd: "c_fread bs c = (data, failed, c1)" by (metis prod_cases3)
  note fr = c_fread_complete [OF rd]
  show ?thesis
  proof (cases "length data < bs \<and> failed")
    case True
    then have "r = Ret_False" "u' = (s, c1)" using run rd ws bsz by (simp_all add: send_next_packet_def u)
    then show ?thesis
      using uploading_only_blocks [OF up] only_blocks_same [OF fr(1)] by (simp add: u)
  next
    case False
    then have data: "data = chunk f bs k" and rest: "c_file c1 = drop ((k + 1) * bs) f"
      using fr(7) up by (simp_all add: uploading_def u chunk_def algebra_simps)
    have len: "length data \<le> bs" by (simp add: data length_chunk)
    let ?slot = "splice 0 (tftp_data_packet_init (u_next s)) (splice 4 data slot)"
    let ?s1 = "s\<lparr>u_end_of_file := length data < bs\<rparr>"
    let ?s2 = "?s1\<lparr>u_packets := [?slot], u_last_packet_size := 4 + length data\<rparr>"
    have o1: "c_options c1 = c_options c" by (rule fr(3))
    have st: "store_packet data (?s1, c1) = (Ret_True, (?s2, c1))"
      using ws slot o1 by (simp add: store_packet_def window_size_of_def Let_def)
    have pk: "take (4 + length data) ?slot = data_datagram f bs k" "length ?slot = 4 + bs"
      using take_packet [OF len slot(2)] nx data by (simp_all add: data_datagram_def)
    obtain r2 c2 where c2: "c_send (data_datagram f bs k) c1 = (r2, c2)" by fastforce
    have tr: "transmit_packet (?s2, c1) = (r2, (?s2, c2))"
      using ws o1 c2 pk by (simp add: transmit_packet_def window_size_of_def on_client_def Let_def)
    note cs = c_send_cases [OF c2]
    note f2 = sends_only_fields [OF conjunct1 [OF conjunct2 [OF cs]]]
    have rt: "c_retries c2 = c_retries c" using cs fr(4) by (simp add: sends_only_def sent_view_def)
    let ?u3 = "(?s2, c_bytes_transferred_update (\<lambda>b. b + length data) c2)"
    let ?u4 = "start_upload_timer (read_start_time ?u3)"
    have eu: "u_end_of_file_update (\<lambda>e. e \<or> length data < bs) s = ?s1" using e by (cases s) simp
    have eqn: "send_next_packet u = (case r2 of Ret_True \<Rightarrow> (Ret_True, map_prod (u_next_update (\<lambda>b. b + 1)) id ?u4)
        | _ \<Rightarrow> (r2, (?s2, c2)))"
      using rd ws bsz False st tr wb nx e
      by (auto simp: send_next_packet_def u assign_def eu split: ret.split)
    show ?thesis
    proof (cases "r2 = Ret_True")
      case False
      then have "r2 = Ret_False" "c_out c2 = c_out c" using cs fr(1) by auto
      then show ?thesis
        using eqn run uploading_only_blocks [OF up] only_blocks_same [of c2 c] by (auto simp: u)
    next
      case True
      then have u': "u' = map_prod (u_next_update (\<lambda>b. b + 1)) id ?u4" "r = Ret_True" using eqn run by simp_all
      note frames = start_upload_timer_frame read_start_time_frame
      have out2: "c_out (snd u') = c_out c @ [(c_server c1, data_datagram f bs k)]"
        using u' True cs fr(1) by (auto simp: frames)
      have sb: "sent_blocks f bs old (k + 1) (snd u')"
        using sent_blocks_next [OF _ out2] up by (simp add: uploading_def u)
      have eof: "length data < bs \<longleftrightarrow> k = length f div bs"
        using chunks_make_file(2) [OF bs, of k f] chunks_make_file(3) [OF bs, of f] k unfolding data
        by (cases "k = length f div bs") auto
      have bytes: "length (take (k * bs) f) + length data = length (take ((k + 1) * bs) f)"
        by (auto simp: data length_chunk min_def algebra_simps)
      have upl: "uploading f bs old base (k + 1) u'"
        unfolding uploading_def
      proof (intro conjI)
        show "window_size_of u' = 1" "block_size_of u' = bs"
          using ws bsz by (simp_all add: u' window_size_of_def block_size_of_def frames f2 o1)
        show "0 < bs" by (rule bs)
        show "4 \<le> length (c_recv_buffer (snd u'))"
          using up by (simp add: u' frames f2 fr(5) uploading_def u)
        show "\<exists>slot. u_packets (fst u') = [slot] \<and> length slot = 4 + bs"
          using pk(2) by (simp add: u' frames)
        show "u_next (fst u') = word_of_nat (k + 1 + 1)" using nx by (simp add: u' frames)
        show "k + 1 \<le> length f div bs + 1" using k by simp
        show "u_end_of_file (fst u') \<longleftrightarrow> k + 1 = length f div bs + 1" using eof by (simp add: u' frames)
        show "c_file (snd u') = drop ((k + 1) * bs) f" using rest by (simp add: u' frames f2)
        show "c_bytes_transferred (snd u') = base + length (take ((k + 1) * bs) f)"
          using bytes up by (simp add: u' frames f2 fr(6) uploading_def u)
        show "sent_blocks f bs old (k + 1) (snd u')" by (rule sb)
      qed
      moreover have "u_window_begin (fst u') = word_of_nat (k + 1)" using wb by (simp add: u' frames)
      moreover have "take (u_last_packet_size (fst u')) (hd (u_packets (fst u'))) = data_datagram f bs (k + 1 - 1)"
        "u_last_packet_size (fst u') \<le> 4 + bs"
        using pk(1) len by (simp_all add: u' frames)
      ultimately have "one_outstanding f bs old base (k + 1) u'" by (simp add: one_outstanding_def)
      moreover have "c_inbox (snd u') = c_inbox c" "c_retries (snd u') = c_retries c"
        "u_retransmissions (fst u') = u_retransmissions s"
        using rt by (simp_all add: u' frames f2 fr(2))
      ultimately show ?thesis using uploading_only_blocks [OF upl] u'(2) by (simp add: u)
    qed
  qed
qed


lemma in_range_single: "is_in_range i (b :: u16) b \<longleftrightarrow> i = b"
  by (auto simp: is_in_range_def)

lemma closed_window:
  assumes "one_outstanding f bs old base k u"
  shows "\<not> window_open u"
proof -
  have "u_next (fst u) \<noteq> u_window_begin (fst u)" "window_size_of u = 1"
    using assms by (simp_all add: one_outstanding_def uploading_def)
  then show ?thesis by (simp add: window_open_def in_range_single)
qed

text \<open>The sending phase: afterwards one packet is outstanding, or the upload fails.\<close>

lemma fill_outstanding: "one_outstanding f bs old base k u \<Longrightarrow> fill_window u = Some (Ret_True, u)"
  using closed_window by (subst fill_window.simps) simp

lemma fill_nothing:
  assumes "nothing_outstanding f bs old base k u"
  obtains r u' where "fill_window u = Some (r, u')" and "only_blocks f bs old (snd u')"
    and "r = Ret_True \<Longrightarrow> one_outstanding f bs old base (k + 1) u'
         \<and> c_inbox (snd u') = c_inbox (snd u) \<and> c_retries (snd u') = c_retries (snd u)
         \<and> u_retransmissions (fst u') = u_retransmissions (fst u)"
proof -
  have op: "window_open u"
    using assms by (auto simp: nothing_outstanding_def uploading_def window_open_def in_range_single)
  obtain r u' where n: "send_next_packet u = (r, u')" by (rule prod.exhaust)
  note sn = send_next_block [OF assms n]
  have "fill_window u = Some (r, u')"
  proof (cases "r = Ret_True")
    case True
    then have "fill_window u' = Some (Ret_True, u')" using sn fill_outstanding by blast
    then show ?thesis using op n True by (subst fill_window.simps) simp
  next
    case False
    then show ?thesis using op n by (subst fill_window.simps) simp
  qed
  then show thesis using sn that by blast
qed

section \<open>The other phases\<close>

text \<open>What the invariant reads of the client; sending to other peers adds no blocks.\<close>

definition upload_keeps :: "client \<Rightarrow> client \<Rightarrow> bool" where
  "upload_keeps c c' \<longleftrightarrow> c_options c' = c_options c \<and> c_file c' = c_file c \<and> c_retries c' = c_retries c
     \<and> c_bytes_transferred c' = c_bytes_transferred c \<and> length (c_recv_buffer c') = length (c_recv_buffer c)
     \<and> (\<exists>new. c_out c' = c_out c @ new \<and> (\<forall>x \<in> set new. \<not> is_data_packet (snd x)))"

lemma upload_keeps_refl [simp]: "upload_keeps c c"
  by (simp add: upload_keeps_def)

lemma upload_keeps_trans: "upload_keeps c d \<Longrightarrow> upload_keeps d e \<Longrightarrow> upload_keeps c e"
  by (auto simp: upload_keeps_def)

lemma sends_file_quiet: "\<forall>x \<in> set new. \<not> is_data_packet (snd x) \<Longrightarrow> sends_file f bs k new"
  by (auto simp: sends_file_def)

lemma uploading_keeps:
  assumes "uploading f bs old base k (s, c)" and "upload_keeps c c'"
    and "u_packets s' = u_packets s" "u_next s' = u_next s" "u_end_of_file s' = u_end_of_file s"
  shows "uploading f bs old base k (s', c')"
proof -
  obtain new where "c_out c' = c_out c @ new" "\<forall>x \<in> set new. \<not> is_data_packet (snd x)"
    using assms(2) by (auto simp: upload_keeps_def)
  then have "sent_blocks f bs old k c'"
    using assms(1) sends_file_quiet [of new f bs k]
    by (auto simp: uploading_def sent_blocks_def sends_file_append all_sent_more)
  then show ?thesis
    using assms by (simp add: uploading_def upload_keeps_def window_size_of_def block_size_of_def)
qed

lemma outstanding_keeps:
  assumes "one_outstanding f bs old base k (s, c)" and "upload_keeps c c'"
    and "u_packets s' = u_packets s" "u_next s' = u_next s" "u_end_of_file s' = u_end_of_file s"
      "u_window_begin s' = u_window_begin s" "u_last_packet_size s' = u_last_packet_size s"
  shows "one_outstanding f bs old base k (s', c')"
  using assms uploading_keeps [OF _ assms(2-5)] by (simp add: one_outstanding_def)

lemma keeps_clock: "c_clock_gettime c = (t, c') \<Longrightarrow> upload_keeps c c' \<and> c_inbox c' = c_inbox c"
  by (auto simp: c_clock_gettime_def upload_keeps_def split: list.splits)

lemma keeps_call: "c_call c = (r, c') \<Longrightarrow> upload_keeps c c' \<and> c_inbox c' = c_inbox c"
  by (auto simp: c_call_def c_sys_call_def upload_keeps_def split: list.splits)

lemma keeps_recvfrom:
  assumes "c_recvfrom c = (r, c')"
  shows "upload_keeps c c'"
  using assms by (auto simp: c_recvfrom_def upload_keeps_def Let_def split: prod.splits option.splits arrival.splits)

lemma keeps_unexpected_peer:
  "upload_keeps c (handle_unexpected_peer a c)" "c_inbox (handle_unexpected_peer a c) = c_inbox c"
proof -
  have "\<not> is_data_packet (error_packet e m)" for e m
    by (simp add: is_data_packet_def error_packet_def tftp_get_opcode_unsafe_def)
  then show "upload_keeps c (handle_unexpected_peer a c)" "c_inbox (handle_unexpected_peer a c) = c_inbox c"
    by (auto simp: handle_unexpected_peer_def c_sendto_def c_sys_call_def upload_keeps_def split: list.splits option.splits)
qed

text \<open>
  Waiting keeps the state; a packet, wanted or not, consumes an arrival.
\<close>

lemma wait_keeps:
  assumes run: "wait_for_packet (s, c) = (w, u')"
  shows "\<exists>c'. u' = (s, c') \<and> upload_keeps c c' \<and> length (c_inbox c') \<le> length (c_inbox c)
    \<and> (w = Wait_Packet \<or> w = Wait_Other_Peer \<longrightarrow> length (c_inbox c') < length (c_inbox c))
    \<and> w \<noteq> Wait_Return Ret_True"
proof -
  obtain now c1 where c1: "c_clock_gettime c = (now, c1)" by fastforce
  note k1 = keeps_clock [OF c1]
  let ?rem = "u_rto s - (timespec_to_double now - timespec_to_double (u_start_time s))"
  show ?thesis
  proof (cases "?rem \<le> 0")
    case True
    then show ?thesis using run c1 k1 by (auto simp: wait_for_packet_def Let_def)
  next
    case pos: False
    obtain r c2 where c2: "c_call c1 = (r, c2)" by fastforce
    note k2 = keeps_call [OF c2]
    have k12: "upload_keeps c c2" "c_inbox c2 = c_inbox c" using k1 k2 upload_keeps_trans by auto
    show ?thesis
    proof (cases "r = Ret_True")
      case False
      then show ?thesis using run c1 c2 pos k12 by (cases r) (auto simp: wait_for_packet_def Let_def)
    next
      case True
      let ?c2 = "c2\<lparr>c_rcvtimeo := double_to_timeval ?rem\<rparr>"
      obtain q c3 where c3: "c_recvfrom ?c2 = (q, c3)" by fastforce
      have "upload_keeps c ?c2" using k12(1) by (simp add: upload_keeps_def)
      then have k3: "upload_keeps c c3" using keeps_recvfrom [OF c3] upload_keeps_trans by blast
      have i3: "length (c_inbox c3) \<le> length (c_inbox c)"
        "q = Received a n \<Longrightarrow> length (c_inbox c3) < length (c_inbox c)" for a n
        using recvfrom_consumes [of ?c2] c3 k12(2) by auto
      show ?thesis
        using run c1 c2 pos True c3 k3 i3 keeps_unexpected_peer upload_keeps_trans
        by (cases q) (fastforce simp: wait_for_packet_def Let_def split: if_splits)+
    qed
  qed
qed


lemma uint_block: "j < 65536 \<Longrightarrow> uint (word_of_nat j :: u16) = int j"
  by (simp add: unsigned_of_nat take_bit_nat_eq_self)

lemma only_blocks_append:
  assumes "only_blocks f bs old c" and "c_out c' = c_out c @ [(a, data_datagram f bs j)]"
    and "j \<le> length f div bs"
  shows "only_blocks f bs old c'"
proof -
  obtain k new where "k \<le> length f div bs + 1" "c_out c = old @ new" "sends_file f bs k new"
    using assms(1) by (auto simp: only_blocks_def)
  then have "c_out c' = old @ new @ [(a, data_datagram f bs j)]"
    "sends_file f bs (length f div bs + 1) (new @ [(a, data_datagram f bs j)])"
    using assms(2,3) sends_file_mono [of f bs k new] by (auto simp: sends_file_append sends_file_def intro!: exI [of _ j])
  then show ?thesis unfolding only_blocks_def by blast
qed

text \<open>
  The outstanding packet is sent again, exactly as it was sent first.  The number of blocks must be
  less than 65535: only then the comparison \<open>i == next - 1\<close> finds the last packet.
\<close>

lemma resend_outstanding:
  assumes inv: "one_outstanding f bs old base k (s, c)" and small: "length f div bs + 1 < 65535"
  obtains r c' where "resend_window (u_window_begin s) (s, c) = Some (r, (s, c'))" and "only_blocks f bs old c'"
    and "r \<noteq> Fault" and "c_inbox c' = c_inbox c" and "c_retries c' = c_retries c"
    and "r = Ret_True \<Longrightarrow> one_outstanding f bs old base k (s, c')"
    and "r = Ret_True \<Longrightarrow> c_out c' = c_out c @ [(c_server c, data_datagram f bs (k - 1))]"
    and "c_sys c = [] \<Longrightarrow> r = Ret_True \<and> c' = c\<lparr>c_out := c_out c @ [(c_server c, data_datagram f bs (k - 1))]\<rparr>"
proof -
  have up: "uploading f bs old base k (s, c)" and wb: "u_window_begin s = word_of_nat k" and k: "1 \<le> k"
    and pk: "take (u_last_packet_size s) (hd (u_packets s)) = data_datagram f bs (k - 1)"
      "u_last_packet_size s \<le> 4 + bs"
    using inv by (simp_all add: one_outstanding_def)
  obtain slot where slot: "u_packets s = [slot]" "length slot = 4 + bs"
    using up by (auto simp: uploading_def)
  have ws: "window_size_of (x, c) = 1" for x using up by (simp add: uploading_def window_size_of_def)
  have nx: "u_next s = word_of_nat (k + 1)" and kN: "k \<le> length f div bs + 1"
    using up by (simp_all add: uploading_def)
  have "uint (word_of_nat k :: u16) = int k" "uint (word_of_nat (k + 1) :: u16) = int (k + 1)"
    by (rule uint_block, use kN small in simp)+
  then have sz: "resend_size s b (word_of_nat k) = u_last_packet_size s" for b
    by (simp add: resend_size_def nx)
  have sl: "resend_slot 1 i = 0" for i by (simp add: resend_slot_def)
  obtain r c' where rc: "c_sendto (c_server c) (data_datagram f bs (k - 1)) c = (r, c')" by fastforce
  let ?r = "if r = - 1 \<or> r < int (u_last_packet_size s) then Ret_False else Ret_True"
  have one: "resend_packet (u_window_begin s) (s, c) = (?r, (s, c'))"
    using rc pk(1) slot by (simp add: resend_packet_def ws sl sz wb Let_def)
  have so: "sends_only c c'" using sends_only_sendto [of c] rc by (metis snd_conv)
  note fs = sends_only_fields [OF so]
  have rt: "c_retries c' = c_retries c" using so by (simp add: sends_only_def sent_view_def)
  have out': "c_out c' = (if r < 0 then c_out c else c_out c @ [(c_server c, data_datagram f bs (k - 1))])"
    using rc by (auto simp: c_sendto_def c_sys_call_def split: list.splits option.splits if_splits)
  have ob: "only_blocks f bs old c'"
    using only_blocks_append [of f bs old c c' "c_server c" "k - 1"] out' kN uploading_only_blocks [OF up]
      only_blocks_same [of c' c] by (auto split: if_splits)
  have inr: "is_in_range i (u_window_begin s) (u_next s - 1) \<longleftrightarrow> i = u_window_begin s" for i
    by (simp add: wb nx in_range_single)
  have last: "resend_window (u_window_begin s + 1) (s, c') = Some (Ret_True, (s, c'))"
    by (subst resend_window.simps) (simp add: inr)
  have win: "resend_window (u_window_begin s) (s, c) = Some (?r, (s, c'))"
    by (subst resend_window.simps) (use one last in \<open>auto simp: inr\<close>)
  have "one_outstanding f bs old base k (s, c')" if "?r = Ret_True"
  proof -
    have o2: "c_out c' = c_out c @ [(c_server c, data_datagram f bs (k - 1))]" using that out' by (auto split: if_splits)
    obtain new where new: "c_out c = old @ new" "sends_file f bs k new" "all_sent f bs k new"
      using up by (auto simp: uploading_def sent_blocks_def)
    have "sends_file f bs k (new @ [(c_server c, data_datagram f bs (k - 1))])"
      using new(2) k by (auto simp: sends_file_append) (auto simp: sends_file_def intro!: exI [of _ "k - 1"])
    then have "sent_blocks f bs old k c'"
      using new o2 all_sent_more by (auto simp: sent_blocks_def)
    then have "uploading f bs old base k (s, c')"
      using up fs by (simp add: uploading_def window_size_of_def block_size_of_def)
    then show ?thesis using wb k pk by (simp add: one_outstanding_def)
  qed
  moreover have "?r = Ret_True \<and> c' = c\<lparr>c_out := c_out c @ [(c_server c, data_datagram f bs (k - 1))]\<rparr>" if "c_sys c = []"
  proof -
    have "length (data_datagram f bs (k - 1)) = u_last_packet_size s"
      unfolding pk(1) [symmetric] using slot pk(2) by simp
    then show ?thesis using rc that by (auto simp: c_sendto_def c_sys_call_def)
  qed
  ultimately show thesis using that [OF win ob] fs rt out' by (auto split: if_splits)
qed

lemma timeout_outstanding:
  assumes inv: "one_outstanding f bs old base k u" and small: "length f div bs + 1 < 65535"
  obtains r u' where "on_upload_timeout u = Some (r, u')" and "only_blocks f bs old (snd u')" and "r \<noteq> Fault"
    and "r = Ret_True \<Longrightarrow> one_outstanding f bs old base k u' \<and> c_inbox (snd u') = c_inbox (snd u)
      \<and> c_retries (snd u') = c_retries (snd u) \<and> u_retransmissions (fst u) \<le> c_retries (snd u)
      \<and> u_retransmissions (fst u') = u_retransmissions (fst u) + 1"
proof (cases "c_retries (snd u) < u_retransmissions (fst u)")
  case True
  have "only_blocks f bs old (snd u)"
    by (rule uploading_only_blocks [of f bs old base k]) (use inv in \<open>simp add: one_outstanding_def\<close>)
  then show thesis using that [of Ret_False u] True by (simp add: on_upload_timeout_def)
next
  case False
  let ?u1 = "map_prod (u_retransmissions_update (\<lambda>k. k + 1)) id u"
  let ?u = "read_start_time (upload_backoff ?u1)"
  have f1: "snd (upload_backoff ?u1) = snd u"
    "u_packets (fst (upload_backoff ?u1)) = u_packets (fst u)"
    "u_next (fst (upload_backoff ?u1)) = u_next (fst u)"
    "u_end_of_file (fst (upload_backoff ?u1)) = u_end_of_file (fst u)"
    "u_window_begin (fst (upload_backoff ?u1)) = u_window_begin (fst u)"
    "u_last_packet_size (fst (upload_backoff ?u1)) = u_last_packet_size (fst u)"
    "u_retransmissions (fst (upload_backoff ?u1)) = u_retransmissions (fst u) + 1"
    by (simp_all add: upload_backoff_def Let_def)
  have kp: "upload_keeps (snd u) (snd ?u)"
    by (simp add: upload_keeps_def read_start_time_frame f1)
  have o1: "one_outstanding f bs old base k (fst ?u, snd ?u)"
    by (rule outstanding_keeps [OF _ kp, of f bs old base k "fst u"])
      (simp_all add: inv read_start_time_frame f1)
  obtain r c' where w: "resend_window (u_window_begin (fst ?u)) (fst ?u, snd ?u) = Some (r, (fst ?u, c'))"
    "only_blocks f bs old c'" "r \<noteq> Fault" "c_inbox c' = c_inbox (snd ?u)" "c_retries c' = c_retries (snd ?u)"
    "r = Ret_True \<Longrightarrow> one_outstanding f bs old base k (fst ?u, c')"
    by (rule resend_outstanding [OF o1 small]) blast
  have "on_upload_timeout u = Some (r, (fst ?u, c'))"
    using w(1) False by (simp add: on_upload_timeout_def Let_def)
  then show thesis
    using that w False by (simp add: read_start_time_frame f1 not_less)
qed

definition acknowledges :: "byte list \<Rightarrow> nat \<Rightarrow> bool" where
  "acknowledges mem k \<longleftrightarrow> Option.bind (tftp_get_opcode_unsafe mem) opcode_of = Some TFTP_OPCODE_ACK
     \<and> (\<exists>r. dec16 (drop 2 mem) = Some (word_of_nat k, r))"

text \<open>An acknowledgement of the outstanding block moves the window, or completes the upload.\<close>

lemma ack_outstanding:
  assumes inv: "one_outstanding f bs old base k u" and small: "k < 65535"
    and run: "on_upload_packet u = (ro, u')"
  shows "c_inbox (snd u') = c_inbox (snd u) \<and> c_retries (snd u') = c_retries (snd u)
    \<and> only_blocks f bs old (snd u') \<and> ro \<noteq> Some Fault
    \<and> (ro = None \<longrightarrow> one_outstanding f bs old base k u' \<or> nothing_outstanding f bs old base k u')
    \<and> (ro = Some Ret_True \<longrightarrow> uploading f bs old base k u' \<and> k = length f div bs + 1)
    \<and> (acknowledges (c_recv_buffer (snd u)) k \<longrightarrow> ro = (if k = length f div bs + 1 then Some Ret_True else None)
         \<and> (ro = None \<longrightarrow> nothing_outstanding f bs old base k u'))"
proof -
  have up: "uploading f bs old base k u" and wb: "u_window_begin (fst u) = word_of_nat k" and k: "1 \<le> k"
    using inv by (simp_all add: one_outstanding_def)
  have nx: "u_next (fst u) = word_of_nat (k + 1)" and kN: "k \<le> length f div bs + 1"
    and e: "u_end_of_file (fst u) \<longleftrightarrow> k = length f div bs + 1" and buf: "4 \<le> length (c_recv_buffer (snd u))"
    using up by (simp_all add: uploading_def)
  note ob = uploading_only_blocks [OF up]
  show ?thesis
  proof (cases "Option.bind (tftp_get_opcode_unsafe (c_recv_buffer (snd u))) opcode_of = Some TFTP_OPCODE_ACK")
    case False
    then have "ro = Some Ret_False" "u' = u"
      using run by (auto simp: on_upload_packet_def Let_def split: option.splits tftp_opcode.splits)
    then show ?thesis using ob False by (simp add: acknowledges_def)
  next
    case True
    obtain a b c d r where "c_recv_buffer (snd u) = a # b # c # d # r"
      using buf by (metis Suc_le_length_iff numeral_eq_Suc pred_numeral_simps(2,3) BitM.simps(2) numeral_One Suc_eq_plus1 eval_nat_numeral(2,3))
    then obtain block where blk: "dec16 (drop 2 (c_recv_buffer (snd u))) = Some (block, r)" by simp
    have run: "(case on_upload_ack block u of (completed, u') \<Rightarrow> (if completed then Some Ret_True else None, u'))
        = (ro, u')"
      using run True blk by (simp add: on_upload_packet_def Let_def)
    have inr: "is_in_range block (u_window_begin (fst u)) (u_next (fst u) - 1) \<longleftrightarrow> block = word_of_nat k"
      by (simp add: wb nx in_range_single)
    show ?thesis
    proof (cases "block = word_of_nat k")
      case False
      then have "ro = None" "u' = u" using run inr by (simp_all add: on_upload_ack_def)
      then show ?thesis using ob inv False blk by (auto simp: acknowledges_def)
    next
      case eq: True
      let ?v = "map_prod (u_retransmissions_update (\<lambda>_. 0)) id (map_prod (u_window_begin_update (\<lambda>_. block + 1)) id u)"
      have fv: "snd ?v = snd u" "u_packets (fst ?v) = u_packets (fst u)" "u_next (fst ?v) = u_next (fst u)"
        "u_end_of_file (fst ?v) = u_end_of_file (fst u)" "u_window_begin (fst ?v) = word_of_nat (k + 1)"
        by (simp_all add: eq)
      have "uint (word_of_nat k :: u16) = int k" "uint (word_of_nat (k + 1) :: u16) = int (k + 1)"
        by (rule uint_block, use small in simp)+
      then have ack: "on_upload_ack block u = (u_end_of_file (fst u), upload_stop_timer block ?v)"
        using inr eq nx by (simp add: on_upload_ack_def Let_def)
      have fs: "upload_keeps (snd ?v) (snd (upload_stop_timer b x))" "c_inbox (snd (upload_stop_timer b ?v)) = c_inbox (snd ?v)"
        "u_packets (fst (upload_stop_timer b ?v)) = u_packets (fst ?v)" "u_next (fst (upload_stop_timer b ?v)) = u_next (fst ?v)"
        "u_end_of_file (fst (upload_stop_timer b ?v)) = u_end_of_file (fst ?v)"
        "u_window_begin (fst (upload_stop_timer b ?v)) = u_window_begin (fst ?v)" if "x = ?v" for b x
        using that by (auto simp: upload_stop_timer_def c_clock_gettime_def upload_keeps_def Let_def split: prod.splits list.splits)
      have u': "u' = upload_stop_timer block ?v" "ro = (if u_end_of_file (fst u) then Some Ret_True else None)"
        using run ack by simp_all
      have "uploading f bs old base k (fst u', snd u')"
        by (rule uploading_keeps [of f bs old base k "fst u" "snd u"]) (use up fs [OF refl] fv u' in simp_all)
      then have up': "uploading f bs old base k u'" by simp
      moreover have "nothing_outstanding f bs old base k u'" if "ro = None"
        using up' that u' e kN fs [OF refl] fv by (auto simp: nothing_outstanding_def split: if_splits)
      moreover have "c_inbox (snd u') = c_inbox (snd u)" "c_retries (snd u') = c_retries (snd u)"
        using fs [OF refl] u' by (simp_all add: upload_keeps_def)
      ultimately show ?thesis using u'(2) e uploading_only_blocks [OF up'] by (auto split: if_splits)
    qed
  qed
qed

section \<open>The loop\<close>

text \<open>One iteration of the loop after which it goes on.\<close>

inductive upload_iterates :: "upload \<Rightarrow> upload \<Rightarrow> bool" where
  other_peer: "fill_window u = Some (Ret_True, u1) \<Longrightarrow> wait_for_packet u1 = (Wait_Other_Peer, u2) \<Longrightarrow>
    upload_iterates u u2"
| timed_out: "fill_window u = Some (Ret_True, u1) \<Longrightarrow> wait_for_packet u1 = (Wait_Timeout, u2) \<Longrightarrow>
    on_upload_timeout u2 = Some (Ret_True, u3) \<Longrightarrow> upload_iterates u u3"
| answered: "fill_window u = Some (Ret_True, u1) \<Longrightarrow> wait_for_packet u1 = (Wait_Packet, u2) \<Longrightarrow>
    on_upload_packet u2 = (None, u3) \<Longrightarrow> upload_iterates u u3"

text \<open>
  The time the sender still wants to wait.  Of less than a microsecond \<open>double_to_timeval\<close> makes zero, which
  \<open>SO_RCVTIMEO\<close> takes for no time-out: then \<open>recvfrom\<close> blocks until a datagram comes.
\<close>

definition remaining_wait :: "upload \<Rightarrow> rat" where
  "remaining_wait u = u_rto (fst u)
     - (timespec_to_double (fst (c_clock_gettime (snd u))) - timespec_to_double (u_start_time (fst u)))"

definition waits_forever :: "upload \<Rightarrow> bool" where
  "waits_forever u \<longleftrightarrow> (\<exists>u1 u2. fill_window u = Some (Ret_True, u1) \<and> wait_for_packet u1 = (Wait_Forever, u2)
     \<and> 0 < remaining_wait u1 \<and> remaining_wait u1 < 1 / 1000000 \<and> c_inbox (snd u2) = [])"

lemma long_wait_is_a_timeout:
  fixes d :: rat
  assumes "1 / 1000000 \<le> d"
  shows "double_to_timeval d \<noteq> \<lparr>val_sec = 0, val_usec = 0\<rparr>"
proof -
  let ?d = "clamp_seconds (1 / 1000000) d"
  have d: "1 / 1000000 \<le> ?d" using assms by (simp add: clamp_seconds_def Let_def)
  have "carry_units 1000000 (floor ?d, floor ((?d - of_int (floor ?d)) * 1000000))
      = (floor ?d, floor ((?d - of_int (floor ?d)) * 1000000))"
    using fraction_units [of 1000000 ?d] by (intro carry_units_id) simp_all
  moreover have "floor (?d * 1000000) \<noteq> 0" using d by linarith
  ultimately show ?thesis by (auto simp: double_to_timeval_def Let_def)
qed

lemma wait_blocks:
  assumes "wait_for_packet u = (Wait_Forever, u')"
  shows "0 < remaining_wait u" and "remaining_wait u < 1 / 1000000" and "c_inbox (snd u') = []"
proof -
  obtain s c where u: "u = (s, c)" by (cases u)
  obtain now c1 where c1: "c_clock_gettime c = (now, c1)" by fastforce
  have rem: "remaining_wait u = u_rto s - (timespec_to_double now - timespec_to_double (u_start_time s))"
    by (simp add: remaining_wait_def u c1)
  have pos: "\<not> remaining_wait u \<le> 0"
  proof
    assume "remaining_wait u \<le> 0"
    then have "wait_for_packet u = (Wait_Timeout, (s, c1))" by (simp add: wait_for_packet_def u c1 rem [unfolded u] Let_def)
    then show False using assms by simp
  qed
  obtain c2 c3 where c3: "c_recvfrom (c2\<lparr>c_rcvtimeo := double_to_timeval (remaining_wait u)\<rparr>) = (Waits_Forever, c3)"
    and u': "snd u' = c3"
    using assms by (auto simp: wait_for_packet_def u c1 rem [unfolded u] Let_def
        split: if_splits prod.splits ret.splits recv_result.splits)
  have none: "fst (next_arrival w as) = None \<Longrightarrow> w \<and> snd (next_arrival w as) = []" for w as
    by (induction w as rule: next_arrival.induct) (auto split: if_splits)
  have w: "no_recv_timeout (c2\<lparr>c_rcvtimeo := double_to_timeval (remaining_wait u)\<rparr>)" "c_inbox c3 = []"
    using c3 none [of "no_recv_timeout (c2\<lparr>c_rcvtimeo := double_to_timeval (remaining_wait u)\<rparr>)" "c_inbox c2"]
    by (auto simp: c_recvfrom_def Let_def split: prod.splits option.splits arrival.splits)
  show "remaining_wait u < 1 / 1000000"
  proof (rule ccontr)
    assume "\<not> remaining_wait u < 1 / 1000000"
    then have "1 / 1000000 \<le> remaining_wait u" by simp
    then show False using w(1) long_wait_is_a_timeout by (simp add: no_recv_timeout_def)
  qed
  show "0 < remaining_wait u" "c_inbox (snd u') = []" using pos w(2) u' by simp_all
qed

definition upload_measure :: "upload \<Rightarrow> nat" where
  "upload_measure u = 257 * length (c_inbox (snd u)) + (256 - unat (u_retransmissions (fst u)))"

lemma measure_less_inbox:
  "length (c_inbox (snd v)) < length (c_inbox (snd u)) \<Longrightarrow> upload_measure v < upload_measure u"
  by (simp add: upload_measure_def)

lemma measure_less_retransmission:
  assumes "length (c_inbox (snd v)) \<le> length (c_inbox (snd u))" and "unat R < 255"
    and "u_retransmissions (fst u) \<le> R" and "u_retransmissions (fst v) = u_retransmissions (fst u) + (1 :: u8)"
  shows "upload_measure v < upload_measure u"
proof -
  have "unat (u_retransmissions (fst u)) < 255" using assms(2,3) by (simp add: word_le_nat_alt)
  then have "unat (u_retransmissions (fst v)) = unat (u_retransmissions (fst u)) + 1"
    using assms(4) by (simp add: unat_word_ariths)
  then show ?thesis using assms(1) \<open>unat (u_retransmissions (fst u)) < 255\<close> by (simp add: upload_measure_def)
qed

lemma send_loop_total:
  assumes "nothing_outstanding f bs old base k u \<or> one_outstanding f bs old base k u"
    and small: "length f div bs + 1 < 65535" and R: "c_retries (snd u) = R" "unat R < 255"
  shows "(\<exists>r u'. send_loop u = Some (r, u') \<and> only_blocks f bs old (snd u')
      \<and> (r = Ret_True \<longrightarrow> uploading f bs old base (length f div bs + 1) u'))
    \<or> (send_loop u = None \<and> (\<exists>v. upload_iterates\<^sup>*\<^sup>* u v \<and> waits_forever v))"
  using assms(1) R(1)
proof (induction u arbitrary: k rule: measure_induct_rule [of upload_measure])
  case (less u)
  obtain r1 u1 k1 where fill: "fill_window u = Some (r1, u1)" and ob1: "only_blocks f bs old (snd u1)"
    and o1: "r1 = Ret_True \<Longrightarrow> one_outstanding f bs old base k1 u1 \<and> c_inbox (snd u1) = c_inbox (snd u)
      \<and> c_retries (snd u1) = R \<and> u_retransmissions (fst u1) = u_retransmissions (fst u)"
  proof (cases "one_outstanding f bs old base k u")
    case True
    then have "only_blocks f bs old (snd u)" using uploading_only_blocks unfolding one_outstanding_def by blast
    then show thesis using that [OF fill_outstanding [OF True]] True less.prems by blast
  next
    case False
    then have "nothing_outstanding f bs old base k u" using less.prems by blast
    then show thesis by (rule fill_nothing) (use that less.prems in metis)
  qed
  show ?case
  proof (cases "r1 = Ret_True")
    case False
    then have "send_loop u = Some (r1, u1)" using fill by (subst send_loop.simps) simp
    then show ?thesis using ob1 False by blast
  next
    case True
    note o1 = o1 [OF True]
    obtain s1 c1 where u1: "u1 = (s1, c1)" by (cases u1)
    obtain w u2 where w: "wait_for_packet u1 = (w, u2)" by (rule prod.exhaust)
    obtain c2 where c2: "u2 = (s1, c2)" "upload_keeps c1 c2" "length (c_inbox c2) \<le> length (c_inbox c1)"
      "w = Wait_Packet \<or> w = Wait_Other_Peer \<Longrightarrow> length (c_inbox c2) < length (c_inbox c1)" "w \<noteq> Wait_Return Ret_True"
      using wait_keeps w u1 by blast
    have o2: "one_outstanding f bs old base k1 u2"
      unfolding c2(1) by (rule outstanding_keeps [OF _ c2(2), of f bs old base k1 s1]) (use o1 u1 in simp_all)
    then have ob2: "only_blocks f bs old (snd u2)" using uploading_only_blocks unfolding one_outstanding_def by blast
    have R2: "c_retries (snd u2) = R" using c2(1,2) o1 u1 by (simp add: upload_keeps_def)
    have in2: "length (c_inbox (snd u2)) \<le> length (c_inbox (snd u))"
      "w = Wait_Packet \<or> w = Wait_Other_Peer \<Longrightarrow> length (c_inbox (snd u2)) < length (c_inbox (snd u))"
      using c2 o1 u1 by auto
    have unf: "send_loop u = (case w of
                   Wait_Return r' \<Rightarrow> Some (r', u2)
                 | Wait_Forever \<Rightarrow> None
                 | Wait_Other_Peer \<Rightarrow> send_loop u2
                 | Wait_Timeout \<Rightarrow>
                     (case on_upload_timeout u2 of
                        None \<Rightarrow> None
                      | Some (r', u3) \<Rightarrow> if r' = Ret_True then send_loop u3 else Some (r', u3))
                 | Wait_Packet \<Rightarrow>
                     (case on_upload_packet u2 of
                        (None, u3) \<Rightarrow> send_loop u3
                      | (Some r', u3) \<Rightarrow> Some (r', u3)))"
      by (subst send_loop.simps) (simp add: fill True w)
    show ?thesis
    proof (cases w)
      case (Wait_Return r')
      then show ?thesis using unf ob2 c2(5) by auto
    next
      case Wait_Forever
      then have "waits_forever u"
        using fill True w wait_blocks [of u1 u2] unfolding waits_forever_def by blast
      then show ?thesis using unf Wait_Forever by (intro disjI2 conjI exI [of _ u]) simp_all
    next
      case Wait_Other_Peer
      then have "upload_measure u2 < upload_measure u" using in2 measure_less_inbox by blast
      moreover have "upload_iterates u u2" using fill True w Wait_Other_Peer by (auto intro: other_peer)
      ultimately show ?thesis using less.IH [OF _ disjI2 [OF o2] R2] unf Wait_Other_Peer
        by (auto intro: converse_rtranclp_into_rtranclp)
    next
      case Wait_Timeout
      obtain r3 u3 where t: "on_upload_timeout u2 = Some (r3, u3)" "only_blocks f bs old (snd u3)"
        "r3 = Ret_True \<Longrightarrow> one_outstanding f bs old base k1 u3 \<and> c_inbox (snd u3) = c_inbox (snd u2)
          \<and> c_retries (snd u3) = c_retries (snd u2) \<and> u_retransmissions (fst u2) \<le> c_retries (snd u2)
          \<and> u_retransmissions (fst u3) = u_retransmissions (fst u2) + 1"
        by (rule timeout_outstanding [OF o2 small]) blast
      show ?thesis
      proof (cases "r3 = Ret_True")
        case False
        then show ?thesis using unf Wait_Timeout t by simp
      next
        case True
        note t3 = t(3) [OF True]
        have "upload_measure u3 < upload_measure u"
        proof (rule measure_less_retransmission [OF _ R(2)])
          show "length (c_inbox (snd u3)) \<le> length (c_inbox (snd u))" using t3 in2(1) by simp
          show "u_retransmissions (fst u) \<le> R" using t3 c2(1) o1 u1 R2 by simp
          show "u_retransmissions (fst u3) = u_retransmissions (fst u) + 1" using t3 c2(1) o1 u1 by simp
        qed
        moreover have "upload_iterates u u3"
          using fill \<open>r1 = Ret_True\<close> w Wait_Timeout t(1) True by (auto intro: timed_out)
        ultimately show ?thesis using less.IH [of u3 k1] unf Wait_Timeout t(1) True t3 R2
          by (auto intro: converse_rtranclp_into_rtranclp)
      qed
    next
      case Wait_Packet
      obtain ro u3 where a: "on_upload_packet u2 = (ro, u3)" by (rule prod.exhaust)
      have "k1 < 65535" using o2 small by (simp add: one_outstanding_def uploading_def)
      note ak = ack_outstanding [OF o2 this a]
      show ?thesis
      proof (cases ro)
        case None
        have "upload_measure u3 < upload_measure u"
          using ak in2 Wait_Packet by (intro measure_less_inbox) simp
        moreover have "nothing_outstanding f bs old base k1 u3 \<or> one_outstanding f bs old base k1 u3"
          using ak None by blast
        moreover have "c_retries (snd u3) = R" using ak R2 by simp
        moreover have "upload_iterates u u3" using fill True w Wait_Packet a None by (auto intro: answered)
        ultimately show ?thesis using less.IH [of u3 k1] unf Wait_Packet a None
          by (auto intro: converse_rtranclp_into_rtranclp)
      next
        case (Some r')
        then show ?thesis using unf Wait_Packet a ak by auto
      qed
    qed
  qed
qed

lemma sender_init_inv:
  assumes "o_window_size (c_options c) = 1" and "o_block_size (c_options c) \<noteq> 0"
    and "4 \<le> length (c_recv_buffer c)"
  shows "nothing_outstanding (c_file c) (unat (o_block_size (c_options c))) (c_out c) (c_bytes_transferred c) 0
    (sender_init c, c)"
proof -
  have "sent_blocks (c_file c) bs (c_out c) 0 c" for bs
    by (simp add: sent_blocks_def sends_file_def all_sent_def)
  moreover have "\<exists>slot. u_packets (sender_init c) = [slot] \<and> length slot = 4 + unat (o_block_size (c_options c))"
    using assms(1) by (simp add: sender_init_def malloc_bytes_def Let_def)
  ultimately show ?thesis
    using assms by (simp add: nothing_outstanding_def uploading_def window_size_of_def block_size_of_def
        sender_init_def Let_def unat_gt_0)
qed

lemma send_file_sends:
  assumes run: "send_file c = (r, c')"
    and opts: "o_window_size (c_options c) = 1" "o_block_size (c_options c) \<noteq> 0"
    and buf: "4 \<le> length (c_recv_buffer c)" and "unat (c_retries c) < 255"
    and small: "length (c_file c) div unat (o_block_size (c_options c)) + 1 < 65535"
  shows "only_blocks (c_file c) (unat (o_block_size (c_options c))) (c_out c) c'
    \<and> (r = Ret_True \<longrightarrow> sent_blocks (c_file c) (unat (o_block_size (c_options c))) (c_out c)
          (length (c_file c) div unat (o_block_size (c_options c)) + 1) c'
        \<and> c_bytes_transferred c' = c_bytes_transferred c + length (c_file c)
        \<and> unat (o_block_size (c_options c')) = unat (o_block_size (c_options c)))"
proof -
  let ?bs = "unat (o_block_size (c_options c))"
  obtain r1 c1 where c1: "c_call c = (r1, c1)" by fastforce
  note f1 = sends_only_fields [OF sending.doesD [OF sending_call c1]]
  have o1: "c_out c1 = c_out c"
    using c1 by (auto simp: c_call_def c_sys_call_def split: list.splits)
  show ?thesis
  proof (cases "r1 = Ret_True")
    case False
    then have "r \<noteq> Ret_True" "c' = c1" using run c1 by (cases r1; simp add: send_file_def)+
    then show ?thesis using o1 by (auto simp: only_blocks_def sends_file_def intro!: exI [of _ 0])
  next
    case True
    have inv: "nothing_outstanding (c_file c) ?bs (c_out c) (c_bytes_transferred c) 0 (sender_init c1, c1)"
      using sender_init_inv [of c1] opts buf by (simp add: f1 o1)
    consider (returns) r' u where "send_loop (sender_init c1, c1) = Some (r', u)"
      "only_blocks (c_file c) ?bs (c_out c) (snd u)"
      "r' = Ret_True \<Longrightarrow> uploading (c_file c) ?bs (c_out c) (c_bytes_transferred c) (length (c_file c) div ?bs + 1) u"
    | (blocks) "send_loop (sender_init c1, c1) = None"
      using send_loop_total [OF disjI1 [OF inv] small] assms(5) f1 by auto
    then show ?thesis
    proof cases
      case blocks
      then have "r = Fault" "c_out c' = c_out c" using run c1 True o1 by (auto simp: send_file_def)
      then show ?thesis by (auto simp: only_blocks_def sends_file_def intro!: exI [of _ 0])
    next
      case u: returns
    have rc: "r = r'" "c' = snd u" using run c1 True u(1) by (cases r'; simp add: send_file_def)+
    have bs: "0 < ?bs" using opts(2) by (simp add: unat_gt_0)
    have "length (c_file c) \<le> (length (c_file c) div ?bs + 1) * ?bs"
      using bs dividend_less_div_times [of ?bs "length (c_file c)"] by (simp add: algebra_simps)
    then show ?thesis using u(2,3) rc by (auto simp: uploading_def block_size_of_def)
    qed
  qed
qed

section \<open>The whole upload\<close>

text \<open>What the phase before \<open>send_file\<close> leaves alone.\<close>

definition prepares :: "client \<Rightarrow> client \<Rightarrow> bool" where
  "prepares c c' \<longleftrightarrow> c_file c' = c_file c \<and> c_retries c' = c_retries c \<and> c_stack_buffer c' = c_stack_buffer c
     \<and> c_bytes_transferred c' = c_bytes_transferred c"

lemma negotiates_prepares: "negotiates c c' \<Longrightarrow> prepares c c'"
  by (simp add: negotiates_def oack_view_def prepares_def)

lemma prepares_trans: "prepares c d \<Longrightarrow> prepares d e \<Longrightarrow> prepares c e"
  by (simp add: prepares_def)

lemma sending_send_wrq: "sending.does send_wrq"
proof (rule sending.doesI)
  fix c :: client
  have "sending.does (chain [send_wrq_packet p, assign (c_last_packet_update (\<lambda>_. p))])" for p
    unfolding send_wrq_packet_def by (rule sending.does_chain) (auto intro: client_intros)
  then show "sends_only c (snd (send_wrq c))"
    by (simp add: send_wrq_def sending.does_def del: chain.simps split: prod.split ret.split)
qed

lemma sending_write_request: "sending.does send_write_request"
  unfolding send_write_request_def
  by (rule sending.does_chain) (auto intro: sending_send_wrq sending_call)

definition waits_for_answer :: "client \<Rightarrow> client \<Rightarrow> bool" where
  "waits_for_answer c c' \<longleftrightarrow> prepares c c' \<and> c_options c' = c_options c
     \<and> length (c_recv_buffer c') = length (c_recv_buffer c)"

lemma waits_trans: "waits_for_answer c d \<Longrightarrow> waits_for_answer d e \<Longrightarrow> waits_for_answer c e"
  by (auto simp: waits_for_answer_def prepares_def)

lemma sends_only_waits: "sends_only c c' \<Longrightarrow> waits_for_answer c c'"
  by (simp add: sends_only_def sent_view_def waits_for_answer_def prepares_def)

lemma recvfrom_waits: "c_recvfrom c = (r, c') \<Longrightarrow> waits_for_answer c c'"
  by (auto simp: c_recvfrom_def waits_for_answer_def prepares_def Let_def
      split: prod.splits option.splits arrival.splits)

lemma write_request_waits: "write_request_loop k c = (r, c') \<Longrightarrow> waits_for_answer c c'"
proof (induction k c rule: write_request_loop.induct)
  case (1 k c)
  show ?case
  proof (cases "unat k < 1 + unat (c_retries c)")
    case False
    then show ?thesis using "1.prems" by (subst (asm) write_request_loop.simps) (simp add: waits_for_answer_def prepares_def)
  next
    case lim: True
    obtain r1 c1 where c1: "send_write_request c = (r1, c1)" by fastforce
    have w1: "waits_for_answer c c1" by (rule sends_only_waits [OF sending.doesD [OF sending_write_request c1]])
    show ?thesis
    proof (cases "r1 = Ret_True")
      case False
      then show ?thesis using "1.prems" lim c1 w1 by (subst (asm) write_request_loop.simps) (cases r1; simp)
    next
      case True
      obtain q c2 where c2: "c_recvfrom c1 = (q, c2)" by fastforce
      have w2: "waits_for_answer c c2" using w1 recvfrom_waits [OF c2] waits_trans by blast
      show ?thesis
      proof (cases "q = Would_Block \<and> k \<noteq> c_retries c")
        case False
        then show ?thesis using "1.prems" lim c1 True c2 w2
          by (subst (asm) write_request_loop.simps) (cases q; auto)
      next
        case wb: True
        then have "write_request_loop (k + 1) c2 = (r, c')"
          using "1.prems" lim c1 True c2 by (subst (asm) write_request_loop.simps) simp
        from "1.IH" [OF _ c1 [symmetric] True c2 [symmetric] _ _ this]
        have "waits_for_answer c2 c'" using lim wb by blast
        then show ?thesis using w2 waits_trans by blast
      qed
    qed
  qed
qed

text \<open>
  On the stack buffer an OACK cannot change the block size or the window: \<open>realloc\<close> would be undefined.
\<close>

lemma stack_oack_sizes:
  assumes "handle_oack_packet n c = (r, c')" and "r \<noteq> Fault" and "c_stack_buffer c"
  shows "o_block_size (c_options c') = o_block_size (c_options c) \<and> o_window_size (c_options c') = o_window_size (c_options c)
    \<and> length (c_recv_buffer c') = length (c_recv_buffer c)"
proof -
  let ?same = "\<lambda>c c'. o_block_size (c_options c') = o_block_size (c_options c) \<and> o_window_size (c_options c') = o_window_size (c_options c)
    \<and> length (c_recv_buffer c') = length (c_recv_buffer c)"
  have t: "?same d e" if "apply_oack_timeout q d = (x, e)" for q d e x
  proof (cases "e = d")
    case False
    then have ch: "chain [assign (\<lambda>c. c\<lparr>c_options := (c_options c)\<lparr>o_timeout_s := ucast (q_timeout q)\<rparr>\<rparr>),
                  c_call,
                  assign (\<lambda>c. c\<lparr>c_rcvtimeo := \<lparr>val_sec = int (unat (o_timeout_s (c_options c))), val_usec = 0\<rparr>\<rparr>)] d
      = (x, e)"
      using that by (simp add: apply_oack_timeout_def del: chain.simps split: if_splits)
    let ?d = "d\<lparr>c_options := (c_options d)\<lparr>o_timeout_s := ucast (q_timeout q)\<rparr>\<rparr>"
    obtain y d1 where d1: "c_call ?d = (y, d1)" by fastforce
    note f = sends_only_fields [OF sending.doesD [OF sending_call d1]]
    have "e = d1 \<or> e = d1\<lparr>c_rcvtimeo := \<lparr>val_sec = int (unat (o_timeout_s (c_options d1))), val_usec = 0\<rparr>\<rparr>"
      using ch d1 by (cases y) (auto simp: assign_def)
    then show ?thesis by (auto simp: f)
  qed simp
  have d: "?same e (drop_read_type x e)" for x e by (simp add: drop_read_type_def Let_def)
  have bad: "?same d e" if "chain [try_send_error TFTP_ERROR_INVALID_OPTIONS, return_false] d = (x, e)" for d e x
    using sends_only_fields [OF sending.doesD [OF sending_fails that]] by simp
  have ok: "?same e0 e" if "chain [apply_oack_sizes q, apply_oack_timeout q, assign (drop_read_type x)] e0 = (r, e)"
    and "c_stack_buffer e0" for q x e0 e
  proof -
    have sz: "apply_oack_sizes q e0 = (Ret_True, e0) \<or> fst (apply_oack_sizes q e0) = Fault"
      using that(2) by (simp add: apply_oack_sizes_def resize_recv_buffer_def Let_def)
    then have s: "apply_oack_sizes q e0 = (Ret_True, e0)"
      using that(1) assms(2) by (cases "apply_oack_sizes q e0") auto
    obtain y e1 where e1: "apply_oack_timeout q e0 = (y, e1)" by fastforce
    have "e = e1 \<or> e = drop_read_type x e1" using that(1) s e1 by (cases y) (auto simp: assign_def)
    then show ?thesis using t [OF e1] d [of x e1] by auto
  qed
  let ?c = "\<lambda>ad. c\<lparr>c_options := (c_options c)\<lparr>o_adaptive_timeout := ad\<rparr>\<rparr>"
  show ?thesis
    using assms bad ok
    by (fastforce simp: handle_oack_packet_def Let_def simp del: chain.simps split: option.splits if_splits prod.splits)
qed

lemma on_write_keeps:
  assumes "on_write_answer n c = (Ret_True, c')" and "c_stack_buffer c"
  shows "prepares c c' \<and> o_window_size (c_options c') = o_window_size (c_options c)
    \<and> o_block_size (c_options c') \<in> {o_block_size (c_options c), 512}
    \<and> length (c_recv_buffer c') = length (c_recv_buffer c)"
proof (cases "Option.bind (tftp_get_opcode_unsafe (c_recv_buffer c)) opcode_of")
  case (Some op)
  show ?thesis
  proof (cases "op = TFTP_OPCODE_OACK")
    case True
    obtain r d where h: "handle_oack_packet n c = (r, d)" by fastforce
    have "r \<noteq> Fault" "c' = d" using assms(1) True Some h by (auto simp: on_write_answer_def split: if_splits ret.splits)
    then show ?thesis
      using stack_oack_sizes [OF h _ assms(2)] negotiates_prepares [OF negotiating.doesD [OF negotiating_oack h]] by simp
  next
    case False
    then show ?thesis
      using assms Some
      by (cases op) (auto simp: on_write_answer_def prepares_def tftp_default_blksize_def split: option.splits if_splits)
  qed
qed (use assms in \<open>simp add: on_write_answer_def\<close>)

lemma await_write_keeps:
  assumes "await_write_answer c = (Ret_True, c')" and "c_stack_buffer c"
  shows "prepares c c' \<and> o_window_size (c_options c') = o_window_size (c_options c)
    \<and> o_block_size (c_options c') \<in> {o_block_size (c_options c), 512}
    \<and> length (c_recv_buffer c') = length (c_recv_buffer c)"
proof -
  obtain q d where d: "write_request_loop 0 c = (q, d)" by fastforce
  note w = write_request_waits [OF d]
  obtain a n where "q = Packet a n" "on_write_answer n (d\<lparr>c_server := a\<rparr>) = (Ret_True, c')"
    using assms(1) d by (cases q) (auto simp: await_write_answer_def)
  then show ?thesis
    using on_write_keeps [of n "d\<lparr>c_server := a\<rparr>" c'] w assms(2) by (auto simp: waits_for_answer_def prepares_def)
qed

text \<open>
  A successful upload: the whole file has been sent, cut into blocks of the size finally in force,
  and nothing but its blocks has been sent after the request.
\<close>

definition uploaded :: "byte list \<Rightarrow> client \<Rightarrow> bool" where
  "uploaded f c \<longleftrightarrow> (\<exists>old. let bs = unat (o_block_size (c_options c)) in
     0 < bs \<and> sent_blocks f bs old (length f div bs + 1) c)"

lemma put_request_file:
  assumes run: "handle_put_request c = (Client_Success n, c')"
    and opts: "o_window_size (c_options c) = 1" "8 \<le> o_block_size (c_options c)"
    and ret: "unat (c_retries c) < 255" and small: "length (c_file c) div 8 + 1 < 65535"
  shows "uploaded (c_file c) c' \<and> n = c_bytes_transferred c + length (c_file c)"
proof -
  have run: "chain [assign use_stack_buffer, await_write_answer, send_file] c = (Ret_True, c')"
    and n: "n = c_bytes_transferred c'"
    using run by (auto simp: handle_put_request_def get_failed_def simp del: chain.simps split: prod.splits ret.splits)
  obtain d where d: "await_write_answer (use_stack_buffer c) = (Ret_True, d)" and s: "send_file d = (Ret_True, c')"
    using run by (elim chain_TrueE) (auto simp: assign_def)
  have k: "prepares (use_stack_buffer c) d" "o_window_size (c_options d) = 1"
    "o_block_size (c_options d) \<in> {o_block_size (c_options c), 512}" "length (c_recv_buffer d) = 512"
    using await_write_keeps [OF d] opts
    by (simp_all add: use_stack_buffer_def malloc_bytes_def tftp_oack_packet_max_size_def)
  have f: "c_file d = c_file c" "c_retries d = c_retries c" "c_bytes_transferred d = c_bytes_transferred c"
    using k(1) by (simp_all add: prepares_def use_stack_buffer_def)
  let ?bs = "unat (o_block_size (c_options d))"
  have b8: "8 \<le> ?bs" using k(3) opts(2) by (auto simp: word_le_nat_alt)
  then have nz: "o_block_size (c_options d) \<noteq> 0" by auto
  have "length (c_file c) div ?bs \<le> length (c_file c) div 8" using b8 by (simp add: div_le_mono2)
  then have sm: "length (c_file d) div ?bs + 1 < 65535" using small f by simp
  have sf: "sent_blocks (c_file d) ?bs (c_out d) (length (c_file d) div ?bs + 1) c'"
    "c_bytes_transferred c' = c_bytes_transferred d + length (c_file d)"
    "unat (o_block_size (c_options c')) = ?bs"
    using send_file_sends [OF s k(2) nz _ _ sm] k(4) ret f by simp_all
  have "uploaded (c_file c) c'"
    using sf(1) b8 unfolding uploaded_def Let_def sf(3) f by (intro exI [of _ "c_out d"]) simp
  then show ?thesis using n sf(2) f by simp
qed

lemma requested_put_sizes:
  "o_window_size (requested_options REQUEST_PUT options) = 1 \<and> 8 \<le> o_block_size (requested_options REQUEST_PUT options)"
  by (auto simp: requested_options_def Let_def tftp_default_blksize_def tftp_default_window_size_def split: option.split)

lemma client_write_file:
  assumes "tftp_client_write retries is_ipv6 gai filename mode (Some options) c = (Client_Success n, c')"
    and ret: "unat retries < 255" and small: "length (c_file c) div 8 + 1 < 65535"
  shows "uploaded (c_file c) c' \<and> n = length (c_file c)"
proof -
  have call: "sends_only x y" if "c_call x = (r, y)" for r x y
    by (rule sending.doesD [OF sending_call that])
  obtain c1 where c1: "connection_init is_ipv6 gai c = (Ret_True, c1)"
    and run: "run_request handle_put_request (request_init REQUEST_PUT retries filename mode (Some options) c1) = (Client_Success n, c')"
    using assms(1) by (auto simp: tftp_client_write_def split: prod.splits ret.splits)
  have f1: "c_file c1 = c_file c"
    using c1 sends_only_fields [OF call]
    by (auto simp: connection_init_def split: if_splits prod.splits ret.splits)
  let ?c2 = "request_init REQUEST_PUT retries filename mode (Some options) c1"
  have f2: "c_file ?c2 = c_file c" "c_retries ?c2 = retries" "c_options ?c2 = requested_options REQUEST_PUT options"
    using f1 by (simp_all add: request_init_def options_init_def Let_def)
  obtain c3 c4 where c3: "connection_set_recv_timeout (o_timeout_s (c_options ?c2)) ?c2 = (Ret_True, c3)"
    and h: "handle_put_request (stats_init c3) = (Client_Success n, c4)" and c': "c' = connection_destroy c4"
    using run by (auto simp: run_request_def split: prod.splits ret.splits)
  have f3: "c_file c3 = c_file ?c2" "c_retries c3 = c_retries ?c2" "c_options c3 = c_options ?c2"
    using c3 sends_only_fields [OF call]
    by (auto simp: connection_set_recv_timeout_def assign_def split: prod.splits ret.splits)
  have f4: "c_file (stats_init c3) = c_file c" "c_retries (stats_init c3) = retries"
    "c_options (stats_init c3) = requested_options REQUEST_PUT options" "c_bytes_transferred (stats_init c3) = 0"
    using f2 f3 by (simp_all add: stats_init_def c_clock_gettime_def split: list.split)
  have f5: "uploaded f c' = uploaded f c4" for f
  proof -
    obtain r y where y: "c_call (c4\<lparr>c_closed := True\<rparr>) = (r, y)" by fastforce
    then have "c' = y" "c_out y = c_out c4"
      by (auto simp: c' connection_destroy_def c_call_def c_sys_call_def split: list.splits)
    then show ?thesis
      using sends_only_fields [OF call [OF y]] by (simp add: uploaded_def sent_blocks_def)
  qed
  have "uploaded (c_file c) c4 \<and> n = 0 + length (c_file c)"
    using put_request_file [OF h] requested_put_sizes ret small unfolding f4 by blast
  then show ?thesis unfolding f5 by simp
qed

end
