(* ===== verification/Tftp_Upload_Runs.thy ===== *)
theory Tftp_Upload_Runs
  imports Tftp_Upload
begin

text \<open>
  Whole uploads: an upload whose blocks are acknowledged succeeds, with two exceptions that never end,
  and the properties of \<open>tftp_client_write\<close>.
\<close>

section \<open>An upload that is acknowledged\<close>

text \<open>
  The undisturbed case: calls succeed, the readings of the clock are all the same and the
  time-out is not adaptive.
\<close>

definition undisturbed :: "client \<Rightarrow> bool" where
  "undisturbed c \<longleftrightarrow> c_sys c = [] \<and> c_clock c = [] \<and> \<not> o_adaptive_timeout (c_options c)
     \<and> o_timeout_s (c_options c) \<noteq> 0"

definition calm :: "upload \<Rightarrow> bool" where
  "calm u \<longleftrightarrow> undisturbed (snd u) \<and> u_start_time (fst u) = zero_timespec
     \<and> u_rto (fst u) = of_nat (unat (o_timeout_s (c_options (snd u))))"

lemma undisturbed_calls:
  assumes "undisturbed c"
  shows "c_call c = (Ret_True, c)" "c_clock_gettime c = (zero_timespec, c)"
    "c_sendto a p c = (int (length p), c\<lparr>c_out := c_out c @ [(a, p)]\<rparr>)"
    "c_fread n c = (take n (c_file c), False, c\<lparr>c_file := drop n (c_file c)\<rparr>)"
  using assms
  by (auto simp: undisturbed_def c_call_def c_clock_gettime_def c_sendto_def c_fread_def c_sys_call_def Let_def min_def)

lemma calm_read_start_time: "calm u \<Longrightarrow> read_start_time u = u"
  by (cases u) (simp add: calm_def read_start_time_def undisturbed_calls)

lemma calm_send_next:
  assumes inv: "nothing_outstanding f bs old base k u" and calm: "calm u"
    and run: "send_next_packet u = (r, u')"
  shows "r = Ret_True \<and> calm u' \<and> c_server (snd u') = c_server (snd u)"
proof -
  obtain s c where u: "u = (s, c)" by (cases u)
  have un: "undisturbed c" using calm by (simp add: calm_def u)
  have up: "uploading f bs old base k u" using inv by (simp add: nothing_outstanding_def)
  obtain slot where slot: "u_packets s = [slot]" "length slot = 4 + bs"
    using up by (auto simp: uploading_def u)
  have ws: "window_size_of (s', c') = 1" "block_size_of (s', c') = bs" if "c_options c' = c_options c" for s' c'
    using up that by (simp_all add: uploading_def u window_size_of_def block_size_of_def)
  have len: "length (take bs (c_file c)) \<le> bs" by simp
  note pk = take_packet [OF len slot(2)]
  let ?c1 = "c\<lparr>c_file := drop bs (c_file c)\<rparr>"
  have u1: "undisturbed ?c1" using un by (simp add: undisturbed_def)
  have snd1: "c_send p ?c1 = (Ret_True, ?c1\<lparr>c_out := c_out ?c1 @ [(c_server ?c1, p)]\<rparr>)" for p
    using u1 by (simp add: c_send_def undisturbed_calls)
  show ?thesis
    using run calm un slot ws pk snd1
    by (auto simp: send_next_packet_def u undisturbed_calls store_packet_def transmit_packet_def on_client_def
        assign_def Let_def start_upload_timer_def uses_adaptive_def read_start_time_def c_clock_gettime_def
        calm_def undisturbed_def split: if_splits)
qed

lemma calm_fill:
  assumes "nothing_outstanding f bs old base k u" and "calm u"
  obtains u' where "fill_window u = Some (Ret_True, u')" and "calm u'" and "c_server (snd u') = c_server (snd u)"
    and "one_outstanding f bs old base (k + 1) u'" and "c_inbox (snd u') = c_inbox (snd u)"
proof -
  have op: "window_open u"
    using assms(1) by (auto simp: nothing_outstanding_def uploading_def window_open_def in_range_single)
  obtain r u' where n: "send_next_packet u = (r, u')" by (rule prod.exhaust)
  note c = calm_send_next [OF assms n]
  note sn = send_next_block [OF assms(1) n]
  have o: "one_outstanding f bs old base (k + 1) u'" using c sn by simp
  have "fill_window u = Some (Ret_True, u')"
    using op n c fill_outstanding [OF o] by (subst fill_window.simps) simp
  then show thesis using that c o sn by simp
qed

lemma calm_wait:
  assumes "calm u" and "c_inbox (snd u) = Arrives a p # as" and "sockaddr_equals (c_server (snd u)) a"
    and "length p \<le> length (c_recv_buffer (snd u))"
  obtains c' where "wait_for_packet u = (Wait_Packet, (fst u, c'))" and "calm (fst u, c')"
    and "upload_keeps (snd u) c'" and "c_inbox c' = as" and "c_server c' = c_server (snd u)"
    and "c_recv_buffer c' = splice 0 p (c_recv_buffer (snd u))"
proof -
  obtain s c where u: "u = (s, c)" by (cases u)
  have un: "undisturbed c" using assms(1) by (simp add: calm_def u)
  let ?t = "of_nat (unat (o_timeout_s (c_options c))) :: rat"
  have t: "u_rto s - (timespec_to_double zero_timespec - timespec_to_double (u_start_time s)) = ?t"
    using assms(1) by (simp add: calm_def u)
  have "0 < unat (o_timeout_s (c_options c))" using un by (simp add: undisturbed_def unat_gt_0)
  then have t0: "0 < ?t" by (simp only: of_nat_0_less_iff)
  have "1 \<le> unat (o_timeout_s (c_options c))" using \<open>0 < unat _\<close> by simp
  then have "of_nat 1 \<le> ?t" by (simp only: of_nat_le_iff)
  then have "1 \<le> ?t" by (simp only: of_nat_1)
  then have nt: "double_to_timeval ?t \<noteq> \<lparr>val_sec = 0, val_usec = 0\<rparr>" by (intro long_wait_is_a_timeout) linarith
  let ?c = "c\<lparr>c_rcvtimeo := double_to_timeval ?t, c_inbox := as, c_recv_buffer := splice 0 p (c_recv_buffer c)\<rparr>"
  have "c_recvfrom (c\<lparr>c_rcvtimeo := double_to_timeval ?t\<rparr>) = (Received a (length p), ?c)"
    using assms nt by (simp add: c_recvfrom_def no_recv_timeout_def u)
  then have w: "wait_for_packet u = (Wait_Packet, (s, ?c))"
    using assms(3) t t0 un by (simp add: wait_for_packet_def u undisturbed_calls Let_def)
  show thesis
    by (rule that [of ?c]) (use w assms un in \<open>auto simp: u calm_def undisturbed_def upload_keeps_def splice_def\<close>)
qed

lemma calm_ack:
  assumes "calm u" and "on_upload_packet u = (r, u')"
  shows "calm u' \<and> c_server (snd u') = c_server (snd u) \<and> length (c_recv_buffer (snd u')) = length (c_recv_buffer (snd u))"
proof -
  have m: "calm (map_prod (u_window_begin_update g) id v) = calm v" "calm (map_prod (u_retransmissions_update h) id v) = calm v" for g h v
    by (auto simp: calm_def)
  have s: "upload_stop_timer b v = v" if "calm v" for b v
    using that by (simp add: upload_stop_timer_def uses_adaptive_def calm_def undisturbed_def)
  have a: "calm v \<and> c_server (snd v) = c_server (snd u) \<and> length (c_recv_buffer (snd v)) = length (c_recv_buffer (snd u))"
    if "on_upload_ack b u = (x, v)" for b x v
    using that assms(1) by (auto simp: on_upload_ack_def Let_def m s calm_read_start_time split: if_splits)
  show ?thesis
    using assms a by (auto simp: on_upload_packet_def Let_def split: option.splits tftp_opcode.splits prod.splits)
qed

definition ack_arrives :: "sockaddr \<Rightarrow> nat \<Rightarrow> arrival" where
  "ack_arrives a k = Arrives a (tftp_ack_packet_init (word_of_nat k))"

lemma acknowledges_ack:
  "acknowledges (splice 0 (tftp_ack_packet_init (word_of_nat k)) mem) k" "length (tftp_ack_packet_init b) = 4"
  by (auto simp: acknowledges_def tftp_ack_packet_init_def splice_def tftp_get_opcode_unsafe_def)

lemma calm_iteration:
  assumes inv: "nothing_outstanding f bs old base k u" and "calm u"
    and inbox: "c_inbox (snd u) = ack_arrives a (k + 1) # rest"
    and srv: "sockaddr_equals (c_server (snd u)) a"
  obtains u1 u2 ro u' where "fill_window u = Some (Ret_True, u1)" and "wait_for_packet u1 = (Wait_Packet, u2)"
    and "on_upload_packet u2 = (ro, u')"
    and "one_outstanding f bs old base (k + 1) u2" and "calm u2" and "acknowledges (c_recv_buffer (snd u2)) (k + 1)"
    and "c_inbox (snd u2) = rest" and "calm u'" and "sockaddr_equals (c_server (snd u')) a"
proof -
  obtain u1 where u1: "fill_window u = Some (Ret_True, u1)" "calm u1" "c_server (snd u1) = c_server (snd u)"
    "one_outstanding f bs old base (k + 1) u1" "c_inbox (snd u1) = c_inbox (snd u)"
    by (rule calm_fill [OF assms(1,2)])
  have ib: "c_inbox (snd u1) = Arrives a (tftp_ack_packet_init (word_of_nat (k + 1))) # rest"
    using inbox u1(5) by (simp only: ack_arrives_def)
  have b4: "4 \<le> length (c_recv_buffer (snd u1))" using u1(4) by (simp add: one_outstanding_def uploading_def)
  obtain c2 where c2: "wait_for_packet u1 = (Wait_Packet, (fst u1, c2))" "calm (fst u1, c2)"
    "upload_keeps (snd u1) c2" "c_inbox c2 = rest" "c_server c2 = c_server (snd u1)"
    "c_recv_buffer c2 = splice 0 (tftp_ack_packet_init (word_of_nat (k + 1))) (c_recv_buffer (snd u1))"
    by (rule calm_wait [OF u1(2) ib]) (use srv u1(3) b4 in \<open>simp_all add: acknowledges_ack\<close>)
  have o2: "one_outstanding f bs old base (k + 1) (fst u1, c2)"
    by (rule outstanding_keeps [OF _ c2(3), of f bs old base "k + 1" "fst u1"]) (use u1(4) in simp_all)
  obtain ro u3 where a: "on_upload_packet (fst u1, c2) = (ro, u3)" by (rule prod.exhaust)
  have "acknowledges (c_recv_buffer (snd (fst u1, c2))) (k + 1)"
    unfolding snd_conv c2(6) by (rule acknowledges_ack)
  then show thesis
    using that [OF u1(1) c2(1) a o2 c2(2)] calm_ack [OF c2(2) a] c2(4,5) u1(3) srv by simp
qed

lemma calm_block:
  assumes "nothing_outstanding f bs old base k u" and "calm u"
    and "c_inbox (snd u) = ack_arrives a (k + 1) # rest" and "sockaddr_equals (c_server (snd u)) a"
  obtains ro u' u2 where "send_loop u = (case ro of None \<Rightarrow> send_loop u' | Some r \<Rightarrow> Some (r, u'))"
    and "one_outstanding f bs old base (k + 1) u2" and "calm u2" and "acknowledges (c_recv_buffer (snd u2)) (k + 1)"
    and "on_upload_packet u2 = (ro, u')" and "c_inbox (snd u2) = rest" and "calm u'"
    and "sockaddr_equals (c_server (snd u')) a"
proof (rule calm_iteration [OF assms])
  fix u1 u2 ro u'
  assume it: "fill_window u = Some (Ret_True, u1)" "wait_for_packet u1 = (Wait_Packet, u2)" "on_upload_packet u2 = (ro, u')"
    and r: "one_outstanding f bs old base (k + 1) u2" "calm u2" "acknowledges (c_recv_buffer (snd u2)) (k + 1)"
    "c_inbox (snd u2) = rest" "calm u'" "sockaddr_equals (c_server (snd u')) a"
  have "send_loop u = (case ro of None \<Rightarrow> send_loop u' | Some r \<Rightarrow> Some (r, u'))"
    by (subst send_loop.simps) (simp add: it)
  then show thesis using that it(3) r by blast
qed

lemma calm_upload:
  assumes "nothing_outstanding f bs old base k u" and "calm u"
    and "c_inbox (snd u) = map (ack_arrives a) [k + 1..<m + 1] @ rest"
    and "sockaddr_equals (c_server (snd u)) a" and "k \<le> m" and small: "m \<le> length f div bs" "m < 65535"
  obtains u' where "send_loop u = send_loop u'" and "nothing_outstanding f bs old base m u'" and "calm u'"
    and "c_inbox (snd u') = rest" and "sockaddr_equals (c_server (snd u')) a"
proof -
  have "\<exists>u'. send_loop u = send_loop u' \<and> nothing_outstanding f bs old base m u' \<and> calm u'
      \<and> c_inbox (snd u') = rest \<and> sockaddr_equals (c_server (snd u')) a"
    using assms(1-5)
  proof (induction "m - k" arbitrary: k u rule: less_induct)
    case less
    show ?case
    proof (cases "k = m")
      case True
      then show ?thesis using less.prems by (intro exI [of _ u]) simp
    next
      case False
      then have "[k + 1..<m + 1] = (k + 1) # [k + 2..<m + 1]" using less.prems(5) by (simp add: upt_conv_Cons del: upt_Suc)
      then have ib: "c_inbox (snd u) = ack_arrives a (k + 1) # (map (ack_arrives a) [k + 2..<m + 1] @ rest)"
        using less.prems(3) by (simp only: list.map append.simps)
      obtain ro u3 u2 where b: "send_loop u = (case ro of None \<Rightarrow> send_loop u3 | Some r \<Rightarrow> Some (r, u3))"
        "one_outstanding f bs old base (k + 1) u2" "acknowledges (c_recv_buffer (snd u2)) (k + 1)"
        "on_upload_packet u2 = (ro, u3)" "c_inbox (snd u2) = map (ack_arrives a) [k + 2..<m + 1] @ rest"
        "calm u3" "sockaddr_equals (c_server (snd u3)) a"
        by (rule calm_block [OF less.prems(1,2) ib less.prems(4)])
      have "k + 1 < 65535" using False less.prems(5) small by simp
      note ak = ack_outstanding [OF b(2) this b(4)]
      have ro: "ro = None" "nothing_outstanding f bs old base (k + 1) u3"
        using ak b(3) False less.prems(5) small(1) by auto
      have "\<exists>u'. send_loop u3 = send_loop u' \<and> nothing_outstanding f bs old base m u' \<and> calm u'
          \<and> c_inbox (snd u') = rest \<and> sockaddr_equals (c_server (snd u')) a"
      proof (rule less.hyps [OF _ ro(2) b(6) _ b(7)])
        show "c_inbox (snd u3) = map (ack_arrives a) [k + 1 + 1..<m + 1] @ rest"
          using ak b(5) by (simp only: add.assoc one_add_one)
      qed (use False less.prems(5) in simp_all)
      then show ?thesis using b(1) ro(1) by simp
    qed
  qed
  then show thesis using that by blast
qed

lemma all_acks: "map (ack_arrives a) [1..<m + 2] @ rest = map (ack_arrives a) [0 + 1..<m + 1] @ ack_arrives a (m + 1) # rest"
  by simp

lemma acknowledged_upload:
  assumes "undisturbed c" and "o_window_size (c_options c) = 1" and "o_block_size (c_options c) \<noteq> 0"
    and "4 \<le> length (c_recv_buffer c)"
    and "c_inbox c = map (ack_arrives a) [1..<length (c_file c) div unat (o_block_size (c_options c)) + 2] @ rest"
    and "sockaddr_equals (c_server c) a"
    and "length (c_file c) div unat (o_block_size (c_options c)) + 1 < 65535"
  shows "fst (send_file c) = Ret_True"
proof -
  let ?bs = "unat (o_block_size (c_options c))" and ?f = "c_file c"
  have "calm (sender_init c, c)"
    using assms(1) by (simp add: calm_def sender_init_def undisturbed_def Let_def)
  then obtain u where u: "send_loop (sender_init c, c) = send_loop u"
    "nothing_outstanding ?f ?bs (c_out c) (c_bytes_transferred c) (length ?f div ?bs) u" "calm u"
    "c_inbox (snd u) = ack_arrives a (length ?f div ?bs + 1) # rest" "sockaddr_equals (c_server (snd u)) a"
    by (rule calm_upload [OF sender_init_inv [OF assms(2-4)], where a = a and m = "length ?f div ?bs"
          and rest = "ack_arrives a (length ?f div ?bs + 1) # rest"])
      (use assms(5-7) all_acks in simp_all)
  obtain ro u3 u2 where b: "send_loop u = (case ro of None \<Rightarrow> send_loop u3 | Some r \<Rightarrow> Some (r, u3))"
    "one_outstanding ?f ?bs (c_out c) (c_bytes_transferred c) (length ?f div ?bs + 1) u2"
    "acknowledges (c_recv_buffer (snd u2)) (length ?f div ?bs + 1)" "on_upload_packet u2 = (ro, u3)"
    by (rule calm_block [OF u(2-5)])
  have "ro = Some Ret_True" using ack_outstanding [OF b(2) assms(7) b(4)] b(3) by simp
  then have "send_loop (sender_init c, c) = Some (Ret_True, u3)" using u(1) b(1) by simp
  then show ?thesis using assms(1) by (simp add: send_file_def undisturbed_calls)
qed

section \<open>Uploads that never end\<close>

text \<open>
  When the number of blocks is 65535 the number of the next packet has wrapped to 0 at the end, and
  the comparison \<open>block_number == next_data_packet_to_send - 1\<close> of \<open>int\<close>s fails.  The window is then
  empty, which the retransmission loop takes for the full range of block numbers.
\<close>

lemma resend_forever:
  assumes "resend_window i u = Some r" and "u_window_begin (fst u) = 0" and "u_next (fst u) = 0"
    and "u_packets (fst u) = [slot]" and "length slot = 4 + block_size_of u"
    and "window_size_of u = 1" and "undisturbed (snd u)"
  shows False
  using assms
proof (induction rule: resend_window.raw_induct [rotated 1, consumes 1])
  case (1 resend i u r)
  obtain s c where u: "u = (s, c)" by (cases u)
  let ?p = "take (4 + block_size_of u) slot"
  let ?u' = "(s, c\<lparr>c_out := c_out c @ [(c_server c, ?p)]\<rparr>)"
  have rng: "is_in_range i (u_window_begin (fst u)) (u_next (fst u) - 1)"
    using 1(3,4) by (simp add: is_in_range_def)
  have "resend_packet i u = (Ret_True, ?u')"
  proof -
    have un: "undisturbed c" and bs: "length slot = 4 + block_size_of u" and ps: "u_packets s = [slot]"
      and ws: "window_size_of u = 1" and nx: "u_next s = 0" using 1(4-8) by (simp_all add: u)
    have "uint i \<noteq> - 1" using uint_ge_0 [of i] by linarith
    then have sz: "resend_size s b i = 4 + b" for b by (simp add: resend_size_def nx)
    have sl: "resend_slot 1 i = 0" by (simp add: resend_slot_def)
    have lp: "length ?p = 4 + block_size_of u" using bs by simp
    note c = undisturbed_calls(3) [OF un, of "c_server c" ?p]
    show ?thesis
      unfolding resend_packet_def Let_def ws sl fst_conv snd_conv u sz [unfolded u] ps list.size
      using c lp ws by (simp add: u sl)
  qed
  then have "resend (i + 1) ?u' = Some r" using 1(2) rng by simp
  moreover have "u_window_begin (fst ?u') = 0" "u_next (fst ?u') = 0" "u_packets (fst ?u') = [slot]"
    using 1(3-5) by (simp_all add: u)
  moreover have "length slot = 4 + block_size_of ?u'" "window_size_of ?u' = 1"
    using 1(6,7) by (simp_all add: u block_size_of_def window_size_of_def)
  moreover have "undisturbed (snd ?u')" using 1(8) by (simp add: u undisturbed_def)
  ultimately show False by (rule 1(1))
qed

text \<open>Silence: the timer runs out.\<close>

lemma calm_silence:
  assumes "calm u" and "c_inbox (snd u) = []"
  obtains c' where "wait_for_packet u = (Wait_Timeout, (fst u, c'))" and "calm (fst u, c')"
    and "upload_keeps (snd u) c'" and "c_inbox c' = []"
proof -
  obtain s c where u: "u = (s, c)" by (cases u)
  have un: "undisturbed c" using assms(1) by (simp add: calm_def u)
  let ?t = "of_nat (unat (o_timeout_s (c_options c))) :: rat"
  have t: "u_rto s - (timespec_to_double zero_timespec - timespec_to_double (u_start_time s)) = ?t"
    using assms(1) by (simp add: calm_def u)
  have "1 \<le> unat (o_timeout_s (c_options c))" using un by (simp add: undisturbed_def Suc_le_eq unat_gt_0)
  then have "of_nat 1 \<le> ?t" by (simp only: of_nat_le_iff)
  then have "1 \<le> ?t" by (simp only: of_nat_1)
  then have nt: "double_to_timeval ?t \<noteq> \<lparr>val_sec = 0, val_usec = 0\<rparr>"
    by (intro long_wait_is_a_timeout) linarith
  have t0: "0 < ?t" using \<open>1 \<le> ?t\<close> by linarith
  let ?c = "c\<lparr>c_rcvtimeo := double_to_timeval ?t, c_inbox := []\<rparr>"
  have "c_recvfrom (c\<lparr>c_rcvtimeo := double_to_timeval ?t\<rparr>) = (Would_Block, ?c)"
    using assms nt by (simp add: c_recvfrom_def no_recv_timeout_def u)
  then have w: "wait_for_packet u = (Wait_Timeout, (s, ?c))"
    using t t0 un by (simp add: wait_for_packet_def u undisturbed_calls Let_def)
  show thesis
    by (rule that [of ?c]) (use w assms un in \<open>auto simp: u calm_def undisturbed_def upload_keeps_def\<close>)
qed

lemma calm_backoff:
  assumes "calm u"
  shows "upload_backoff u = u" "calm (map_prod (u_retransmissions_update h) id u)"
  using assms by (auto simp: upload_backoff_def uses_adaptive_def calm_def undisturbed_def)

text \<open>The last acknowledgement of an upload of 65535 blocks is not recognised, and the next time-out is the end.\<close>

lemma wrapped_ack:
  assumes "one_outstanding f bs old base 65535 u" and "length f div bs = 65534" and "calm u"
    and "acknowledges (c_recv_buffer (snd u)) 65535" and "on_upload_packet u = (ro, u')"
  shows "ro = None" and "u_next (fst u') = 0" and "u_window_begin (fst u') = 0" and "u_end_of_file (fst u')"
    and "u_packets (fst u') = u_packets (fst u)" and "calm u'" and "c_inbox (snd u') = c_inbox (snd u)"
    and "c_options (snd u') = c_options (snd u)" and "u_retransmissions (fst u') = 0"
proof -
  have wb: "u_window_begin (fst u) = 65535" and nx: "u_next (fst u) = 0" and e: "u_end_of_file (fst u)"
    using assms(1,2) by (simp_all add: one_outstanding_def uploading_def)
  let ?v = "map_prod (u_retransmissions_update (\<lambda>_. 0)) id (map_prod (u_window_begin_update (\<lambda>_. 0)) id u)"
  have cv: "calm ?v" using assms(3) by (simp add: calm_def)
  have w: "(0 - 1 :: u16) = 65535" "(65535 + 1 :: u16) = 0" by simp_all
  have "upload_stop_timer 65535 ?v = ?v"
    using cv by (simp add: upload_stop_timer_def uses_adaptive_def calm_def undisturbed_def)
  then have "on_upload_ack 65535 u = (False, ?v)"
    unfolding on_upload_ack_def wb nx w in_range_single by (simp add: Let_def nx)
  then have u': "ro = None \<and> u' = ?v"
    using assms(4,5) by (auto simp: on_upload_packet_def acknowledges_def Let_def)
  then show "ro = None" and "u_next (fst u') = 0" and "u_window_begin (fst u') = 0" and "u_end_of_file (fst u')"
    and "u_packets (fst u') = u_packets (fst u)" and "calm u'" and "c_inbox (snd u') = c_inbox (snd u)"
    and "c_options (snd u') = c_options (snd u)" and "u_retransmissions (fst u') = 0"
    using nx e cv by simp_all
qed

lemma wrapped_upload:
  assumes "u_next (fst u) = 0" and "u_window_begin (fst u) = 0" and "u_end_of_file (fst u)"
    and "u_packets (fst u) = [slot]" and "length slot = 4 + block_size_of u" and "window_size_of u = 1"
    and "calm u" and "c_inbox (snd u) = []" and "u_retransmissions (fst u) = 0"
  shows "send_loop u = None"
proof -
  obtain c' where c: "wait_for_packet u = (Wait_Timeout, (fst u, c'))" "calm (fst u, c')"
    "upload_keeps (snd u) c'"
    by (rule calm_silence [OF assms(7,8)])
  let ?v = "map_prod (u_retransmissions_update (\<lambda>k. k + 1)) id (fst u, c')"
  have cv: "calm ?v" by (rule calm_backoff(2) [OF c(2)])
  have vs: "block_size_of ?v = block_size_of u" "window_size_of ?v = window_size_of u"
    using c(3) by (simp_all add: block_size_of_def window_size_of_def upload_keeps_def)
  have vf: "u_window_begin (fst ?v) = 0" "u_next (fst ?v) = 0" "u_packets (fst ?v) = [slot]"
    using assms(1,2,4) by simp_all
  have vu: "undisturbed (snd ?v)" using cv by (simp only: calm_def)
  have "resend_window 0 ?v = None"
  proof (rule ccontr)
    assume "resend_window 0 ?v \<noteq> None"
    then obtain r where "resend_window 0 ?v = Some r" by blast
    then show False
      by (rule resend_forever) (rule vf vu, rule vf, rule vf, simp only: vs assms(5), simp only: vs assms(6), rule vu)
  qed
  then have "on_upload_timeout (fst u, c') = None"
    using assms by (simp add: on_upload_timeout_def calm_backoff(1) [OF cv] calm_read_start_time [OF cv] Let_def
        del: map_prod_simp)
  moreover have "fill_window u = Some (Ret_True, u)"
    using assms(3) by (subst fill_window.simps) (simp add: window_open_def)
  ultimately show ?thesis by (subst send_loop.simps) (simp add: c(1))
qed


lemma upload_of_65535_blocks:
  assumes "undisturbed c" and "o_window_size (c_options c) = 1" and "o_block_size (c_options c) \<noteq> 0"
    and "4 \<le> length (c_recv_buffer c)" and "sockaddr_equals (c_server c) a"
    and blocks: "length (c_file c) div unat (o_block_size (c_options c)) + 1 = 65535"
    and inbox: "c_inbox c = map (ack_arrives a) [1..<65536]"
  shows "send_loop (sender_init c, c) = None"
proof -
  let ?bs = "unat (o_block_size (c_options c))" and ?f = "c_file c"
  define N where "N = length ?f div ?bs"
  have N: "N = 65534" using blocks by (simp add: N_def)
  have calm: "calm (sender_init c, c)"
    using assms(1) by (simp add: calm_def sender_init_def undisturbed_def Let_def)
  have "[1..<65536] = [1..<N + 2]" by (simp only: N) simp
  then have ib: "c_inbox (snd (sender_init c, c)) = map (ack_arrives a) [0 + 1..<N + 1] @ [ack_arrives a (N + 1)]"
    using inbox all_acks [of a N "[]"] by (simp only: snd_conv append_Nil2)
  have srv: "sockaddr_equals (c_server (snd (sender_init c, c))) a" using assms(5) by simp
  have lt: "N < 65535" "0 \<le> N" using N by simp_all
  obtain u where u: "send_loop (sender_init c, c) = send_loop u"
    "nothing_outstanding ?f ?bs (c_out c) (c_bytes_transferred c) N u" "calm u"
    "c_inbox (snd u) = [ack_arrives a (N + 1)]" "sockaddr_equals (c_server (snd u)) a"
    by (rule calm_upload [OF sender_init_inv [OF assms(2-4)] calm ib srv lt(2) eq_refl [OF N_def] lt(1)])
  obtain ro u3 u2 where b: "send_loop u = (case ro of None \<Rightarrow> send_loop u3 | Some r \<Rightarrow> Some (r, u3))"
    "one_outstanding ?f ?bs (c_out c) (c_bytes_transferred c) (N + 1) u2" "calm u2"
    "acknowledges (c_recv_buffer (snd u2)) (N + 1)" "on_upload_packet u2 = (ro, u3)" "c_inbox (snd u2) = []"
    by (rule calm_block [OF u(2-5)])
  have N1: "N + 1 = 65535" using N by simp
  have N0: "length ?f div ?bs = 65534" using N N_def by simp
  note w = wrapped_ack [OF b(2) [unfolded N1] N0 b(3) b(4) [unfolded N1] b(5)]
  obtain slot where slot: "u_packets (fst u2) = [slot]" "length slot = 4 + ?bs"
    "window_size_of u2 = 1" "block_size_of u2 = ?bs"
    using b(2) by (auto simp: one_outstanding_def uploading_def)
  have "send_loop u3 = None"
    by (rule wrapped_upload [where slot = slot])
      (simp_all add: w slot b(6) block_size_of_def window_size_of_def slot [unfolded block_size_of_def window_size_of_def])
  then show ?thesis using u(1) b(1) w(1) by simp
qed

section \<open>A limit of 255 retransmissions\<close>

text \<open>
  \<open>retransmissions > retries\<close> cannot hold of an 8-bit counter and a limit of 255: an upload to a server
  that does not answer never gives up.
\<close>

lemma timeout_resends:
  assumes "one_outstanding f bs old base k u" and "length f div bs + 1 < 65535" and calm: "calm u"
    and "\<not> c_retries (snd u) < u_retransmissions (fst u)"
  obtains u' where "on_upload_timeout u = Some (Ret_True, u')" and "one_outstanding f bs old base k u'" and "calm u'"
    and "c_inbox (snd u') = c_inbox (snd u)" and "c_retries (snd u') = c_retries (snd u)"
proof -
  let ?v = "map_prod (u_retransmissions_update (\<lambda>k. k + 1)) id u"
  have cv: "calm ?v" by (rule calm_backoff(2) [OF calm])
  have "one_outstanding f bs old base k (fst ?v, snd ?v)"
    by (rule outstanding_keeps [of f bs old base k "fst u" "snd u"]) (use assms(1) in simp_all)
  then obtain r c' where w: "resend_window (u_window_begin (fst ?v)) (fst ?v, snd ?v) = Some (r, (fst ?v, c'))"
    "c_inbox c' = c_inbox (snd ?v)" "c_retries c' = c_retries (snd ?v)"
    "r = Ret_True \<Longrightarrow> one_outstanding f bs old base k (fst ?v, c')"
    "r = Ret_True \<and> c' = snd ?v\<lparr>c_out := c_out (snd ?v) @ [(c_server (snd ?v), data_datagram f bs (k - 1))]\<rparr>"
    by (rule resend_outstanding [OF _ assms(2)]) (use cv in \<open>simp add: calm_def undisturbed_def\<close>)
  have "on_upload_timeout u = Some (Ret_True, (fst ?v, c'))"
    using assms(4) w(1,5) unfolding prod.collapse
    by (simp add: on_upload_timeout_def calm_backoff(1) [OF cv] calm_read_start_time [OF cv] Let_def)
  moreover have "calm (fst ?v, c')" using cv w(5) by (simp add: calm_def undisturbed_def)
  ultimately show thesis using that w by simp
qed

lemma send_loop_silent:
  assumes "send_loop u = Some r" and "nothing_outstanding f bs old base k u \<or> one_outstanding f bs old base k u"
    and "calm u" and "c_inbox (snd u) = []" and "c_retries (snd u) = 255" and small: "length f div bs + 1 < 65535"
  shows False
  using assms(1-5)
proof (induction arbitrary: k rule: send_loop.raw_induct [rotated 1, consumes 1])
  case (1 loop u r)
  obtain u1 k1 where u1: "fill_window u = Some (Ret_True, u1)" "calm u1" "one_outstanding f bs old base k1 u1"
    "c_inbox (snd u1) = []" "c_retries (snd u1) = 255"
  proof (cases "one_outstanding f bs old base k u")
    case True
    then show thesis using that [of u k] fill_outstanding [OF True] 1(4-6) by blast
  next
    case False
    then have no: "nothing_outstanding f bs old base k u" using 1(3) by blast
    obtain v where v: "fill_window u = Some (Ret_True, v)" "calm v" "one_outstanding f bs old base (k + 1) v"
      "c_inbox (snd v) = c_inbox (snd u)"
      by (rule calm_fill [OF no 1(4)])
    obtain r' v' where "fill_window u = Some (r', v')" "r' = Ret_True \<Longrightarrow> c_retries (snd v') = c_retries (snd u)"
      by (rule fill_nothing [OF no]) blast
    then show thesis using that v 1(5,6) by simp
  qed
  obtain c2 where c2: "wait_for_packet u1 = (Wait_Timeout, (fst u1, c2))" "calm (fst u1, c2)"
    "upload_keeps (snd u1) c2" "c_inbox c2 = []"
    by (rule calm_silence [OF u1(2,4)])
  have o2: "one_outstanding f bs old base k1 (fst u1, c2)"
    by (rule outstanding_keeps [OF _ c2(3), of f bs old base k1 "fst u1"]) (use u1(3) in simp_all)
  have r2: "c_retries c2 = 255" using c2(3) u1(5) by (simp add: upload_keeps_def)
  have "\<not> c_retries (snd (fst u1, c2)) < u_retransmissions (fst (fst u1, c2))"
  proof -
    have "(255 :: u8) = - 1" by simp
    then show ?thesis using r2 word_order.extremum [of "u_retransmissions (fst u1)"] unfolding fst_conv snd_conv not_less by metis
  qed
  then obtain u3 where u3: "on_upload_timeout (fst u1, c2) = Some (Ret_True, u3)" "one_outstanding f bs old base k1 u3"
    "calm u3" "c_inbox (snd u3) = []" "c_retries (snd u3) = 255"
    by (rule timeout_resends [OF o2 small c2(2)]) (use c2(4) r2 in simp)
  have "loop u3 = Some r" using 1(2) u1(1) c2(1) u3(1) by simp
  then show False using 1(1) u3(2-5) by blast
qed

lemma silent_server:
  assumes "undisturbed c" and "o_window_size (c_options c) = 1" and "o_block_size (c_options c) \<noteq> 0"
    and "4 \<le> length (c_recv_buffer c)" and "length (c_file c) div unat (o_block_size (c_options c)) + 1 < 65535"
    and "c_inbox c = []" and "c_retries c = 255"
  shows "send_loop (sender_init c, c) = None"
proof -
  have "calm (sender_init c, c)"
    using assms(1) by (simp add: calm_def sender_init_def undisturbed_def Let_def)
  then show ?thesis
    using send_loop_silent [OF _ disjI1 [OF sender_init_inv [OF assms(2-4)]] _ _ _ assms(5)] assms(6,7)
    by (metis not_None_eq snd_conv)
qed

section \<open>The whole request\<close>

lemma requested_put_undisturbed:
  assumes "c_sys c = []" and "c_clock c = []" and "\<not> given_adaptive_timeout options"
    and "c_options c = requested_options REQUEST_PUT options"
  shows "undisturbed c"
  using assms by (auto simp: undisturbed_def requested_options_def default_timeout_s_def Let_def split: option.splits)

lemma write_request_sent:
  assumes "undisturbed c" and "c_recv_buffer c = mem" and "c_rcvtimeo c \<noteq> \<lparr>val_sec = 0, val_usec = 0\<rparr>"
    and "fst (tftp_wrq_packet_init [] (length (c_filename c) + 1) (zstr (c_filename c)) (c_mode c)
          (o_options (c_options c))) = Ret_True"
    and "c_inbox c = Arrives a p # rest" and "length p \<le> length mem"
  obtains out packet where "write_request_loop 0 c =
    (Packet a (length p), c\<lparr>c_out := out, c_last_packet := packet, c_inbox := rest, c_recv_buffer := splice 0 p mem\<rparr>)"
proof -
  obtain packet where p: "tftp_wrq_packet_init [] (length (c_filename c) + 1) (zstr (c_filename c)) (c_mode c)
          (o_options (c_options c)) = (Ret_True, packet)"
    using assms(4) by (metis prod.collapse)
  let ?c = "c\<lparr>c_out := c_out c @ [(c_server c, packet)], c_last_packet := packet\<rparr>"
  have "undisturbed ?c" using assms(1) by (simp add: undisturbed_def)
  then have "send_write_request c = (Ret_True, ?c)"
    using assms(1) p by (simp add: send_write_request_def send_wrq_def send_wrq_packet_def c_send_def assign_def
        undisturbed_calls)
  moreover have "c_recvfrom ?c = (Received a (length p), ?c\<lparr>c_inbox := rest, c_recv_buffer := splice 0 p mem\<rparr>)"
    using assms by (simp add: c_recvfrom_def no_recv_timeout_def)
  ultimately have "write_request_loop 0 c = (Packet a (length p), ?c\<lparr>c_inbox := rest, c_recv_buffer := splice 0 p mem\<rparr>)"
    by (subst write_request_loop.simps) simp
  then show thesis using that by simp
qed

lemma put_request_accepted:
  assumes un: "undisturbed c" and opts: "c_options c = requested_options REQUEST_PUT options"
    and use: "c_use_options c = fst (options_init REQUEST_PUT (Some options))"
    and wait: "c_rcvtimeo c \<noteq> \<lparr>val_sec = 0, val_usec = 0\<rparr>"
    and fits: "fst (tftp_wrq_packet_init [] (length (c_filename c) + 1) (zstr (c_filename c)) (c_mode c)
          (o_options (requested_options REQUEST_PUT options))) = Ret_True"
    and inbox: "c_inbox c = ack_arrives a 0 # rest"
  obtains f where "handle_put_request c = (case send_file f of
        (Ret_True, c') \<Rightarrow> (Client_Success (c_bytes_transferred c'), c')
      | (Ret_False, c') \<Rightarrow> (get_failed c', c')
      | (Fault, c') \<Rightarrow> (no_result c', c'))"
    and "undisturbed f" and "o_window_size (c_options f) = 1" and "o_block_size (c_options f) = 512"
    and "4 \<le> length (c_recv_buffer f)" and "c_file f = c_file c" and "c_inbox f = rest" and "c_server f = a"
    and "c_retries f = c_retries c"
proof -
  let ?d = "use_stack_buffer c"
  have d: "undisturbed ?d" "c_recv_buffer ?d = malloc_bytes 512 c" "c_rcvtimeo ?d = c_rcvtimeo c"
    "c_filename ?d = c_filename c" "c_mode ?d = c_mode c" "c_options ?d = c_options c" "c_file ?d = c_file c"
    "c_use_options ?d = c_use_options c" "c_retries ?d = c_retries c"
    using un by (simp_all add: use_stack_buffer_def undisturbed_def tftp_oack_packet_max_size_def)
  have l: "length (malloc_bytes 512 c) = 512" by (simp add: malloc_bytes_def)
  have ib: "c_inbox ?d = Arrives a (tftp_ack_packet_init 0) # rest"
    using inbox by (simp add: use_stack_buffer_def ack_arrives_def)
  obtain out packet where w: "write_request_loop 0 ?d = (Packet a 4, ?d\<lparr>c_out := out, c_last_packet := packet,
      c_inbox := rest, c_recv_buffer := splice 0 (tftp_ack_packet_init 0) (malloc_bytes 512 c)\<rparr>)"
    by (rule write_request_sent [OF d(1,2) _ _ ib])
      (use wait fits l in \<open>simp_all add: d(3-6) opts acknowledges_ack(2)\<close>)
  let ?e = "?d\<lparr>c_out := out, c_last_packet := packet, c_inbox := rest,
      c_recv_buffer := splice 0 (tftp_ack_packet_init 0) (malloc_bytes 512 c), c_server := a\<rparr>"
  have "acknowledges (c_recv_buffer ?e) 0"
    using acknowledges_ack(1) [of 0 "malloc_bytes 512 c"] by simp
  then obtain f where f: "on_write_answer 4 ?e = (Ret_True, f)"
    "f = (if c_use_options c
          then ?e\<lparr>c_use_options := False, c_options := (c_options ?e)\<lparr>o_block_size := tftp_default_blksize,
                 o_timeout_s := default_timeout_s, o_use_tsize := False\<rparr>\<rparr>
          else ?e)"
    by (auto simp: on_write_answer_def acknowledges_def d(8))
  have size512: "o_block_size (c_options f) = 512"
  proof (cases "c_use_options c")
    case False
    then have "\<not> is_active (o_options (requested_options REQUEST_PUT options) TFTP_OPTION_BLKSIZE)"
      using use by (auto simp: options_init_def Let_def list_ex_iff all_options_def)
    then show ?thesis
      using f(2) False by (auto simp: d(6) opts requested_options_def Let_def tftp_default_blksize_def split: option.splits if_splits)
  qed (use f(2) in \<open>simp add: tftp_default_blksize_def\<close>)
  have unf: "undisturbed f" using f(2) d(1) by (simp add: undisturbed_def default_timeout_s_def)
  have fe: "o_window_size (c_options f) = 1" "4 \<le> length (c_recv_buffer f)" "c_file f = c_file c"
    "c_inbox f = rest" "c_server f = a" "c_retries f = c_retries c"
    using f(2) requested_put_sizes [of options] l by (simp_all add: d opts splice_def)
  have "await_write_answer ?d = (Ret_True, f)"
    using w f(1) by (simp add: await_write_answer_def)
  then have "handle_put_request c = (case send_file f of
        (Ret_True, c') \<Rightarrow> (Client_Success (c_bytes_transferred c'), c')
      | (Ret_False, c') \<Rightarrow> (get_failed c', c')
      | (Fault, c') \<Rightarrow> (no_result c', c'))"
    by (simp add: handle_put_request_def assign_def split: prod.split ret.split)
  then show thesis using that unf fe size512 by simp
qed

text \<open>The request is sent with everything set up as the caller asked for it.\<close>

lemma write_requests:
  assumes env: "c_sys c = []" "c_clock c = []" and gai: "fst gai = 0" and "\<not> given_adaptive_timeout options"
    and fits: "fst (tftp_wrq_packet_init [] (length filename + 1) (zstr filename) mode
          (o_options (requested_options REQUEST_PUT options))) = Ret_True"
    and inbox: "c_inbox c = ack_arrives a 0 # rest"
  obtains f where "fst (tftp_client_write retries is_ipv6 gai filename mode (Some options) c) = (case send_file f of
        (Ret_True, c') \<Rightarrow> Client_Success (c_bytes_transferred c')
      | (Ret_False, c') \<Rightarrow> get_failed c'
      | (Fault, c') \<Rightarrow> no_result c')"
    and "undisturbed f" and "o_window_size (c_options f) = 1" and "o_block_size (c_options f) = 512"
    and "4 \<le> length (c_recv_buffer f)" and "c_file f = c_file c" and "c_inbox f = rest" and "c_server f = a"
    and "c_retries f = retries"
proof -
  have call: "c_call d = (Ret_True, d)" if "c_sys d = []" for d
    using that by (simp add: c_call_def c_sys_call_def)
  let ?c1 = "c\<lparr>c_server := snd gai\<rparr>"
  have c1: "connection_init is_ipv6 gai c = (Ret_True, ?c1)"
    using env gai by (simp add: connection_init_def call)
  let ?c2 = "request_init REQUEST_PUT retries filename mode (Some options) ?c1"
  have o2: "c_options ?c2 = requested_options REQUEST_PUT options"
    "c_use_options ?c2 = fst (options_init REQUEST_PUT (Some options))"
    "c_filename ?c2 = filename" "c_mode ?c2 = mode" "c_inbox ?c2 = c_inbox c" "c_file ?c2 = c_file c"
    "c_sys ?c2 = []" "c_clock ?c2 = []" "c_retries ?c2 = retries"
    using env by (simp_all add: request_init_def options_init_def Let_def)
  let ?c3 = "?c2\<lparr>c_rcvtimeo := \<lparr>val_sec = int (unat (o_timeout_s (c_options ?c2))), val_usec = 0\<rparr>\<rparr>"
  have c3: "connection_set_recv_timeout (o_timeout_s (c_options ?c2)) ?c2 = (Ret_True, ?c3)"
    using o2 by (simp add: connection_set_recv_timeout_def call assign_def)
  let ?c4 = "stats_init ?c3"
  have o4: "c_options ?c4 = requested_options REQUEST_PUT options"
    "c_use_options ?c4 = fst (options_init REQUEST_PUT (Some options))" "c_filename ?c4 = filename" "c_mode ?c4 = mode"
    "c_inbox ?c4 = c_inbox c" "c_file ?c4 = c_file c" "c_sys ?c4 = []" "c_clock ?c4 = []" "c_retries ?c4 = retries"
    "c_rcvtimeo ?c4 = \<lparr>val_sec = int (unat (o_timeout_s (c_options ?c2))), val_usec = 0\<rparr>"
    using o2 by (simp_all add: stats_init_def c_clock_gettime_def)
  have un: "undisturbed ?c4" by (rule requested_put_undisturbed) (use o4 assms(4) in simp_all)
  then have "o_timeout_s (requested_options REQUEST_PUT options) \<noteq> 0" unfolding undisturbed_def o4(1) by blast
  then have wait: "c_rcvtimeo ?c4 \<noteq> \<lparr>val_sec = 0, val_usec = 0\<rparr>"
    by (subst o4(10)) (simp add: o2(1) uint_0_iff)
  have fits4: "fst (tftp_wrq_packet_init [] (length (c_filename ?c4) + 1) (zstr (c_filename ?c4)) (c_mode ?c4)
          (o_options (requested_options REQUEST_PUT options))) = Ret_True"
    unfolding o4 by (rule fits)
  have inbox4: "c_inbox ?c4 = ack_arrives a 0 # rest" unfolding o4 by (rule inbox)
  obtain f where f: "handle_put_request ?c4 = (case send_file f of
        (Ret_True, c') \<Rightarrow> (Client_Success (c_bytes_transferred c'), c')
      | (Ret_False, c') \<Rightarrow> (get_failed c', c')
      | (Fault, c') \<Rightarrow> (no_result c', c'))"
    "undisturbed f" "o_window_size (c_options f) = 1" "o_block_size (c_options f) = 512"
    "4 \<le> length (c_recv_buffer f)" "c_file f = c_file ?c4" "c_inbox f = rest" "c_server f = a" "c_retries f = c_retries ?c4"
    by (rule put_request_accepted [OF un o4(1,2) wait fits4 inbox4])
  have "fst (tftp_client_write retries is_ipv6 gai filename mode (Some options) c) = fst (handle_put_request ?c4)"
    using c1 c3 by (simp add: tftp_client_write_def run_request_def split: prod.split)
  also have "\<dots> = (case send_file f of
        (Ret_True, c') \<Rightarrow> Client_Success (c_bytes_transferred c')
      | (Ret_False, c') \<Rightarrow> get_failed c'
      | (Fault, c') \<Rightarrow> no_result c')"
    unfolding f(1) by (simp split: prod.split ret.split)
  finally show thesis by (rule that [OF _ f(2-5) _ f(7,8)]) (use f(6,9) o4 in simp_all)
qed

lemma write_succeeds:
  assumes "c_sys c = []" and "c_clock c = []" and "fst gai = 0" and "\<not> given_adaptive_timeout options"
    and "fst (tftp_wrq_packet_init [] (length filename + 1) (zstr filename) mode
          (o_options (requested_options REQUEST_PUT options))) = Ret_True"
    and inbox: "c_inbox c = map (ack_arrives a) [0..<length (c_file c) div 512 + 2] @ rest"
    and srv: "sockaddr_equals a a" and small: "length (c_file c) div 512 + 1 < 65535"
  shows "\<exists>n. fst (tftp_client_write retries is_ipv6 gai filename mode (Some options) c) = Client_Success n"
proof -
  let ?N = "length (c_file c) div 512"
  have "[0..<?N + 2] = 0 # [1..<?N + 2]" by (simp add: upt_conv_Cons del: upt_Suc)
  then have ib: "c_inbox c = ack_arrives a 0 # (map (ack_arrives a) [1..<?N + 2] @ rest)"
    using inbox by (simp del: upt_Suc)
  obtain f where f: "fst (tftp_client_write retries is_ipv6 gai filename mode (Some options) c) = (case send_file f of
        (Ret_True, c') \<Rightarrow> Client_Success (c_bytes_transferred c')
      | (Ret_False, c') \<Rightarrow> get_failed c'
      | (Fault, c') \<Rightarrow> no_result c')"
    "undisturbed f" "o_window_size (c_options f) = 1" "o_block_size (c_options f) = 512" "4 \<le> length (c_recv_buffer f)"
    "c_file f = c_file c" "c_inbox f = map (ack_arrives a) [1..<?N + 2] @ rest" "c_server f = a"
    by (rule write_requests [OF assms(1-5) ib])
  have "fst (send_file f) = Ret_True"
    by (rule acknowledged_upload [OF f(2,3), where a = a and rest = rest])
      (use f(4-8) small srv in simp_all)
  then show ?thesis unfolding f(1) by (cases "send_file f") simp
qed

lemma silent_write:
  assumes "c_sys c = []" and "c_clock c = []" and "fst gai = 0" and "\<not> given_adaptive_timeout options"
    and "fst (tftp_wrq_packet_init [] (length filename + 1) (zstr filename) mode
          (o_options (requested_options REQUEST_PUT options))) = Ret_True"
    and "c_inbox c = [ack_arrives a 0]" and small: "length (c_file c) div 512 + 1 < 65535"
  shows "fst (tftp_client_write 255 is_ipv6 gai filename mode (Some options) c) = Client_Hangs"
proof -
  obtain f where f: "fst (tftp_client_write 255 is_ipv6 gai filename mode (Some options) c) = (case send_file f of
        (Ret_True, c') \<Rightarrow> Client_Success (c_bytes_transferred c')
      | (Ret_False, c') \<Rightarrow> get_failed c'
      | (Fault, c') \<Rightarrow> no_result c')"
    "undisturbed f" "o_window_size (c_options f) = 1" "o_block_size (c_options f) = 512" "4 \<le> length (c_recv_buffer f)"
    "c_file f = c_file c" "c_inbox f = []" "c_retries f = 255"
    by (rule write_requests [OF assms(1-6)])
  have "send_loop (sender_init f, f) = None"
    by (rule silent_server) (use f small in simp_all)
  then show ?thesis using f(2) unfolding f(1) by (simp add: send_file_def undisturbed_calls no_result_def)
qed

section \<open>Properties\<close>

definition plain_options :: tftp_client_options where
  "plain_options = \<lparr>given_timeout_s = None, given_block_size = None, given_window_size = None,
     given_use_tsize = False, given_adaptive_timeout = False, given_read_type_list = False\<rparr>"

definition lucky_sender :: client where
  "lucky_sender = example_client\<lparr>c_file := ''hello'', c_inbox := map (ack_arrives example_server) [0, 1]\<rparr>"

lemma lucky_request_fits:
  "fst (tftp_wrq_packet_init [] (length ''f'' + 1) (zstr ''f'') TFTP_MODE_OCTET
     (o_options (requested_options REQUEST_PUT plain_options))) = Ret_True"
  by code_simp

lemma lucky_upload:
  "\<exists>n. fst (tftp_client_write 3 False (0, Sockaddr_In 69 2130706433) ''f'' TFTP_MODE_OCTET (Some plain_options)
      lucky_sender) = Client_Success n"
  by (rule write_succeeds [OF _ _ _ _ lucky_request_fits, of _ _ example_server "[]"])
    (simp_all add: lucky_sender_def example_client_def plain_options_def example_server_def upt_rec)

text \<open>
  C3: An upload that succeeds has sent the file.  If \<open>tftp_client_write\<close> reports success, then what
  it has sent after the request are only blocks of the file, in the block size that is in force at the
  end, every block of the file (the short last one included) has been sent, and the size of the
  file is reported.  Any datagrams may arrive and any call may fail.  The file may have up to 65533
  blocks of 8 bytes, the smallest size, and the retries must be fewer than 255 (see the exceptions below).
\<close>

theorem upload_sends_the_file:
  assumes "tftp_client_write retries is_ipv6 gai filename mode (Some options) c = (Client_Success n, c')"
    and "unat retries < 255" and "length (c_file c) div 8 + 1 < 65535"
  shows "uploaded (c_file c) c' \<and> n = length (c_file c)"
  using assms by (rule client_write_file)

theorem upload_sends_the_file_witness:
  "\<exists>c'. tftp_client_write 3 False (0, Sockaddr_In 69 2130706433) ''f'' TFTP_MODE_OCTET (Some plain_options) lucky_sender
       = (Client_Success 5, c') \<and> uploaded ''hello'' c'"
proof -
  obtain n c' where run: "tftp_client_write 3 False (0, Sockaddr_In 69 2130706433) ''f'' TFTP_MODE_OCTET
      (Some plain_options) lucky_sender = (Client_Success n, c')"
    using lucky_upload by (metis prod.collapse)
  have f: "c_file lucky_sender = ''hello''" by (simp add: lucky_sender_def example_client_def)
  show ?thesis using upload_sends_the_file [OF run] run unfolding f by simp
qed

text \<open>
  C5: Uploads terminate.  With a window of one block (the only one an upload has), fewer than 255 retries
  and fewer than 65535 blocks, the loop of \<open>send_file\<close> returns, whatever arrives and whichever calls fail, with one
  exception: after some iterations it comes to a \<open>recvfrom\<close> that blocks forever.  This needs that
  the sender finds the time-out less than a microsecond away, which makes \<open>SO_RCVTIMEO\<close> zero, and that no
  datagram comes any more.  In every other case its state counts down the datagrams still to come and the
  retransmissions left.
\<close>

theorem upload_terminates:
  assumes "o_window_size (c_options c) = 1" and "o_block_size (c_options c) \<noteq> 0"
    and "4 \<le> length (c_recv_buffer c)" and "unat (c_retries c) < 255"
    and "length (c_file c) div unat (o_block_size (c_options c)) + 1 < 65535"
  shows "(\<exists>r u. send_loop (sender_init c, c) = Some (r, u))
    \<or> (\<exists>u u1 u2. upload_iterates\<^sup>*\<^sup>* (sender_init c, c) u \<and> fill_window u = Some (Ret_True, u1)
         \<and> wait_for_packet u1 = (Wait_Forever, u2)
         \<and> 0 < remaining_wait u1 \<and> remaining_wait u1 < 1 / 1000000 \<and> c_inbox (snd u2) = [])"
  using send_loop_total [OF disjI1 [OF sender_init_inv [OF assms(1-3)]] assms(5), of "c_retries c"] assms(4)
  unfolding waits_forever_def by auto

definition sending_client :: "byte list \<Rightarrow> client" where
  "sending_client f = use_stack_buffer (example_client\<lparr>c_file := f, c_server := example_server,
     c_options := requested_options REQUEST_PUT plain_options\<rparr>)"

lemma sending_client_fields:
  "o_window_size (c_options (sending_client f)) = 1" "o_block_size (c_options (sending_client f)) = 512"
  "length (c_recv_buffer (sending_client f)) = 512" "c_retries (sending_client f) = 0" "c_file (sending_client f) = f"
  "undisturbed (sending_client f)" "c_server (sending_client f) = example_server" "c_inbox (sending_client f) = []"
  by (simp_all add: sending_client_def use_stack_buffer_def example_client_def requested_options_def
      plain_options_def Let_def tftp_default_blksize_def tftp_default_window_size_def malloc_bytes_def
      tftp_oack_packet_max_size_def undisturbed_def default_timeout_s_def)

theorem upload_terminates_witness:
  "let c = (sending_client ''hello'')\<lparr>c_inbox := [ack_arrives example_server 1]\<rparr>
   in \<exists>r u. send_loop (sender_init c, c) = Some (r, u)"
proof -
  let ?c = "(sending_client ''hello'')\<lparr>c_inbox := [ack_arrives example_server 1]\<rparr>"
  let ?u = "(sender_init ?c, ?c)"
  note f = sending_client_fields [of "''hello''"]
  have o: "nothing_outstanding ''hello'' 512 (c_out ?c) (c_bytes_transferred ?c) 0 ?u"
    using sender_init_inv [of ?c] f by simp
  have calm: "calm ?u" using f(6) by (simp add: calm_def sender_init_def undisturbed_def Let_def)
  obtain u1 u2 ro u3 where it: "fill_window ?u = Some (Ret_True, u1)" "wait_for_packet u1 = (Wait_Packet, u2)"
    "on_upload_packet u2 = (ro, u3)" "one_outstanding ''hello'' 512 (c_out ?c) (c_bytes_transferred ?c) 1 u2"
    "acknowledges (c_recv_buffer (snd u2)) 1"
    by (rule calm_iteration [OF o calm, where a = example_server and rest = "[]"])
      (simp_all add: f example_server_def)
  have "ro = Some Ret_True" using ack_outstanding [OF it(4) _ it(3)] it(5) by simp
  then have "\<not> upload_iterates ?u v" for v using it(1-3) by (auto elim!: upload_iterates.cases)
  then have "upload_iterates\<^sup>*\<^sup>* ?u v \<Longrightarrow> v = ?u" for v by (metis converse_rtranclpE)
  then show ?thesis
    using upload_terminates [of ?c] it(1,2) unfolding Let_def by (fastforce simp: f)
qed

text \<open>
  C6: An upload whose blocks are acknowledged succeeds.  If the request fits its packet, the server
  answers it with ACK 0 (options or not) and acknowledges every block, the time-out asked for is not adaptive,
  and neither calls fail nor time-outs expire, then \<open>tftp_client_write\<close> reports success, for every file of fewer than 65535 blocks of 512 bytes.
\<close>

theorem acknowledged_upload_succeeds:
  assumes "c_sys c = []" and "c_clock c = []" and "fst gai = 0" and "\<not> given_adaptive_timeout options"
    and "fst (tftp_wrq_packet_init [] (length filename + 1) (zstr filename) mode
          (o_options (requested_options REQUEST_PUT options))) = Ret_True"
    and "c_inbox c = map (ack_arrives a) [0..<length (c_file c) div 512 + 2] @ rest"
    and "sockaddr_equals a a" and "length (c_file c) div 512 + 1 < 65535"
  shows "\<exists>n. fst (tftp_client_write retries is_ipv6 gai filename mode (Some options) c) = Client_Success n"
  using assms by (rule write_succeeds)

theorem acknowledged_upload_succeeds_witness:
  "\<exists>n. fst (tftp_client_write 255 False (0, Sockaddr_In 69 2130706433) ''f'' TFTP_MODE_OCTET (Some plain_options)
      lucky_sender) = Client_Success n"
  by (rule acknowledged_upload_succeeds [OF _ _ _ _ lucky_request_fits, of _ _ example_server "[]"])
    (simp_all add: lucky_sender_def example_client_def plain_options_def example_server_def upt_rec)

text \<open>
  C37: An upload of 65535 blocks never ends, even if every block is acknowledged.  The number of the
  next packet has wrapped to 0 when the last acknowledgement comes, which the comparison of \<open>int\<close>s
  \<open>block_number == next_data_packet_to_send - 1\<close> does not recognise; after the next time-out the window,
  now empty, counts as all block numbers and the last packet is sent again and again, at full size.
\<close>

theorem upload_of_65535_blocks_never_ends:
  assumes "undisturbed c" and "o_window_size (c_options c) = 1" and "o_block_size (c_options c) \<noteq> 0"
    and "4 \<le> length (c_recv_buffer c)" and "sockaddr_equals (c_server c) a"
    and "length (c_file c) div unat (o_block_size (c_options c)) + 1 = 65535"
    and "c_inbox c = map (ack_arrives a) [1..<65536]"
  shows "send_loop (sender_init c, c) = None"
  using assms by (rule upload_of_65535_blocks)

definition long_client :: "nat \<Rightarrow> client" where
  "long_client n = (sending_client (replicate (512 * n) NUL))\<lparr>c_inbox := map (ack_arrives example_server) [1..<n + 2]\<rparr>"

theorem upload_of_65535_blocks_never_ends_witness:
  "\<exists>n. length (c_file (long_client n)) = 512 * n \<and> send_loop (sender_init (long_client n), long_client n) = None"
proof -
  let ?c = "\<lambda>n. long_client n"
  have f: "undisturbed (?c n)" "o_window_size (c_options (?c n)) = 1" "o_block_size (c_options (?c n)) = 512"
    "length (c_recv_buffer (?c n)) = 512" "c_server (?c n) = example_server" "c_file (?c n) = replicate (512 * n) NUL"
    "c_inbox (?c n) = map (ack_arrives example_server) [1..<n + 2]" for n
    using sending_client_fields [of "replicate (512 * n) NUL"] by (simp_all add: long_client_def undisturbed_def)
  have n: "length (c_file (?c n)) div unat (o_block_size (c_options (?c n))) + 1 = n + 1" for n
    unfolding f length_replicate by simp
  define m :: nat where "m = 65534"
  have m: "m + 1 = 65535" "m + 2 = 65536" by (simp_all add: m_def)
  have "send_loop (sender_init (?c m), ?c m) = None"
  proof (rule upload_of_65535_blocks_never_ends [OF f(1,2), where a = example_server])
    show "length (c_file (?c m)) div unat (o_block_size (c_options (?c m))) + 1 = 65535" unfolding n m ..
    show "c_inbox (?c m) = map (ack_arrives example_server) [1..<65536]" unfolding f m ..
  qed (simp_all add: f example_server_def)
  then show ?thesis unfolding f length_replicate by blast
qed

text \<open>
  C38: A limit of 255 retransmissions is no limit.  If the server accepts the request of an upload with ACK 0 and
  is silent from then on, \<open>tftp_client_write\<close> with \<open>retries\<close> = 255 never returns: the counter of \<open>send_file\<close>
  has eight bits, and \<open>retransmissions > retries\<close> is never true.  (A server that is silent from the start is
  given up: the loop that sends the request compares with \<open>==\<close>.)
\<close>

theorem silent_server_never_given_up:
  assumes "c_sys c = []" and "c_clock c = []" and "fst gai = 0" and "\<not> given_adaptive_timeout options"
    and "fst (tftp_wrq_packet_init [] (length filename + 1) (zstr filename) mode
          (o_options (requested_options REQUEST_PUT options))) = Ret_True"
    and "c_inbox c = [ack_arrives a 0]" and "length (c_file c) div 512 + 1 < 65535"
  shows "fst (tftp_client_write 255 is_ipv6 gai filename mode (Some options) c) = Client_Hangs"
  using assms by (rule silent_write)

theorem silent_server_never_given_up_witness:
  "fst (tftp_client_write 255 False (0, Sockaddr_In 69 2130706433) ''f'' TFTP_MODE_OCTET (Some plain_options)
     (lucky_sender\<lparr>c_inbox := [ack_arrives example_server 0]\<rparr>)) = Client_Hangs"
  by (rule silent_server_never_given_up [OF _ _ _ _ lucky_request_fits])
    (simp_all add: lucky_sender_def example_client_def plain_options_def)

end
