(* ===== verification/Tftp_Listener.thy ===== *)
theory Tftp_Listener
  imports Tftp_Inet
begin

text \<open>
  The listening socket: \<open>tftp/src/server/listener.c\<close>.  The resolver is an argument (whether the host is an
  IPv6 address, the result of \<open>getaddrinfo\<close> and its list of addresses); the results of the socket calls
  are a script, \<open>None\<close> and the end of the script standing for success.
\<close>

section \<open>State\<close>

text \<open>\<open>ls_closed\<close> records the descriptors given to \<open>close\<close>, in order.\<close>

record listener =
  ls_fd :: int
  ls_address :: "sockaddr option"
  ls_control :: bool
  ls_sys :: "int option list"
  ls_closed :: "int list"

definition ls_call :: "int \<Rightarrow> listener \<Rightarrow> int \<times> listener" where
  "ls_call nominal l =
     (case ls_sys l of
        [] \<Rightarrow> (nominal, l)
      | r # rs \<Rightarrow> ((case r of None \<Rightarrow> nominal | Some v \<Rightarrow> v), l\<lparr>ls_sys := rs\<rparr>))"

definition ls_close :: "listener \<Rightarrow> listener" where
  "ls_close l = l\<lparr>ls_closed := ls_closed l @ [ls_fd l]\<rparr>"

section \<open>Options of the socket\<close>

text \<open>
  \<open>setsockopt_err |= ... && setsockopt(...) == -1\<close>: each option is set whether an earlier one failed or not.
  An IPv4 socket has two options to set, an IPv6 socket three.
\<close>

fun ls_setsockopts :: "nat \<Rightarrow> listener \<Rightarrow> bool \<times> listener" where
  "ls_setsockopts 0 l = (False, l)"
| "ls_setsockopts (Suc n) l =
     (case ls_call 0 l of
        (r, l1) \<Rightarrow> (case ls_setsockopts n l1 of (err, l2) \<Rightarrow> (r = - 1 \<or> err, l2)))"

definition set_listener_options :: "bool \<Rightarrow> listener \<Rightarrow> bool \<times> listener" where
  "set_listener_options is_host_ipv6 = ls_setsockopts (if is_host_ipv6 then 3 else 2)"

section \<open>Binding\<close>

fun bind_first :: "bool \<Rightarrow> sockaddr list \<Rightarrow> listener \<Rightarrow> bool \<times> listener" where
  "bind_first is_host_ipv6 [] l = (False, if ls_fd l = - 1 then l else ls_close l)"
| "bind_first is_host_ipv6 (a # as) l =
     (case ls_call 3 l of
        (fd, l) \<Rightarrow>
          let l = l\<lparr>ls_fd := fd\<rparr>
          in if fd = - 1 then (False, l)
             else case set_listener_options is_host_ipv6 l of
                 (True, l) \<Rightarrow> (False, ls_close l)
               | (False, l) \<Rightarrow>
                   (case ls_call (if sockaddr_ntop_port a = None then - 1 else 0) l of
                      (r, l) \<Rightarrow>
                        if r = - 1 then (False, ls_close l)
                        else case ls_call 0 l of
                            (b, l) \<Rightarrow> if b \<noteq> 0 then bind_first is_host_ipv6 as (ls_close l)
                                     else (True, l\<lparr>ls_address := Some a\<rparr>)))"

definition tftp_server_listener_init ::
    "bool \<Rightarrow> bool \<Rightarrow> int \<times> sockaddr list \<Rightarrow> int option list \<Rightarrow> bool \<times> listener" where
  "tftp_server_listener_init memory is_host_ipv6 gai script =
     (let l = \<lparr>ls_fd = - 1, ls_address = None, ls_control = memory, ls_sys = script, ls_closed = []\<rparr>
      in if \<not> memory then (False, l)
         else if fst gai \<noteq> 0 then (False, l)
         else bind_first is_host_ipv6 (snd gai) l)"

definition tftp_server_listener_destroy :: "listener \<Rightarrow> listener" where
  "tftp_server_listener_destroy l = (ls_close l)\<lparr>ls_control := False\<rparr>"

section \<open>What is bound, and what is closed\<close>

lemma bind_first_bound:
  "bind_first v6 as l = (True, l') \<Longrightarrow> ls_fd l' \<noteq> - 1 \<and> (\<exists>a \<in> set as. ls_address l' = Some a)"
proof (induction as arbitrary: l)
  case (Cons a as)
  have fd: "ls_fd y = ls_fd x" if "ls_call n x = (r, y)" for n x r y
    using that by (auto simp: ls_call_def split: list.splits)
  have fds: "ls_fd y = ls_fd x" if "ls_setsockopts n x = (r, y)" for n x r y
    using that by (induction n arbitrary: x r y) (auto dest!: fd split: prod.splits)
  obtain d l1 where l1: "ls_call 3 l = (d, l1)" by fastforce
  obtain e l2 where l2: "set_listener_options v6 (l1\<lparr>ls_fd := d\<rparr>) = (e, l2)" by fastforce
  obtain r l3 where l3: "ls_call (if sockaddr_ntop_port a = None then - 1 else 0) l2 = (r, l3)" by fastforce
  obtain b l4 where l4: "ls_call 0 l3 = (b, l4)" by fastforce
  have d: "ls_fd l4 = d" using fds [OF l2 [unfolded set_listener_options_def]] fd [OF l3] fd [OF l4] by simp
  have ok: "d \<noteq> - 1" "\<not> e" "r \<noteq> - 1" using Cons.prems l1 l2 l3 by (auto simp: Let_def split: if_splits bool.splits)
  then have run: "(if b \<noteq> 0 then bind_first v6 as (ls_close l4) else (True, l4\<lparr>ls_address := Some a\<rparr>)) = (True, l')"
    using Cons.prems l1 l2 l3 l4 by (simp add: Let_def)
  show ?case
  proof (cases "b = 0")
    case True
    then have "l' = l4\<lparr>ls_address := Some a\<rparr>" using run by simp
    then show ?thesis using d ok(1) by simp
  next
    case False
    then show ?thesis using Cons.IH [of "ls_close l4"] run by auto
  qed
qed simp

text \<open>
  If \<open>bind\<close> fails for the last address, its descriptor has been closed when the loop ends, and is closed a
  second time: by then it may belong to something else.
\<close>

lemma unbound_socket_closed_twice:
  assumes "ls_sys l = Some fd # replicate (if v6 then 3 else 2) None @ [None, Some b]"
    and "fd \<noteq> - 1" and "b \<noteq> 0" and "sockaddr_ntop_port a \<noteq> None"
  shows "\<exists>l'. bind_first v6 [a] l = (False, l') \<and> ls_closed l' = ls_closed l @ [fd, fd]"
  using assms
  by (auto simp: ls_call_def set_listener_options_def numeral_eq_Suc Let_def ls_close_def)

end
