(* ===== verification/Spec2Isabelle.thy ===== *)
theory Spec2Isabelle
  imports Tftp_Packet_Ops Tftp_Window Tftp_Options Tftp_Adaptive_Timeout Tftp_Inet
    Tftp_Server_File Tftp_Session_Options Tftp_Dispatcher Tftp_Session Tftp_Session_Jobs
    Tftp_Session_Loop Tftp_Session_Read Tftp_Read_Start Tftp_Read_Timer Tftp_Session_Write Tftp_Write_Start
    Tftp_Client Tftp_Client_Get Tftp_Download Tftp_End_To_End
    Tftp_Client_Put Tftp_Upload Tftp_Upload_Runs Tftp_Server Tftp_Listener
begin

text \<open>
  A model of the TFTP library of file-transfer-over-udp, \<open>src/tftp\<close>: the packet codec, the client
  and the multi-threaded server, with their properties.

  \<^bold>\<open>The program.\<close>  A client transfers a file with a server over UDP: TFTP (RFC 1350) with the option
  extension (RFC 2347 to 2349), a sliding window (RFC 7440) and two options of its own, directory
  listings (\<open>read_type\<close>) and an adaptive retransmission timeout.  The main thread of the server receives
  requests and hands each one, with a free job, to the least busy worker; a worker is a thread with an
  \<open>io_uring\<close> dispatcher that runs the event loop of all sessions of its jobs.  The client is a plain
  loop around \<open>sendmsg\<close> and \<open>recvfrom\<close>.  Client and server share the codec, the window arithmetic and
  the timer.

  \<^bold>\<open>Theories and sources\<close>, in the order of their imports (paths under \<open>src/tftp\<close>).

  \<^item> \<open>Tftp_Prelude\<close>: bytes, words, the string functions of the C library, operations that return
    \<open>bool\<close> and change a state (\<open>op\<close>, \<open>chain\<close>), and two interfaces used throughout: \<open>op_effect\<close>
    (a reflexive and transitive effect that a sequence of operations has if each of them has it) and
    \<open>invariant_machine\<close> (a step relation with an inductive invariant).
  \<^item> \<open>Tftp_Packet\<close>, \<open>Tftp_Packet_Ops\<close>: \<open>include/tftp.h\<close> and the packet half of \<open>src/tftp.c\<close>.  Big endian
    numbers and terminated strings are two interpretations of the interface \<open>field_codec\<close>.
  \<^item> \<open>Tftp_Options\<close>: formatting and parsing of option strings, \<open>src/tftp.c\<close>.
  \<^item> \<open>Tftp_Window\<close>: range test, slot and payload of a window, from \<open>server/session.c\<close> and
    \<open>client/client.c\<close>; the interface \<open>packet_ring\<close> is the contract of the buffer of unacknowledged
    packets, interpreted on the buffer of the session in \<open>Tftp_Session_Read\<close>.
  \<^item> \<open>Tftp_Adaptive_Timeout\<close>: \<open>src/adaptive_timeout.c\<close> and \<open>utils/time.h\<close>.
  \<^item> \<open>Tftp_Inet\<close>: addresses, \<open>utils/inet.c\<close>.
  \<^item> \<open>Tftp_Server_File\<close>: \<open>server/session_file.c\<close>, \<open>utils/io.c\<close>.
  \<^item> \<open>Tftp_Session_Options\<close>: \<open>server/session_options.c\<close>.
  \<^item> \<open>Tftp_Dispatcher\<close>: \<open>server/dispatcher.c\<close> and the event identifiers.
  \<^item> \<open>Tftp_Session\<close>: \<open>server/session.c\<close> with every handler (\<open>tftp_session_handle_event\<close> and what it
    calls), \<open>session_connection.c\<close>, \<open>session_stats.c\<close>.  The record \<open>session\<close> is \<open>struct tftp_session\<close>.
  \<^item> \<open>Tftp_Session_Jobs\<close>, \<open>Tftp_Session_Loop\<close>: requests in flight and the event loop of one session.
  \<^item> \<open>Tftp_File_Blocks\<close>: the specification of a sender, the file cut into blocks.
  \<^item> \<open>Tftp_Session_Read\<close>, \<open>Tftp_Read_Invariant\<close>, \<open>Tftp_Read_Data\<close>, \<open>Tftp_Read_Transfer\<close>, \<open>Tftp_Read_Start\<close>:
    read sessions, from the window to whole transfers; \<open>Tftp_Read_Timer\<close>: the timeouts they have in flight.
  \<^item> \<open>Tftp_Worker\<close>: \<open>server/worker_job.c\<close>, \<open>server/worker.c\<close>, \<open>server/worker_pool.c\<close>.
  \<^item> \<open>Tftp_Server\<close>: \<open>server/server.c\<close>, \<open>server/server_stats.c\<close>; the threads as a step relation.
  \<^item> \<open>Tftp_Session_Write\<close>, \<open>Tftp_Write_Start\<close>: write sessions, from one event to whole transfers, and the write
    session that ends its worker.
  \<^item> \<open>Tftp_Listener\<close>: \<open>server/listener.c\<close>.
  \<^item> \<open>Tftp_Client\<close>, \<open>Tftp_Client_Get\<close>, \<open>Tftp_Client_Put\<close>: \<open>client/client.c\<close>, \<open>client/connection.c\<close> and
    \<open>client/stats.c\<close>: what both directions share, downloads, uploads.
  \<^item> \<open>Tftp_Download\<close>, \<open>Tftp_Upload\<close>, \<open>Tftp_Upload_Runs\<close>: correctness of both.
  \<^item> \<open>Tftp_End_To_End\<close>: a client that downloads from a read session.

  Structures are records with the fields of the source, under its names; enumerations are datatypes
  with its constructors.  A function that takes a pointer to a structure takes the record and returns
  it updated.  Block numbers, counters and sizes that the source keeps in \<open>uint8_t\<close> or \<open>uint16_t\<close> are
  words, so that they wrap as they do there; a comparison that C promotes to \<open>int\<close> is a comparison of
  integers.  Undefined behaviour is the value \<open>Fault\<close> (or \<open>None\<close> in the functions over one memory
  object), a path of its own in every function that can reach it.

  \<^bold>\<open>The environment.\<close>  System calls are arguments, or scripts in the state: the record of a client has
  the arrivals of its socket (\<open>c_inbox\<close>), the results of the other calls (\<open>c_sys\<close>) and the readings of
  its clock (\<open>c_clock\<close>), a session has \<open>sys\<close> and \<open>clock\<close>; the end of a script is success.  Theorems hold
  for all scripts unless they say that calls succeed.  The files of the server are the argument \<open>os\<close>: which can
  be opened, with which descriptor, and whether \<open>read\<close> and \<open>lseek\<close> succeed on them.  The kernel side of \<open>io_uring\<close> is a list of
  requests in flight: any of them may complete next, in any order, with data, a short count, an error
  or a time-out.  Datagrams a program receives are arbitrary bytes from arbitrary addresses.  The time
  estimates of the adaptive timeout are rationals for \<open>double\<close>s.

  Threads interleave between accesses to shared state: a \<open>server_step\<close> is a load of \<open>should_stop\<close> and
  the choice of a worker, \<open>sem_wait\<close>, one iteration of the search for a free job, one body of the
  receive loop, one event of a worker, one \<open>sem_post\<close>, or a step of \<open>tftp_server_destroy\<close>.  The source
  has data races on the dispatcher of a worker and on \<open>pending_requests\<close>; in the model these accesses
  are atomic.

  \<^bold>\<open>What is shown.\<close>

  \<^item> Codec: requests, DATA, ACK, options and the OACK of a session read back as they were written;
    the decoders stay inside their memory objects under a stated condition on the object, which the
    callers in the source do not always ensure; parsed and negotiated values are in range.
  \<^item> Window and timer: the wrap-around range test is a distance test, what it accepts on an empty
    window, when slots are distinct, bounds of the retransmission timeout.
  \<^item> Sessions, for every order of completions: the counter of pending jobs is the number of requests in
    flight, a session that is not closing always listens, and it is freed when nothing is in flight.
  \<^item> Read sessions refine the abstract sender of \<open>Tftp_File_Blocks\<close>: every DATA packet is a block of
    the file with its number, nothing is skipped, the session closes on an acknowledgement only
    after the last block was acknowledged, and until it closes a read, or a timeout that was not cancelled, is
    in flight.  These theorems have two hypotheses.  \<open>fair_step\<close> excludes an acknowledgement of
    a block never sent while nothing is outstanding; without it a worker can hang, which is a theorem.
    \<open>ring_suffices\<close> says that the window size divides 65536 or that the blocks and one window have
    different numbers; without it two blocks of a window can share a slot (\<open>window_slots_collide\<close>).  For the
    timeouts, \<open>keeps_time\<close> assumes of the kernel that one ends with \<open>ECANCELED\<close> only if a removal was
    asked for after it had been submitted, and never with \<open>ENOENT\<close>.
  \<^item> Write sessions, for every order of completions: after every event the file holds exactly the first
    \<open>k\<close> chunks of what the client sends and exactly the blocks up to \<open>k\<close> have been acknowledged; a session
    that closes without an error has stored the file.  Two failures are theorems: the first block of a file that
    cannot be opened ends the server, and without options a lost acknowledgement is never repeated.  The
    hypothesis \<open>delivers\<close> says that the DATA packets of the client are blocks of its file and that
    \<open>write\<close> does not return a short count, which the code does not look at.
  \<^item> Downloads: a download that succeeds has written the file of the sender, for every loss,
    duplication and reordering; with the sessions this gives the end to end theorem.
  \<^item> Uploads: the loop of \<open>send_file\<close> ends unless it comes to a \<open>recvfrom\<close> that blocks for ever, which needs a
    remaining time of less than a microsecond; an upload that succeeds has sent exactly the blocks of the
    file, and one that is acknowledged succeeds; the other exceptions are theorems as well.
  \<^item> Server: \<open>system_sound\<close> is an invariant of all threads: semaphores count free jobs, a job is reused
    only when nothing is in flight for it, and completions reach the active session they belong to.  A run in
    which it receives nothing but oversized datagrams (\<open>flooded\<close>) can leave it without slots for ever.
  \<^item> Errors: rejected requests, failed opens, exhausted retransmissions, and the situations in which the
    code does not do what it means to.

  \<^bold>\<open>Bounds and termination.\<close>  Block numbers have 16 bits, so uploads are bounded by 65535 blocks (65533
  where the last comparison of the loop matters) and downloads and write sessions by 65536.  Read
  sessions whose window size divides 65536 have no bound, since the proof counts blocks in \<open>nat\<close> and relates the
  words to them; with other window sizes the blocks and one window must be at most 65536.  The 8-bit counter of pending
  jobs is exact below 256 requests in flight, the hypothesis \<open>few_in_flight\<close>.  Loops over a buffer, an
  inbox or a retry count are total functions with a measure.  Loops that can run for ever
  (\<open>retransmit\<close> of the session; \<open>fill_window\<close>, \<open>resend_window\<close> and \<open>send_loop\<close> of the client) are partial
  functions whose value \<open>None\<close> means that they do, or, for \<open>send_loop\<close>, that a \<open>recvfrom\<close> blocks for ever; that
  they return is always a theorem of its own.  A client request that does not return has the result
  \<open>Client_Hangs\<close>.  No definition uses fuel.

  \<^bold>\<open>Not modelled.\<close>  The logger and all log lines (they do not change the state; one that is undefined
  behaviour is kept), textual addresses, the statistics that are only printed, the benchmark and the
  example programs with their command lines, which only call the library.
  \<open>dispatcher_submit_timeout_update\<close> and \<open>dispatcher_submit_sendto\<close> have no caller.  The resolver and the
  kernel are arguments.
\<close>

end
